(* ===== verification/Prelude.thy ===== *)
theory Prelude
  imports Main "HOL-Library.Word"
begin

text \<open>
  Shared vocabulary of the development: the machine types of the Rust source, its
  \<open>Result<_, String>\<close> and the outcome of an \<open>async\<close> call, byte orders of the integer types,
  the pieces of the Rust standard library the source uses on slices and strings, and the
  collections of rewrite rules the component theories extend.

  A byte slice is a list of 8-bit words; a Rust \<open>String\<close> is the list of its UTF-8 bytes as HOL
  characters; a fixed array \<open>[u8; N]\<close> is a byte list whose length is a type invariant of the
  component that holds it.
\<close>

named_theorems res_iff \<open>inversion of results: when a call returned what it returned\<close>
named_theorems byte_simps \<open>evaluation of byte-level functions on literals\<close>

section \<open>Types\<close>

type_synonym byte = "8 word"
type_synonym u16 = "16 word"
type_synonym u32 = "32 word"
type_synonym u64 = "64 word"

text \<open>\<open>Result<T, String>\<close>: \<open>Inl\<close> is \<open>Err\<close>, \<open>Inr\<close> is \<open>Ok\<close>.\<close>

type_synonym 'a result = "string + 'a"

text \<open>
  What awaiting a future comes to: it resolves to a value, or it stays pending forever (the
  peer keeps the channel open and never sends what is awaited).
\<close>

datatype 'a poll = Ready 'a | Pending

section \<open>Results and asynchronous calls\<close>

text \<open>The \<open>?\<close> operator on a \<open>Result\<close>.\<close>

definition res_bind :: "'e + 'a \<Rightarrow> ('a \<Rightarrow> 'e + 'b) \<Rightarrow> 'e + 'b" where
  "res_bind m f = (case m of Inl e \<Rightarrow> Inl e | Inr x \<Rightarrow> f x)"

lemma res_bind_simps [simp]:
  "res_bind (Inl e) f = Inl e"
  "res_bind (Inr x) f = f x"
  by (simp_all add: res_bind_def)

lemma res_bind_Inr [res_iff]:
  "res_bind m f = Inr y \<longleftrightarrow> (\<exists>x. m = Inr x \<and> f x = Inr y)"
  by (cases m) auto

lemma res_bind_Inl [res_iff]:
  "res_bind m f = Inl e \<longleftrightarrow> m = Inl e \<or> (\<exists>x. m = Inr x \<and> f x = Inl e)"
  by (cases m) auto

text \<open>\<open>map_err\<close>.\<close>

definition map_err :: "('e \<Rightarrow> 'f) \<Rightarrow> 'e + 'a \<Rightarrow> 'f + 'a" where
  "map_err f m = (case m of Inl e \<Rightarrow> Inl (f e) | Inr x \<Rightarrow> Inr x)"

lemma map_err_simps [simp]:
  "map_err f (Inl e) = Inl (f e)"
  "map_err f (Inr x) = Inr x"
  by (simp_all add: map_err_def)

lemma map_err_Inr [res_iff]: "map_err f m = Inr y \<longleftrightarrow> m = Inr y"
  by (cases m) auto

text \<open>
  An asynchronous operation takes the state it works on and gives its outcome and the state
  after it. \<open>await\<close> is \<open>.await?\<close>: an error or a call that never returns ends the caller too;
  \<open>lift_res\<close> is \<open>?\<close> on a synchronous result inside such an operation.
\<close>

type_synonym ('w, 'a) async = "'w \<Rightarrow> 'a result poll \<times> 'w"

definition await :: "('w, 'a) async \<Rightarrow> ('a \<Rightarrow> ('w, 'b) async) \<Rightarrow> ('w, 'b) async" where
  "await f g w = (case f w of
       (Pending, w1) \<Rightarrow> (Pending, w1)
     | (Ready (Inl e), w1) \<Rightarrow> (Ready (Inl e), w1)
     | (Ready (Inr x), w1) \<Rightarrow> g x w1)"

definition ok :: "'a \<Rightarrow> ('w, 'a) async" where
  "ok x w = (Ready (Inr x), w)"

definition fail :: "string \<Rightarrow> ('w, 'a) async" where
  "fail e w = (Ready (Inl e), w)"

definition lift_res :: "'a result \<Rightarrow> ('w, 'a) async" where
  "lift_res r w = (Ready r, w)"

lemma async_simps [simp]:
  "f w = (Pending, w1) \<Longrightarrow> await f g w = (Pending, w1)"
  "f w = (Ready (Inl e), w1) \<Longrightarrow> await f g w = (Ready (Inl e), w1)"
  "f w = (Ready (Inr x), w1) \<Longrightarrow> await f g w = g x w1"
  "await (ok x) g w = g x w"
  "await (lift_res (Inr x)) g w = g x w"
  "await (lift_res (Inl e)) g w = (Ready (Inl e), w)"
  "await (fail e) g w = (Ready (Inl e), w)"
  by (simp_all add: await_def ok_def lift_res_def fail_def)

lemma await_Ready_Inr [res_iff]:
  "await f g w = (Ready (Inr y), w') \<longleftrightarrow>
     (\<exists>x w1. f w = (Ready (Inr x), w1) \<and> g x w1 = (Ready (Inr y), w'))"
  by (auto simp: await_def split: prod.splits poll.splits sum.splits)

lemma lift_res_Ready_Inr [res_iff]:
  "lift_res r w = (Ready (Inr y), w') \<longleftrightarrow> r = Inr y \<and> w' = w"
  by (auto simp: lift_res_def)

lemma ok_Ready_Inr [res_iff]: "ok x w = (Ready (Inr y), w') \<longleftrightarrow> x = y \<and> w' = w"
  by (auto simp: ok_def)

lemma fail_Ready_Inr [res_iff]: "fail e w = (Ready (Inr y), w') \<longleftrightarrow> False"
  by (auto simp: fail_def)

text \<open>
  What an asynchronous call does to the state, however it ends: every state it can leave behind is
  related to the one it started from. A reflexive and transitive relation is kept by every
  composition of calls that keep it.
\<close>

definition steps :: "('w \<Rightarrow> 'w \<Rightarrow> bool) \<Rightarrow> ('w, 'a) async \<Rightarrow> bool" where
  "steps R f \<longleftrightarrow> (\<forall>w. R w (snd (f w)))"

lemma stepsI: "(\<And>w r w'. f w = (r, w') \<Longrightarrow> R w w') \<Longrightarrow> steps R f"
  by (metis steps_def prod.collapse)

lemma stepsD: "steps R f \<Longrightarrow> f w = (r, w') \<Longrightarrow> R w w'"
  by (metis steps_def snd_conv)

locale state_relation =
  fixes R :: "'w \<Rightarrow> 'w \<Rightarrow> bool"
  assumes refl: "R w w"
    and trans: "R u v \<Longrightarrow> R v w \<Longrightarrow> R u w"
begin

lemma steps_pure [simp]: "steps R (ok x)" "steps R (fail e)" "steps R (lift_res r)"
  by (simp_all add: steps_def ok_def fail_def lift_res_def refl)

lemma steps_await:
  assumes "steps R f" and "\<And>x. steps R (g x)"
  shows "steps R (await f g)"
proof (rule stepsI)
  fix w r w' assume a: "await f g w = (r, w')"
  obtain s w1 where f: "f w = (s, w1)" by force
  from stepsD [OF assms(1) this] have "R w w1" .
  moreover have "R w1 w'" if "g x w1 = (r, w')" for x using stepsD [OF assms(2) that] .
  ultimately show "R w w'"
    using a f by (auto simp: await_def split: poll.splits sum.splits intro: trans)
qed

lemma steps_lift [simp]: "steps R (\<lambda>w. lift_res (g w) w)"
  by (simp add: steps_def lift_res_def refl)

end

section \<open>Byte orders\<close>

text \<open>
  \<open>to_le_bytes\<close> and \<open>to_be_bytes\<close> of an integer of \<open>n\<close> bytes, and the number a byte sequence
  stands for in either order (\<open>from_le_bytes\<close>, \<open>from_be_bytes\<close>).
\<close>

primrec le_bytes :: "nat \<Rightarrow> nat \<Rightarrow> byte list" where
  "le_bytes 0 x = []"
| "le_bytes (Suc n) x = of_nat x # le_bytes n (x div 256)"

definition be_bytes :: "nat \<Rightarrow> nat \<Rightarrow> byte list" where
  "be_bytes n x = rev (le_bytes n x)"

primrec le_val :: "byte list \<Rightarrow> nat" where
  "le_val [] = 0"
| "le_val (b # bs) = unat b + 256 * le_val bs"

definition be_val :: "byte list \<Rightarrow> nat" where
  "be_val bs = le_val (rev bs)"

lemma le_bytes_numeral [byte_simps]:
  "le_bytes (numeral k) x = of_nat x # le_bytes (pred_numeral k) (x div 256)"
  by (simp only: numeral_eq_Suc [of k] le_bytes.simps)

declare be_bytes_def [byte_simps] be_val_def [byte_simps]

lemma length_le_bytes [simp]: "length (le_bytes n x) = n"
  by (induction n arbitrary: x) auto

lemma length_be_bytes [simp]: "length (be_bytes n x) = n"
  by (simp add: be_bytes_def)

lemma unat_byte_lt [simp]: "unat (b :: byte) < 256"
  using unsigned_less [of b, where ?'a = nat] by simp

lemma unat_of_nat_byte: "unat (of_nat x :: byte) = x mod 256"
  by (simp add: unat_of_nat)

lemma le_val_bound: "le_val bs < 256 ^ length bs"
proof (induction bs)
  case (Cons b bs)
  have "unat b + 256 * le_val bs < 256 + 256 * le_val bs" by simp
  also have "\<dots> = 256 * Suc (le_val bs)" by simp
  also have "\<dots> \<le> 256 * 256 ^ length bs" using Cons by (intro mult_le_mono2) simp
  finally show ?case by simp
qed simp

lemma be_val_bound: "be_val bs < 256 ^ length bs"
  using le_val_bound [of "rev bs"] by (simp add: be_val_def)

lemma le_val_bytes: "le_val (le_bytes n x) = x mod 256 ^ n"
proof (induction n arbitrary: x)
  case (Suc n)
  have "le_val (le_bytes (Suc n) x) = x mod 256 + 256 * (x div 256 mod 256 ^ n)"
    by (simp add: Suc unat_of_nat_byte)
  also have "\<dots> = x mod (256 * 256 ^ n)" by (simp add: mod_mult2_eq)
  finally show ?case by simp
qed simp

lemma be_val_bytes: "be_val (be_bytes n x) = x mod 256 ^ n"
  by (simp add: be_val_def be_bytes_def le_val_bytes)

lemma le_bytes_val: "le_bytes (length bs) (le_val bs) = bs"
proof (induction bs)
  case (Cons b bs)
  have d: "(unat b + 256 * le_val bs) div 256 = le_val bs" by simp
  have m: "(of_nat (unat b + 256 * le_val bs) :: byte) = b"
    by (simp add: word_unat_eq_iff unat_of_nat_byte del: of_nat_add)
  show ?case by (simp only: list.size add_0 le_val.simps le_bytes.simps d m Cons Nat.add_0_right add_Suc_right)
qed simp

lemma be_bytes_val: "be_bytes (length bs) (be_val bs) = bs"
  using le_bytes_val [of "rev bs"] by (simp add: be_bytes_def be_val_def)

lemma le_val_inj: "length as = length bs \<Longrightarrow> le_val as = le_val bs \<longleftrightarrow> as = bs"
  by (metis le_bytes_val)

lemma be_val_inj: "length as = length bs \<Longrightarrow> be_val as = be_val bs \<longleftrightarrow> as = bs"
  by (metis be_bytes_val)

lemma le_val_append: "le_val (as @ bs) = le_val as + 256 ^ length as * le_val bs"
  by (induction as) (auto simp: algebra_simps)

lemma be_val_snoc: "be_val (bs @ [b]) = 256 * be_val bs + unat b"
  by (simp add: be_val_def)

lemma be_val_Cons: "be_val (b # bs) = unat b * 256 ^ length bs + be_val bs"
  by (simp add: be_val_def le_val_append)

lemma be_bytes_inj:
  "x < 256 ^ n \<Longrightarrow> y < 256 ^ n \<Longrightarrow> be_bytes n x = be_bytes n y \<longleftrightarrow> x = y"
  by (metis be_val_bytes mod_less)

lemma le_bytes_inj:
  "x < 256 ^ n \<Longrightarrow> y < 256 ^ n \<Longrightarrow> le_bytes n x = le_bytes n y \<longleftrightarrow> x = y"
  by (metis le_val_bytes mod_less)

text \<open>The fixed widths the source uses.\<close>

definition u16_to_be :: "u16 \<Rightarrow> byte list" where "u16_to_be w = be_bytes 2 (unat w)"
definition u32_to_be :: "u32 \<Rightarrow> byte list" where "u32_to_be w = be_bytes 4 (unat w)"
definition u64_to_be :: "u64 \<Rightarrow> byte list" where "u64_to_be w = be_bytes 8 (unat w)"
definition u32_to_le :: "u32 \<Rightarrow> byte list" where "u32_to_le w = le_bytes 4 (unat w)"
definition u64_to_le :: "u64 \<Rightarrow> byte list" where "u64_to_le w = le_bytes 8 (unat w)"
definition u16_from_be :: "byte list \<Rightarrow> u16" where "u16_from_be bs = of_nat (be_val bs)"
definition u32_from_be :: "byte list \<Rightarrow> u32" where "u32_from_be bs = of_nat (be_val bs)"

declare u16_to_be_def [byte_simps] u32_to_be_def [byte_simps] u64_to_be_def [byte_simps]
  u32_to_le_def [byte_simps] u64_to_le_def [byte_simps]
  u16_from_be_def [byte_simps] u32_from_be_def [byte_simps]

lemma length_word_bytes [simp]:
  "length (u16_to_be a) = 2" "length (u32_to_be b) = 4" "length (u64_to_be c) = 8"
  "length (u32_to_le b) = 4" "length (u64_to_le c) = 8"
  by (simp_all add: u16_to_be_def u32_to_be_def u64_to_be_def u32_to_le_def u64_to_le_def)

lemma unat_u16_lt: "unat (w :: u16) < 256 ^ 2"
  using unsigned_less [of w, where ?'a = nat] by simp

lemma unat_u32_lt: "unat (w :: u32) < 256 ^ 4"
  using unsigned_less [of w, where ?'a = nat] by simp

lemma unat_u64_lt: "unat (w :: u64) < 256 ^ 8"
  using unsigned_less [of w, where ?'a = nat] by simp

lemma u16_from_to_be [simp]: "u16_from_be (u16_to_be w) = w"
  using unat_u16_lt [of w] by (simp add: u16_from_be_def u16_to_be_def be_val_bytes)

lemma u32_from_to_be [simp]: "u32_from_be (u32_to_be w) = w"
  using unat_u32_lt [of w] by (simp add: u32_from_be_def u32_to_be_def be_val_bytes)

lemma u16_to_from_be: "length bs = 2 \<Longrightarrow> u16_to_be (u16_from_be bs) = bs"
  using be_bytes_val [of bs] be_val_bound [of bs]
  by (simp add: u16_to_be_def u16_from_be_def unat_of_nat)

lemma u32_to_from_be: "length bs = 4 \<Longrightarrow> u32_to_be (u32_from_be bs) = bs"
  using be_bytes_val [of bs] be_val_bound [of bs]
  by (simp add: u32_to_be_def u32_from_be_def unat_of_nat)

lemma length_2: "length xs = 2 \<Longrightarrow> \<exists>a b. xs = [a, b]"
  by (auto simp: eval_nat_numeral length_Suc_conv)

lemma length_4: "length xs = 4 \<Longrightarrow> \<exists>a b c d. xs = [a, b, c, d]"
  by (auto simp: eval_nat_numeral length_Suc_conv)

lemma u16_to_be_cases: obtains a b where "u16_to_be w = [a, b]"
  using length_2 [OF length_word_bytes(1) [of w]] by blast

lemma u32_to_be_cases: obtains a b c d where "u32_to_be w = [a, b, c, d]"
  using length_4 [OF length_word_bytes(2) [of w]] by blast

lemma u32_to_be_inj [simp]: "u32_to_be a = u32_to_be b \<longleftrightarrow> a = b"
  by (metis u32_from_to_be)

lemma u32_to_le_inj [simp]: "u32_to_le a = u32_to_le b \<longleftrightarrow> a = b"
  using unat_u32_lt [of a] unat_u32_lt [of b] by (simp add: u32_to_le_def le_bytes_inj word_unat_eq_iff)

lemma u64_to_le_inj [simp]: "u64_to_le a = u64_to_le b \<longleftrightarrow> a = b"
  using unat_u64_lt [of a] unat_u64_lt [of b] by (simp add: u64_to_le_def le_bytes_inj word_unat_eq_iff)

section \<open>Slices\<close>

text \<open>\<open>slice::chunks\<close>: pieces of \<open>n\<close> elements, the last one shorter where they do not divide.\<close>

fun chunks :: "nat \<Rightarrow> 'a list \<Rightarrow> 'a list list" where
  "chunks n xs = (if n = 0 \<or> xs = [] then [] else take n xs # chunks n (drop n xs))"

declare chunks.simps [simp del]

lemma chunks_Nil [simp]: "chunks n [] = []"
  by (simp add: chunks.simps)

lemma chunks_step: "0 < n \<Longrightarrow> xs \<noteq> [] \<Longrightarrow> chunks n xs = take n xs # chunks n (drop n xs)"
  by (simp add: chunks.simps [of n xs])

lemma concat_chunks: "0 < n \<Longrightarrow> concat (chunks n xs) = xs"
proof (induction n xs rule: chunks.induct)
  case (1 n xs)
  then show ?case by (cases "xs = []") (simp_all add: chunks_step)
qed

lemma chunks_bounds: "0 < n \<Longrightarrow> c \<in> set (chunks n xs) \<Longrightarrow> c \<noteq> [] \<and> length c \<le> n"
proof (induction n xs rule: chunks.induct)
  case (1 n xs)
  then show ?case by (cases "xs = []") (auto simp: chunks_step)
qed

lemma length_chunks: "0 < n \<Longrightarrow> length (chunks n xs) = (length xs + n - 1) div n"
proof (induction n xs rule: chunks.induct)
  case (1 n xs)
  show ?case
  proof (cases "xs = []")
    case True with 1 show ?thesis by simp
  next
    case False
    define k where "k = length xs - 1"
    with False have k: "length xs = Suc k" by (cases xs) simp_all
    from False 1 have "length (chunks n xs) = Suc ((Suc k - n + n - 1) div n)"
      by (simp add: chunks_step k)
    also have "(Suc k - n + n - 1) div n = k div n"
      using 1 by (cases "n \<le> Suc k") simp_all
    also have "Suc (k div n) = (k + n) div n" using 1 by (simp add: div_add_self2)
    finally show ?thesis by (simp add: k)
  qed
qed

lemma append_eq_same_length:
  "length a = length b \<Longrightarrow> a @ c = b @ d \<longleftrightarrow> a = b \<and> c = d"
  by (rule append_eq_append_conv) simp

section \<open>Strings\<close>

text \<open>The bytes of a string, and of a byte-string literal.\<close>

definition str_bytes :: "string \<Rightarrow> byte list" where
  "str_bytes s = map (\<lambda>c. of_nat (of_char c)) s"

definition bytes_str :: "byte list \<Rightarrow> string" where
  "bytes_str bs = map (\<lambda>b. char_of (unat b)) bs"

declare str_bytes_def [byte_simps]

lemma bytes_str_bytes [simp]: "bytes_str (str_bytes s) = s"
  by (simp add: bytes_str_def str_bytes_def comp_def unat_of_nat_byte)

lemma length_str_bytes [simp]: "length (str_bytes s) = length s"
  by (simp add: str_bytes_def)

text \<open>Decimal rendering of an unsigned integer (\<open>{n}\<close> in a format string).\<close>

fun show_nat :: "nat \<Rightarrow> string" where
  "show_nat n = (if n < 10 then [char_of (48 + n)] else show_nat (n div 10) @ [char_of (48 + n mod 10)])"

declare show_nat.simps [simp del]

lemma show_nat_small [byte_simps]: "n < 10 \<Longrightarrow> show_nat n = [char_of (48 + n)]"
  by (simp add: show_nat.simps)

lemma show_nat_step [byte_simps]:
  "\<not> n < 10 \<Longrightarrow> show_nat n = show_nat (n div 10) @ [char_of (48 + n mod 10)]"
  by (simp add: show_nat.simps [of n])

text \<open>\<open>{b:02x}\<close>: two lowercase hex digits.\<close>

definition hex_digit :: "nat \<Rightarrow> char" where
  "hex_digit n = (if n < 10 then char_of (48 + n) else char_of (87 + n))"

definition show_byte_hex :: "byte \<Rightarrow> string" where
  "show_byte_hex b = [hex_digit (unat b div 16), hex_digit (unat b mod 16)]"

text \<open>\<open>str::split(c)\<close>: at every occurrence, so always at least one piece.\<close>

fun split_on :: "'a \<Rightarrow> 'a list \<Rightarrow> 'a list list" where
  "split_on c [] = [[]]"
| "split_on c (x # xs) =
     (if x = c then [] # split_on c xs
      else case split_on c xs of [] \<Rightarrow> [[x]] | p # ps \<Rightarrow> (x # p) # ps)"

text \<open>\<open>str::strip_prefix\<close>, \<open>str::strip_suffix\<close> (of one character), \<open>starts_with\<close>, \<open>join\<close>.\<close>

fun strip_prefix :: "'a list \<Rightarrow> 'a list \<Rightarrow> 'a list option" where
  "strip_prefix [] ys = Some ys"
| "strip_prefix (x # xs) [] = None"
| "strip_prefix (x # xs) (y # ys) = (if x = y then strip_prefix xs ys else None)"

definition starts_with :: "'a list \<Rightarrow> 'a list \<Rightarrow> bool" where
  "starts_with s p = (strip_prefix p s \<noteq> None)"

definition strip_suffix_char :: "'a \<Rightarrow> 'a list \<Rightarrow> 'a list option" where
  "strip_suffix_char c s = (if s \<noteq> [] \<and> last s = c then Some (butlast s) else None)"

fun join :: "'a list \<Rightarrow> 'a list list \<Rightarrow> 'a list" where
  "join sep [] = []"
| "join sep [p] = p"
| "join sep (p # q # ps) = p @ sep @ join sep (q # ps)"

definition unwrap_or :: "'a option \<Rightarrow> 'a \<Rightarrow> 'a" where
  "unwrap_or m d = (case m of None \<Rightarrow> d | Some x \<Rightarrow> x)"

lemma unwrap_or_simps [simp]: "unwrap_or None d = d" "unwrap_or (Some x) d = x"
  by (simp_all add: unwrap_or_def)

lemma strip_prefix_Some [res_iff]: "strip_prefix p s = Some r \<longleftrightarrow> s = p @ r"
  by (induction p s rule: strip_prefix.induct) auto

lemma starts_with_iff: "starts_with s p \<longleftrightarrow> (\<exists>r. s = p @ r)"
  by (auto simp: starts_with_def res_iff)

lemma split_on_not_Nil [simp]: "split_on c s \<noteq> []"
  by (cases s) (auto split: list.splits)

lemma split_on_no_sep: "p \<in> set (split_on c s) \<Longrightarrow> c \<notin> set p"
  by (induction s arbitrary: p) (force split: if_splits list.splits)+

lemma split_on_append_sep:
  "c \<notin> set p \<Longrightarrow> split_on c (p @ c # s) = p # split_on c s"
  by (induction p) auto

lemma split_on_id: "c \<notin> set p \<Longrightarrow> split_on c p = [p]"
  by (induction p) auto

text \<open>
  Well-formed UTF-8 (the invariant of \<open>String\<close> and the check of \<open>std::str::from_utf8\<close>), after the
  table of well-formed byte sequences: no overlong forms, no surrogates, nothing above U+10FFFF.
\<close>

definition utf8_cont :: "nat \<Rightarrow> nat \<Rightarrow> nat \<Rightarrow> bool" where
  "utf8_cont lo hi b \<longleftrightarrow> lo \<le> b \<and> b \<le> hi"

fun utf8_ok :: "nat list \<Rightarrow> bool" where
  "utf8_ok [] = True"
| "utf8_ok (b # bs) =
     (if b < 128 then utf8_ok bs
      else if 194 \<le> b \<and> b \<le> 223 then
        (case bs of c # r \<Rightarrow> utf8_cont 128 191 c \<and> utf8_ok r | _ \<Rightarrow> False)
      else if 224 \<le> b \<and> b \<le> 239 then
        (case bs of c # d # r \<Rightarrow>
            utf8_cont (if b = 224 then 160 else 128) (if b = 237 then 159 else 191) c
            \<and> utf8_cont 128 191 d \<and> utf8_ok r
          | _ \<Rightarrow> False)
      else if 240 \<le> b \<and> b \<le> 244 then
        (case bs of c # d # e # r \<Rightarrow>
            utf8_cont (if b = 240 then 144 else 128) (if b = 244 then 143 else 191) c
            \<and> utf8_cont 128 191 d \<and> utf8_cont 128 191 e \<and> utf8_ok r
          | _ \<Rightarrow> False)
      else False)"

definition is_utf8 :: "string \<Rightarrow> bool" where
  "is_utf8 s = utf8_ok (map of_char s)"

definition is_ascii :: "string \<Rightarrow> bool" where
  "is_ascii s = (\<forall>c \<in> set s. (of_char c :: nat) < 128)"

lemma is_utf8_Nil [simp]: "is_utf8 []"
  by (simp add: is_utf8_def)

lemma ascii_is_utf8: "is_ascii s \<Longrightarrow> is_utf8 s"
  by (induction s) (auto simp: is_utf8_def is_ascii_def)

text \<open>
  \<open>str::trim\<close>: the encodings of the characters with Unicode's \<open>White_Space\<close> property are removed from
  both ends. On well-formed UTF-8 a byte pattern matches at character boundaries only.
\<close>

definition white_spaces :: "string list" where
  "white_spaces = map (map char_of)
     ([[9], [10], [11], [12], [13], [32], [0xC2, 0x85], [0xC2, 0xA0], [0xE1, 0x9A, 0x80]]
      @ map (\<lambda>b. [0xE2, 0x80, b]) ([0x80..<0x8B] @ [0xA8, 0xA9, 0xAF])
      @ [[0xE2, 0x81, 0x9F], [0xE3, 0x80, 0x80 :: nat]])"

fun strip_first :: "'a list list \<Rightarrow> 'a list \<Rightarrow> 'a list option" where
  "strip_first [] s = None"
| "strip_first (p # ps) s = (case strip_prefix p s of Some r \<Rightarrow> Some r | None \<Rightarrow> strip_first ps s)"

function trim_start_of :: "'a list list \<Rightarrow> 'a list \<Rightarrow> 'a list" where
  "trim_start_of ws s =
     (case strip_first ws s of
        None \<Rightarrow> s
      | Some r \<Rightarrow> if length r < length s then trim_start_of ws r else s)"
  by auto

termination
  by (relation "measure (\<lambda>(ws, s). length s)") auto

declare trim_start_of.simps [simp del]

definition trim :: "string \<Rightarrow> string" where
  "trim s = rev (trim_start_of (map rev white_spaces) (rev (trim_start_of white_spaces s)))"

lemma strip_first_None: "list_all (\<lambda>p. p \<noteq> [] \<and> (s = [] \<or> hd p \<noteq> hd s)) ps \<Longrightarrow> strip_first ps s = None"
proof (induction ps)
  case (Cons p ps)
  then have "strip_prefix p s = None" by (cases p; cases s) auto
  with Cons show ?case by simp
qed simp

definition graphic :: "char \<Rightarrow> bool" where
  "graphic c \<longleftrightarrow> (of_char c :: nat) \<in> {33..126}"

lemma white_spaces_ends:
  "list_all (\<lambda>p. p \<noteq> [] \<and> \<not> graphic (hd p)) white_spaces"
  "list_all (\<lambda>p. p \<noteq> [] \<and> \<not> graphic (hd p)) (map rev white_spaces)"
  by (simp_all add: white_spaces_def graphic_def upt_rec)

lemma trim_graphic:
  assumes "list_all graphic s"
  shows "trim s = s"
proof -
  have id: "trim_start_of ws s = s" if "list_all (\<lambda>p. p \<noteq> [] \<and> \<not> graphic (hd p)) ws" "list_all graphic s" for ws s
  proof -
    have "strip_first ws s = None"
      using that by (intro strip_first_None) (cases s; auto simp: list_all_iff)
    then show ?thesis by (simp add: trim_start_of.simps)
  qed
  show ?thesis
    using assms id [OF white_spaces_ends(1), of s] id [OF white_spaces_ends(2), of "rev s"]
    by (simp add: trim_def list_all_iff)
qed

end
