(* ===== verification/Serde.thy ===== *)
theory Serde
  imports Prelude
begin

text \<open>
  The wire types of \<open>src/protocol.rs\<close>, \<open>src/discovery.rs\<close> and \<open>src/payment.rs\<close> are Rust types with
  \<open>#[derive(Serialize, Deserialize)]\<close>. The derived code walks a value in declaration order and
  reports it to the format crate (\<open>postcard\<close>, \<open>rmp_serde\<close>) through the serde data model: enum
  variants by their index, struct fields by their position. \<open>sval\<close> is that data model, \<open>sty\<close> the
  shape a derived \<open>Deserialize\<close> asks the format for; both come from the declarations in the source.

  The format crates are not part of the repository. They are the parameters \<open>to_bytes\<close> and
  \<open>from_bytes\<close>, and what the client relies on is the locale \<open>serde_codec\<close>: encoding a value and
  decoding it at its type gives it back, and decoding gives values of the type asked for only.
\<close>

section \<open>The serde data model\<close>

datatype sval =
    SBool bool
  | SU8 byte
  | SU16 u16
  | SU32 u32
  | SU64 u64
  | SStr string
  | SBytes "byte list"
  | SNone
  | SSome sval
  | SSeq "sval list"
  | STuple "sval list"
  | SStruct "sval list"
  | SNewtype sval
  | SVariant nat sval

text \<open>
  The shapes. \<open>TUsize\<close> is serde's \<open>usize\<close>: a \<open>u64\<close> on the wire, in the range of the 32-bit \<open>usize\<close> of
  wasm32 once decoded. \<open>TDefault d t\<close> is a struct field of shape \<open>t\<close> under \<open>#[serde(default)]\<close>, with
  the value \<open>d\<close> that \<open>Default::default()\<close> supplies. \<open>TBytes n\<close> and \<open>TSeqN n\<close> are a byte buffer and a
  sequence whose \<open>deserialize_with\<close> function insists on \<open>n\<close> elements. A \<open>[u8; N]\<close> is a tuple of \<open>N\<close> bytes; an enum lists
  its variants in declaration order, a newtype variant as \<open>TNewtype\<close> and a struct variant as \<open>TStruct\<close>.
\<close>

datatype sty =
    TBool
  | TU8
  | TU16
  | TU32
  | TU64
  | TUsize
  | TStr
  | TBytes nat
  | TOption sty
  | TSeq sty
  | TSeqN nat sty
  | TTuple "sty list"
  | TStruct "sty list"
  | TDefault sval sty
  | TNewtype sty
  | TEnum "sty list"

lemma size_nth_le: "i < length ts \<Longrightarrow> size (ts ! i) \<le> size_list size ts"
  by (metis nth_mem order.refl size_list_estimation')

text \<open>When a value has a shape.\<close>

function conforms :: "sty \<Rightarrow> sval \<Rightarrow> bool"
  and conforms_all :: "sty list \<Rightarrow> sval list \<Rightarrow> bool" where
  "conforms TBool v = (case v of SBool b \<Rightarrow> True | _ \<Rightarrow> False)"
| "conforms TU8 v = (case v of SU8 w \<Rightarrow> True | _ \<Rightarrow> False)"
| "conforms TU16 v = (case v of SU16 w \<Rightarrow> True | _ \<Rightarrow> False)"
| "conforms TU32 v = (case v of SU32 w \<Rightarrow> True | _ \<Rightarrow> False)"
| "conforms TU64 v = (case v of SU64 w \<Rightarrow> True | _ \<Rightarrow> False)"
| "conforms TUsize v = (case v of SU64 w \<Rightarrow> unat w < 2 ^ 32 | _ \<Rightarrow> False)"
| "conforms TStr v = (case v of SStr s \<Rightarrow> is_utf8 s | _ \<Rightarrow> False)"
| "conforms (TBytes n) v = (case v of SBytes bs \<Rightarrow> length bs = n | _ \<Rightarrow> False)"
| "conforms (TOption t) v = (case v of SNone \<Rightarrow> True | SSome x \<Rightarrow> conforms t x | _ \<Rightarrow> False)"
| "conforms (TSeq t) v = (case v of SSeq vs \<Rightarrow> (\<forall>x \<in> set vs. conforms t x) | _ \<Rightarrow> False)"
| "conforms (TSeqN n t) v =
     (case v of SSeq vs \<Rightarrow> length vs = n \<and> (\<forall>x \<in> set vs. conforms t x) | _ \<Rightarrow> False)"
| "conforms (TTuple ts) v = (case v of STuple vs \<Rightarrow> conforms_all ts vs | _ \<Rightarrow> False)"
| "conforms (TStruct ts) v = (case v of SStruct vs \<Rightarrow> conforms_all ts vs | _ \<Rightarrow> False)"
| "conforms (TDefault d t) v = conforms t v"
| "conforms (TNewtype t) v = (case v of SNewtype x \<Rightarrow> conforms t x | _ \<Rightarrow> False)"
| "conforms (TEnum ts) v =
     (case v of SVariant i x \<Rightarrow> (if i < length ts then conforms (ts ! i) x else False) | _ \<Rightarrow> False)"
| "conforms_all [] vs = (vs = [])"
| "conforms_all (t # ts) vs = (case vs of v # vs' \<Rightarrow> conforms t v \<and> conforms_all ts vs' | [] \<Rightarrow> False)"
  by pat_completeness auto

termination
  by (relation "measure (\<lambda>p. case p of Inl (t, _) \<Rightarrow> 2 * size t | Inr (ts, _) \<Rightarrow> Suc (2 * size_list size ts))")
    (auto dest: size_nth_le)

text \<open>\<open>[u8; N]\<close> and \<open>Vec<u8>\<close> as serde sees them: one \<open>u8\<close> at a time.\<close>

definition array_ty :: "nat \<Rightarrow> sty" where
  "array_ty n = TTuple (replicate n TU8)"

definition sv_array :: "byte list \<Rightarrow> sval" where
  "sv_array bs = STuple (map SU8 bs)"

definition sv_list :: "('a \<Rightarrow> sval) \<Rightarrow> 'a list \<Rightarrow> sval" where
  "sv_list f xs = SSeq (map f xs)"

definition sv_usize :: "u32 \<Rightarrow> sval" where
  "sv_usize n = SU64 (ucast n)"

definition sv_opt :: "('a \<Rightarrow> sval) \<Rightarrow> 'a option \<Rightarrow> sval" where
  "sv_opt f m = (case m of None \<Rightarrow> SNone | Some x \<Rightarrow> SSome (f x))"

text \<open>Reading values back.\<close>

fun un_u8 :: "sval \<Rightarrow> byte option" where
  "un_u8 (SU8 b) = Some b" | "un_u8 _ = None"

fun un_u16 :: "sval \<Rightarrow> u16 option" where
  "un_u16 (SU16 w) = Some w" | "un_u16 _ = None"

fun un_u32 :: "sval \<Rightarrow> u32 option" where
  "un_u32 (SU32 w) = Some w" | "un_u32 _ = None"

fun un_u64 :: "sval \<Rightarrow> u64 option" where
  "un_u64 (SU64 w) = Some w" | "un_u64 _ = None"

fun un_usize :: "sval \<Rightarrow> u32 option" where
  "un_usize (SU64 w) = Some (ucast w)" | "un_usize _ = None"

fun un_bool :: "sval \<Rightarrow> bool option" where
  "un_bool (SBool b) = Some b" | "un_bool _ = None"

fun un_str :: "sval \<Rightarrow> string option" where
  "un_str (SStr s) = Some s" | "un_str _ = None"

fun un_bin :: "sval \<Rightarrow> byte list option" where
  "un_bin (SBytes bs) = Some bs" | "un_bin _ = None"

fun un_array :: "sval \<Rightarrow> byte list option" where
  "un_array (STuple vs) = those (map un_u8 vs)" | "un_array _ = None"

fun un_list :: "(sval \<Rightarrow> 'a option) \<Rightarrow> sval \<Rightarrow> 'a list option" where
  "un_list f (SSeq vs) = those (map f vs)" | "un_list f _ = None"

fun un_opt :: "(sval \<Rightarrow> 'a option) \<Rightarrow> sval \<Rightarrow> 'a option option" where
  "un_opt f SNone = Some None"
| "un_opt f (SSome v) = map_option Some (f v)"
| "un_opt f _ = None"

text \<open>Applying a constructor to fields that may have failed to read.\<close>

fun ap :: "('a \<Rightarrow> 'b) option \<Rightarrow> 'a option \<Rightarrow> 'b option" where
  "ap (Some f) (Some x) = Some (f x)"
| "ap _ _ = None"

fun un_newtype :: "(sval \<Rightarrow> 'a option) \<Rightarrow> sval \<Rightarrow> 'a option" where
  "un_newtype f (SNewtype v) = f v" | "un_newtype f _ = None"

fun un_pair :: "(sval \<Rightarrow> 'a option) \<Rightarrow> (sval \<Rightarrow> 'b option) \<Rightarrow> sval \<Rightarrow> ('a \<times> 'b) option" where
  "un_pair f g (STuple [x, y]) = ap (map_option Pair (f x)) (g y)" | "un_pair f g _ = None"

named_theorems serde_simps \<open>derived serialization: shapes of structs and enums\<close>

lemma those_map_SU8 [simp]: "those (map un_u8 (map SU8 bs)) = Some bs"
  by (induction bs) auto

lemma un_array_sv [simp]: "un_array (sv_array bs) = Some bs"
  by (simp add: sv_array_def del: map_map)

lemma conforms_all_u8: "conforms_all (replicate n TU8) (map SU8 bs) \<longleftrightarrow> length bs = n"
proof (induction n arbitrary: bs)
  case 0 then show ?case by (cases bs) auto
next
  case (Suc n) then show ?case by (cases bs) auto
qed

lemma conforms_array [simp]: "conforms (array_ty n) (sv_array bs) \<longleftrightarrow> length bs = n"
  by (simp add: array_ty_def sv_array_def conforms_all_u8)

lemma conforms_all_u8_ex: "conforms_all (replicate n TU8) vs \<Longrightarrow> \<exists>bs. vs = map SU8 bs \<and> length bs = n"
proof (induction n arbitrary: vs)
  case 0 then show ?case by (cases vs) auto
next
  case (Suc n)
  then obtain v vs' where vs: "vs = v # vs'" "conforms TU8 v" "conforms_all (replicate n TU8) vs'"
    by (cases vs) auto
  with Suc.IH obtain bs where "vs' = map SU8 bs" "length bs = n" by blast
  moreover from vs obtain b where "v = SU8 b" by (cases v) auto
  ultimately show ?case using vs by (intro exI [of _ "b # bs"]) simp
qed

lemma conforms_array_ex: "conforms (array_ty n) v \<Longrightarrow> \<exists>bs. v = sv_array bs \<and> length bs = n"
  by (cases v) (auto simp: array_ty_def sv_array_def dest: conforms_all_u8_ex)

lemma conforms_basic:
  "conforms TBool v \<longleftrightarrow> (\<exists>b. v = SBool b)"
  "conforms TU8 v \<longleftrightarrow> (\<exists>b. v = SU8 b)"
  "conforms TU16 v \<longleftrightarrow> (\<exists>w. v = SU16 w)"
  "conforms TU32 v \<longleftrightarrow> (\<exists>w. v = SU32 w)"
  "conforms TU64 v \<longleftrightarrow> (\<exists>w. v = SU64 w)"
  "conforms TUsize v \<longleftrightarrow> (\<exists>w. v = SU64 w \<and> unat w < 2 ^ 32)"
  "conforms TStr v \<longleftrightarrow> (\<exists>s. v = SStr s \<and> is_utf8 s)"
  "conforms (TBytes n) v \<longleftrightarrow> (\<exists>bs. v = SBytes bs \<and> length bs = n)"
  by (cases v; simp)+

lemma conforms_seq: "conforms (TSeq t) v \<longleftrightarrow> (\<exists>vs. v = SSeq vs \<and> (\<forall>x \<in> set vs. conforms t x))"
  by (cases v) auto

lemma conforms_seqn:
  "conforms (TSeqN n t) v \<longleftrightarrow> (\<exists>vs. v = SSeq vs \<and> length vs = n \<and> (\<forall>x \<in> set vs. conforms t x))"
  by (cases v) auto

lemma conforms_option:
  "conforms (TOption t) v \<longleftrightarrow> v = SNone \<or> (\<exists>x. v = SSome x \<and> conforms t x)"
  by (cases v) auto

lemma conforms_all_Nil [serde_simps]: "conforms_all [] vs \<longleftrightarrow> vs = []"
  by (cases vs) auto

lemma conforms_all_Cons [serde_simps]:
  "conforms_all (t # ts) vs \<longleftrightarrow> (\<exists>v vs'. vs = v # vs' \<and> conforms t v \<and> conforms_all ts vs')"
  by (cases vs) auto

lemma conforms_struct [serde_simps]:
  "conforms (TStruct ts) v \<longleftrightarrow> (\<exists>vs. v = SStruct vs \<and> conforms_all ts vs)"
  by (cases v) auto

lemma conforms_tuple [serde_simps]:
  "conforms (TTuple ts) v \<longleftrightarrow> (\<exists>vs. v = STuple vs \<and> conforms_all ts vs)"
  by (cases v) auto

lemma conforms_newtype [serde_simps]:
  "conforms (TNewtype t) v \<longleftrightarrow> (\<exists>x. v = SNewtype x \<and> conforms t x)"
  by (cases v) auto

definition conforms_variant :: "sty list \<Rightarrow> nat \<Rightarrow> sval \<Rightarrow> bool" where
  "conforms_variant ts i x \<longleftrightarrow> i < length ts \<and> conforms (ts ! i) x"

lemma conforms_enum [serde_simps]:
  "conforms (TEnum ts) v \<longleftrightarrow> (\<exists>i x. v = SVariant i x \<and> conforms_variant ts i x)"
  by (cases v) (auto simp: conforms_variant_def)

lemma conforms_variant_Nil [serde_simps]: "conforms_variant [] i x \<longleftrightarrow> False"
  by (simp add: conforms_variant_def)

lemma conforms_variant_Cons [serde_simps]:
  "conforms_variant (t # ts) i x \<longleftrightarrow>
     (i = 0 \<and> conforms t x) \<or> (\<exists>j. i = Suc j \<and> conforms_variant ts j x)"
  by (cases i) (auto simp: conforms_variant_def)

declare conforms.simps(14) [serde_simps]
declare conforms.simps [simp del] conforms_all.simps [simp del]

section \<open>The format crates\<close>

text \<open>
  The shapes the formats are used at: an option is never directly inside another one (MessagePack
  would not tell \<open>None\<close> from \<open>Some(None)\<close>), and a default has the shape of its field.
\<close>

fun option_like :: "sty \<Rightarrow> bool" where
  "option_like (TOption t) = True"
| "option_like (TDefault d t) = option_like t"
| "option_like (TNewtype t) = option_like t"
| "option_like _ = False"

fun codec_ty :: "sty \<Rightarrow> bool" where
  "codec_ty (TOption t) = (\<not> option_like t \<and> codec_ty t)"
| "codec_ty (TSeq t) = codec_ty t"
| "codec_ty (TSeqN n t) = codec_ty t"
| "codec_ty (TTuple ts) = list_all codec_ty ts"
| "codec_ty (TStruct ts) = list_all codec_ty ts"
| "codec_ty (TDefault d t) = (conforms t d \<and> codec_ty t)"
| "codec_ty (TNewtype t) = codec_ty t"
| "codec_ty (TEnum ts) = list_all codec_ty ts"
| "codec_ty _ = True"

lemma codec_array [simp]: "codec_ty (array_ty n)"
  by (simp add: array_ty_def list_all_iff)

lemma array_not_option [simp]: "\<not> option_like (array_ty n)"
  by (simp add: array_ty_def)

text \<open>
  What the client relies on in \<open>postcard::to_stdvec\<close> / \<open>from_bytes\<close> and \<open>rmp_serde::to_vec\<close> /
  \<open>from_slice\<close>.
\<close>

locale serde_codec =
  fixes to_bytes :: "sval \<Rightarrow> byte list result"
    and from_bytes :: "sty \<Rightarrow> byte list \<Rightarrow> sval result"
  assumes decode_encode:
      "codec_ty t \<Longrightarrow> conforms t v \<Longrightarrow> to_bytes v = Inr bs \<Longrightarrow> from_bytes t bs = Inr v"
    and decode_typed: "codec_ty t \<Longrightarrow> from_bytes t bs = Inr v \<Longrightarrow> conforms t v"

text \<open>
  A Rust type with the two derives: its shape, its walk and the value a walk rebuilds. \<open>good\<close> is
  what the Rust type itself guarantees (array lengths, UTF-8).
\<close>

locale wire_type =
  fixes ty :: sty
    and sv :: "'a \<Rightarrow> sval"
    and un :: "sval \<Rightarrow> 'a option"
    and good :: "'a \<Rightarrow> bool"
  assumes sv_conforms: "good x \<Longrightarrow> conforms ty (sv x)"
    and un_sv: "good x \<Longrightarrow> un (sv x) = Some x"
    and conforms_image: "conforms ty v \<Longrightarrow> \<exists>x. v = sv x \<and> good x"
begin

lemma un_total: "conforms ty v \<Longrightarrow> \<exists>x. un v = Some x \<and> good x \<and> sv x = v"
  using conforms_image un_sv by blast

lemma sv_inj: "good x \<Longrightarrow> good y \<Longrightarrow> sv x = sv y \<Longrightarrow> x = y"
  by (metis un_sv option.inject)

end

text \<open>The building blocks: integers, byte arrays and vectors, strings, options and sequences.\<close>

interpretation wu8: wire_type TU8 SU8 un_u8 "\<lambda>_. True"
  by unfold_locales (auto simp: conforms_basic)

interpretation wu16: wire_type TU16 SU16 un_u16 "\<lambda>_. True"
  by unfold_locales (auto simp: conforms_basic)

interpretation wu32: wire_type TU32 SU32 un_u32 "\<lambda>_. True"
  by unfold_locales (auto simp: conforms_basic)

interpretation wu64: wire_type TU64 SU64 un_u64 "\<lambda>_. True"
  by unfold_locales (auto simp: conforms_basic)

interpretation wbool: wire_type TBool SBool un_bool "\<lambda>_. True"
  by unfold_locales (auto simp: conforms_basic)

interpretation wstr: wire_type TStr SStr un_str is_utf8
  by unfold_locales (auto simp: conforms_basic)

lemma wire_usize: "wire_type TUsize sv_usize un_usize (\<lambda>_. True)"
proof
  fix x :: u32 and v
  show "conforms TUsize (sv_usize x)"
    using unsigned_less [of x, where ?'a = nat] by (simp add: sv_usize_def conforms_basic unsigned_ucast_eq take_bit_nat_eq_self)
  show "un_usize (sv_usize x) = Some x"
    using unsigned_less [of x, where ?'a = nat]
    by (simp add: sv_usize_def word_unat_eq_iff unsigned_ucast_eq take_bit_nat_eq_self take_bit_word_eq_self)
  assume "conforms TUsize v"
  then obtain w :: u64 where w: "v = SU64 w" "unat w < 2 ^ 32" by (auto simp: conforms_basic)
  then have "ucast (ucast w :: u32) = w"
    by (simp add: word_unat_eq_iff unsigned_ucast_eq unsigned_take_bit_eq take_bit_nat_eq_self)
  with w show "\<exists>x. v = sv_usize x \<and> True" by (metis sv_usize_def)
qed

interpretation wusize: wire_type TUsize sv_usize un_usize "\<lambda>_. True"
  by (rule wire_usize)

lemma wire_bytes: "wire_type (TBytes n) SBytes un_bin (\<lambda>bs. length bs = n)"
  by unfold_locales (auto simp: conforms_basic)

lemma wire_array: "wire_type (array_ty n) sv_array un_array (\<lambda>bs. length bs = n)"
  by unfold_locales (auto dest: conforms_array_ex)

lemma wire_option:
  assumes "wire_type t sv un good"
  shows "wire_type (TOption t) (sv_opt sv) (un_opt un) (pred_option good)"
proof -
  note w = wire_type.sv_conforms [OF assms] wire_type.un_sv [OF assms] wire_type.conforms_image [OF assms]
  show ?thesis
  proof
    fix m :: "'a option" and v
    assume m: "pred_option good m"
    then show "conforms (TOption t) (sv_opt sv m)" by (cases m) (auto simp: sv_opt_def conforms_option w)
    show "un_opt un (sv_opt sv m) = Some m" using m by (cases m) (auto simp: sv_opt_def w)
  next
    fix v assume "conforms (TOption t) v"
    then consider "v = SNone" | x where "v = SSome x" "conforms t x" by (auto simp: conforms_option)
    then show "\<exists>m. v = sv_opt sv m \<and> pred_option good m"
    proof cases
      case 1
      then have "v = sv_opt sv None \<and> pred_option good None" by (simp add: sv_opt_def)
      then show ?thesis by blast
    next
      case 2
      with w(3) obtain y where "v = sv_opt sv (Some y) \<and> pred_option good (Some y)"
        by (auto simp: sv_opt_def)
      then show ?thesis by blast
    qed
  qed
qed

lemma wire_list:
  assumes "wire_type t sv un good"
  shows "wire_type (TSeq t) (sv_list sv) (un_list un) (list_all good)"
proof -
  note w = wire_type.sv_conforms [OF assms] wire_type.un_sv [OF assms] wire_type.conforms_image [OF assms]
  have ex: "\<exists>xs. vs = map sv xs \<and> list_all good xs" if "\<forall>v \<in> set vs. conforms t v" for vs
    using that
  proof (induction vs)
    case (Cons v vs)
    then obtain xs y where "vs = map sv xs" "list_all good xs" "v = sv y" "good y" using w(3) by force
    then show ?case by (intro exI [of _ "y # xs"]) simp
  qed simp
  show ?thesis
  proof
    fix xs assume xs: "list_all good xs"
    then show "conforms (TSeq t) (sv_list sv xs)" by (auto simp: sv_list_def list_all_iff conforms_seq w)
    from xs show "un_list un (sv_list sv xs) = Some xs"
      by (induction xs) (auto simp: sv_list_def w)
  next
    fix v assume "conforms (TSeq t) v"
    with ex show "\<exists>xs. v = sv_list sv xs \<and> list_all good xs"
      by (force simp: sv_list_def conforms_seq)
  qed
qed

lemma wire_listn:
  assumes "wire_type t sv un good"
  shows "wire_type (TSeqN n t) (sv_list sv) (un_list un) (\<lambda>xs. length xs = n \<and> list_all good xs)"
proof -
  note w = wire_list [OF assms]
  show ?thesis
  proof
    fix xs assume xs: "length xs = n \<and> list_all good xs"
    then have "conforms (TSeq t) (sv_list sv xs)" using wire_type.sv_conforms [OF w] by blast
    with xs show "conforms (TSeqN n t) (sv_list sv xs)"
      by (simp add: conforms_seq conforms_seqn sv_list_def)
    show "un_list un (sv_list sv xs) = Some xs" using xs wire_type.un_sv [OF w] by blast
  next
    fix v assume "conforms (TSeqN n t) v"
    then obtain vs where v: "v = SSeq vs" "length vs = n" and "conforms (TSeq t) v"
      by (auto simp: conforms_seqn conforms_seq)
    with wire_type.conforms_image [OF w] obtain xs where "v = sv_list sv xs" "list_all good xs" by blast
    with v show "\<exists>xs. v = sv_list sv xs \<and> length xs = n \<and> list_all good xs"
      by (auto simp: sv_list_def)
  qed
qed

lemma wire_newtype:
  assumes "wire_type t sv un good"
  shows "wire_type (TNewtype t) (\<lambda>x. SNewtype (sv x)) (un_newtype un) good"
  using wire_type.sv_conforms [OF assms] wire_type.un_sv [OF assms] wire_type.conforms_image [OF assms]
  by unfold_locales (auto simp: conforms_newtype)

lemma wire_pair:
  assumes "wire_type t sv un good" and "wire_type t' sv' un' good'"
  shows "wire_type (TTuple [t, t']) (\<lambda>(x, y). STuple [sv x, sv' y]) (un_pair un un')
     (\<lambda>(x, y). good x \<and> good' y)"
  using wire_type.sv_conforms [OF assms(1)] wire_type.un_sv [OF assms(1)] wire_type.conforms_image [OF assms(1)]
    wire_type.sv_conforms [OF assms(2)] wire_type.un_sv [OF assms(2)] wire_type.conforms_image [OF assms(2)]
  by unfold_locales (fastforce simp: serde_simps)+

interpretation wvec32: wire_type "TSeqN 32 TU8" "sv_list SU8" "un_list un_u8"
    "\<lambda>xs. length xs = 32 \<and> list_all (\<lambda>_. True) xs"
  by (rule wire_listn) unfold_locales

interpretation warr20: wire_type "array_ty 20" sv_array un_array "\<lambda>bs. length bs = 20"
  by (rule wire_array)

interpretation warr32: wire_type "array_ty 32" sv_array un_array "\<lambda>bs. length bs = 32"
  by (rule wire_array)

interpretation wbin20: wire_type "TBytes 20" SBytes un_bin "\<lambda>bs. length bs = 20"
  by (rule wire_bytes)

interpretation wbin32: wire_type "TBytes 32" SBytes un_bin "\<lambda>bs. length bs = 32"
  by (rule wire_bytes)

interpretation wvec: wire_type "TSeq TU8" "sv_list SU8" "un_list un_u8" "list_all (\<lambda>_. True)"
  by (rule wire_list) unfold_locales

interpretation wvecs: wire_type "TSeq (TSeq TU8)" "sv_list (sv_list SU8)" "un_list (un_list un_u8)"
    "list_all (list_all (\<lambda>_. True))"
  by (rule wire_list) unfold_locales

interpretation woptvec: wire_type "TOption (TSeq TU8)" "sv_opt (sv_list SU8)" "un_opt (un_list un_u8)"
    "pred_option (list_all (\<lambda>_. True))"
  by (rule wire_option) unfold_locales

interpretation woptarr32: wire_type "TOption (array_ty 32)" "sv_opt sv_array" "un_opt un_array"
    "pred_option (\<lambda>bs. length bs = 32)"
  by (rule wire_option) unfold_locales

lemmas wire_images =
  wu8.conforms_image wu16.conforms_image wu32.conforms_image wu64.conforms_image
  wbool.conforms_image wstr.conforms_image wusize.conforms_image warr20.conforms_image
  warr32.conforms_image wbin20.conforms_image wbin32.conforms_image wvec.conforms_image
  wvecs.conforms_image woptvec.conforms_image woptarr32.conforms_image
  wvec32.conforms_image

lemmas wire_reads =
  wu8.un_sv wu16.un_sv wu32.un_sv wu64.un_sv wbool.un_sv wstr.un_sv wusize.un_sv warr20.un_sv
  warr32.un_sv wbin20.un_sv wbin32.un_sv wvec.un_sv wvecs.un_sv woptvec.un_sv woptarr32.un_sv
  wvec32.un_sv

lemmas wire_writes =
  wu8.sv_conforms wu16.sv_conforms wu32.sv_conforms wu64.sv_conforms wbool.sv_conforms
  wstr.sv_conforms wusize.sv_conforms warr20.sv_conforms warr32.sv_conforms wbin20.sv_conforms
  wbin32.sv_conforms wvec.sv_conforms wvecs.sv_conforms woptvec.sv_conforms woptarr32.sv_conforms
  wvec32.sv_conforms

text \<open>\<open>postcard::from_bytes::<T>\<close> and \<open>rmp_serde::from_slice::<T>\<close>: decode at the shape, then rebuild.\<close>

definition read_value :: "(sty \<Rightarrow> byte list \<Rightarrow> sval result) \<Rightarrow> sty \<Rightarrow> (sval \<Rightarrow> 'a option) \<Rightarrow> byte list \<Rightarrow> 'a result" where
  "read_value from_bytes ty un bs =
     res_bind (from_bytes ty bs)
       (\<lambda>v. case un v of Some x \<Rightarrow> Inr x | None \<Rightarrow> Inl ''invalid type'')"

locale wire_codec = serde_codec to_bytes from_bytes + wire_type ty sv un good
  for to_bytes from_bytes ty and sv :: "'a \<Rightarrow> sval" and un good +
  assumes shape: "codec_ty ty"
begin

lemma read_written: "good x \<Longrightarrow> to_bytes (sv x) = Inr bs \<Longrightarrow> read_value from_bytes ty un bs = Inr x"
  using decode_encode [OF shape sv_conforms] by (simp add: read_value_def un_sv)

lemma read_cases:
  assumes "from_bytes ty bs = Inr v"
  obtains x where "un v = Some x" "good x" "sv x = v"
  using un_total [OF decode_typed [OF shape assms]] by blast

lemma read_wf:
  assumes "read_value from_bytes ty un bs = Inr x"
  shows "good x"
proof (cases "from_bytes ty bs")
  case (Inr v)
  with read_cases obtain y where "un v = Some y" "good y" by metis
  with assms Inr show ?thesis by (simp add: read_value_def)
qed (use assms in \<open>simp add: read_value_def\<close>)

lemma read_error:
  assumes "read_value from_bytes ty un bs = Inl e"
  shows "from_bytes ty bs = Inl e"
proof (cases "from_bytes ty bs")
  case (Inr v)
  with read_cases obtain y where "un v = Some y" by metis
  with assms Inr show ?thesis by (simp add: read_value_def)
qed (use assms in \<open>simp add: read_value_def\<close>)

lemma written_inj:
  "good x \<Longrightarrow> good y \<Longrightarrow> to_bytes (sv x) = Inr bs \<Longrightarrow> to_bytes (sv y) = Inr bs \<Longrightarrow> x = y"
  using read_written [of x bs] read_written [of y bs] by simp

end

end
