(* ===== verification/Formats.thy ===== *)
theory Formats
  imports Serde
begin

text \<open>
  Instances of the \<open>serde_codec\<close> interface. A serde format is, beneath the walk it shares with every
  other, a choice of how integers, lengths, options and variant tags are written. The locale
  \<open>wire_format\<close> states what that choice must satisfy and proves, once, that the format decodes what
  it encodes; it is interpreted on the published layouts of Postcard and MessagePack, which are the
  two formats the client uses. The crates themselves remain parameters of the model: these instances
  show that what is assumed of them can hold, and evaluate the witnesses.
\<close>

section \<open>A format\<close>

datatype header = HStr | HBytes | HSeq | HTuple | HStruct | HVariant

record wire_fmt =
  put_uint :: "nat \<Rightarrow> nat \<Rightarrow> byte list"
  get_uint :: "nat \<Rightarrow> byte list \<Rightarrow> (nat \<times> byte list) option"
  put_bool :: "bool \<Rightarrow> byte list"
  get_bool :: "byte list \<Rightarrow> (bool \<times> byte list) option"
  put_hdr :: "header \<Rightarrow> nat \<Rightarrow> byte list option"
  get_hdr :: "header \<Rightarrow> nat \<Rightarrow> byte list \<Rightarrow> (nat \<times> byte list) option"
  put_none :: "byte list"
  put_some :: "byte list"
  get_opt :: "byte list \<Rightarrow> (bool \<times> byte list) option"

text \<open>Reading \<open>n\<close> raw bytes.\<close>

definition get_raw :: "nat \<Rightarrow> byte list \<Rightarrow> (byte list \<times> byte list) option" where
  "get_raw n bs = (if length bs < n then None else Some (take n bs, drop n bs))"

lemma get_raw_append [simp]: "length xs = n \<Longrightarrow> get_raw n (xs @ bs) = Some (xs, bs)"
  by (auto simp: get_raw_def)

lemma get_raw_length: "get_raw n bs = Some (xs, r) \<Longrightarrow> length xs = n"
  by (auto simp: get_raw_def split: if_splits)

definition put_with_hdr :: "wire_fmt \<Rightarrow> header \<Rightarrow> nat \<Rightarrow> byte list option \<Rightarrow> byte list option" where
  "put_with_hdr f h n body =
     (case (put_hdr f h n, body) of (Some p, Some b) \<Rightarrow> Some (p @ b) | _ \<Rightarrow> None)"

fun enc :: "wire_fmt \<Rightarrow> sval \<Rightarrow> byte list option" and enc_all :: "wire_fmt \<Rightarrow> sval list \<Rightarrow> byte list option" where
  "enc f (SBool b) = Some (put_bool f b)"
| "enc f (SU8 w) = Some (put_uint f 1 (unat w))"
| "enc f (SU16 w) = Some (put_uint f 2 (unat w))"
| "enc f (SU32 w) = Some (put_uint f 4 (unat w))"
| "enc f (SU64 w) = Some (put_uint f 8 (unat w))"
| "enc f (SStr s) = put_with_hdr f HStr (length s) (Some (str_bytes s))"
| "enc f (SBytes bs) = put_with_hdr f HBytes (length bs) (Some bs)"
| "enc f SNone = Some (put_none f)"
| "enc f (SSome v) = map_option (\<lambda>b. put_some f @ b) (enc f v)"
| "enc f (SSeq vs) = put_with_hdr f HSeq (length vs) (enc_all f vs)"
| "enc f (STuple vs) = put_with_hdr f HTuple (length vs) (enc_all f vs)"
| "enc f (SStruct vs) = put_with_hdr f HStruct (length vs) (enc_all f vs)"
| "enc f (SNewtype v) = enc f v"
| "enc f (SVariant i v) = put_with_hdr f HVariant i (enc f v)"
| "enc_all f [] = Some []"
| "enc_all f (v # vs) =
     (case (enc f v, enc_all f vs) of (Some a, Some b) \<Rightarrow> Some (a @ b) | _ \<Rightarrow> None)"

text \<open>The value of a field that is missing at the end of a struct.\<close>

fun field_default :: "sty \<Rightarrow> sval option" where
  "field_default (TDefault d t) = Some d"
| "field_default (TNewtype t) = None"
| "field_default _ = None"

text \<open>Decoding at a shape. A struct may be shorter than its type where the missing fields have defaults.\<close>

definition chain :: "('a \<times> byte list) option \<Rightarrow> ('a \<Rightarrow> byte list \<Rightarrow> ('b \<times> byte list) option) \<Rightarrow> ('b \<times> byte list) option" where
  "chain m k = (case m of None \<Rightarrow> None | Some (x, r) \<Rightarrow> k x r)"

lemma chain_simps [simp]: "chain None k = None" "chain (Some (x, r)) k = k x r"
  by (simp_all add: chain_def)

lemma chain_cong [fundef_cong]:
  "m = m' \<Longrightarrow> (\<And>x r. m' = Some (x, r) \<Longrightarrow> k x r = k' x r) \<Longrightarrow> chain m k = chain m' k'"
  by (auto simp: chain_def split: option.splits)

function dec :: "wire_fmt \<Rightarrow> sty \<Rightarrow> byte list \<Rightarrow> (sval \<times> byte list) option"
  and dec_n :: "wire_fmt \<Rightarrow> nat \<Rightarrow> sty \<Rightarrow> byte list \<Rightarrow> (sval list \<times> byte list) option"
  and dec_all :: "wire_fmt \<Rightarrow> sty list \<Rightarrow> byte list \<Rightarrow> (sval list \<times> byte list) option"
  and dec_fields :: "wire_fmt \<Rightarrow> nat \<Rightarrow> sty list \<Rightarrow> byte list \<Rightarrow> (sval list \<times> byte list) option" where
  "dec f TBool bs = chain (get_bool f bs) (\<lambda>b r. Some (SBool b, r))"
| "dec f TU8 bs = chain (get_uint f 1 bs) (\<lambda>n r. Some (SU8 (of_nat n), r))"
| "dec f TU16 bs = chain (get_uint f 2 bs) (\<lambda>n r. Some (SU16 (of_nat n), r))"
| "dec f TU32 bs = chain (get_uint f 4 bs) (\<lambda>n r. Some (SU32 (of_nat n), r))"
| "dec f TU64 bs = chain (get_uint f 8 bs) (\<lambda>n r. Some (SU64 (of_nat n), r))"
| "dec f TUsize bs = chain (get_uint f 8 bs) (\<lambda>n r. if n < 2 ^ 32 then Some (SU64 (of_nat n), r) else None)"
| "dec f TStr bs = chain (get_hdr f HStr 0 bs) (\<lambda>n r. chain (get_raw n r)
     (\<lambda>x r. if is_utf8 (bytes_str x) then Some (SStr (bytes_str x), r) else None))"
| "dec f (TBytes m) bs = chain (get_hdr f HBytes m bs)
     (\<lambda>n r. if n = m then chain (get_raw n r) (\<lambda>x r. Some (SBytes x, r)) else None)"
| "dec f (TOption t) bs = chain (get_opt f bs)
     (\<lambda>b r. if b then chain (dec f t r) (\<lambda>v r. Some (SSome v, r)) else Some (SNone, r))"
| "dec f (TSeq t) bs = chain (get_hdr f HSeq 0 bs)
     (\<lambda>n r. chain (dec_n f n t r) (\<lambda>vs r. Some (SSeq vs, r)))"
| "dec f (TSeqN m t) bs = chain (get_hdr f HSeq m bs)
     (\<lambda>n r. if n = m then chain (dec_n f n t r) (\<lambda>vs r. Some (SSeq vs, r)) else None)"
| "dec f (TTuple ts) bs = chain (get_hdr f HTuple (length ts) bs)
     (\<lambda>n r. if n = length ts then chain (dec_all f ts r) (\<lambda>vs r. Some (STuple vs, r)) else None)"
| "dec f (TStruct ts) bs = chain (get_hdr f HStruct (length ts) bs)
     (\<lambda>n r. if n \<le> length ts then chain (dec_fields f n ts r) (\<lambda>vs r. Some (SStruct vs, r)) else None)"
| "dec f (TDefault d t) bs = dec f t bs"
| "dec f (TNewtype t) bs = chain (dec f t bs) (\<lambda>v r. Some (SNewtype v, r))"
| "dec f (TEnum ts) bs = chain (get_hdr f HVariant (length ts) bs)
     (\<lambda>i r. if i < length ts then chain (dec f (ts ! i) r) (\<lambda>v r. Some (SVariant i v, r)) else None)"
| "dec_n f 0 t bs = Some ([], bs)"
| "dec_n f (Suc n) t bs = chain (dec f t bs) (\<lambda>v r. chain (dec_n f n t r) (\<lambda>vs r. Some (v # vs, r)))"
| "dec_all f [] bs = Some ([], bs)"
| "dec_all f (t # ts) bs = chain (dec f t bs) (\<lambda>v r. chain (dec_all f ts r) (\<lambda>vs r. Some (v # vs, r)))"
| "dec_fields f n [] bs = Some ([], bs)"
| "dec_fields f n (t # ts) bs =
     (if n = 0
      then (case field_default t of None \<Rightarrow> None
            | Some d \<Rightarrow> chain (dec_fields f 0 ts bs) (\<lambda>vs r. Some (d # vs, r)))
      else chain (dec f t bs) (\<lambda>v r. chain (dec_fields f (n - 1) ts r) (\<lambda>vs r. Some (v # vs, r))))"
  by pat_completeness auto

termination
  by (relation "measures [\<lambda>p. case p of
        Inl (Inl (_, t, _)) \<Rightarrow> 2 * size t
      | Inl (Inr (_, _, t, _)) \<Rightarrow> Suc (2 * size t)
      | Inr (Inl (_, ts, _)) \<Rightarrow> Suc (2 * size_list size ts)
      | Inr (Inr (_, _, ts, _)) \<Rightarrow> Suc (2 * size_list size ts),
     \<lambda>p. case p of Inl (Inr (_, n, _, _)) \<Rightarrow> n | _ \<Rightarrow> 0]")
    (auto dest: size_nth_le)

section \<open>Formats that decode what they encode\<close>

lemma chain_Some [res_iff]:
  "chain m k = Some y \<longleftrightarrow> (\<exists>x r. m = Some (x, r) \<and> k x r = Some y)"
  by (auto simp: chain_def split: option.splits)

lemma put_with_hdr_Some [res_iff]:
  "put_with_hdr f h n body = Some b \<longleftrightarrow>
     (\<exists>p q. put_hdr f h n = Some p \<and> body = Some q \<and> b = p @ q)"
  by (auto simp: put_with_hdr_def split: option.splits)

lemma enc_all_Cons_Some [res_iff]:
  "enc_all f (v # vs) = Some b \<longleftrightarrow>
     (\<exists>p q. enc f v = Some p \<and> enc_all f vs = Some q \<and> b = p @ q)"
  by (auto split: option.splits)

lemma enc_all_replicate [simp]:
  "enc f v = Some b \<Longrightarrow> enc_all f (replicate n v) = Some (concat (replicate n b))"
  by (induction n) simp_all

declare enc_all.simps(2) [simp del]

locale wire_format =
  fixes f :: wire_fmt
    and solid :: "byte list \<Rightarrow> bool"
  assumes uint: "w \<in> {1, 2, 4, 8} \<Longrightarrow> n < 256 ^ w \<Longrightarrow> get_uint f w (put_uint f w n @ r) = Some (n, r)"
    and bool: "get_bool f (put_bool f x @ r) = Some (x, r)"
    and hdr: "put_hdr f h n = Some p \<Longrightarrow> h \<in> {HTuple, HStruct} \<Longrightarrow> get_hdr f h n (p @ r) = Some (n, r)"
    and hdr_any: "put_hdr f h n = Some p \<Longrightarrow> h \<notin> {HTuple, HStruct} \<Longrightarrow> get_hdr f h m (p @ r) = Some (n, r)"
    and none: "get_opt f (put_none f @ r) = Some (False, r)"
    and some: "solid b \<Longrightarrow> get_opt f (put_some f @ b @ r) = Some (True, b @ r)"
    and solid_uint: "w \<in> {1, 2, 4, 8} \<Longrightarrow> n < 256 ^ w \<Longrightarrow> solid (put_uint f w n)"
    and solid_bool: "solid (put_bool f x)"
    and solid_hdr: "put_hdr f h n = Some p \<Longrightarrow> solid (p @ q)"
begin

lemma enc_solid:
  "conforms t v \<Longrightarrow> \<not> option_like t \<Longrightarrow> enc f v = Some b \<Longrightarrow> solid b"
proof (induction t arbitrary: v b)
  case (TDefault d t)
  then show ?case by (simp add: serde_simps)
next
  case (TNewtype t)
  then show ?case by (auto simp: serde_simps)
qed (auto simp: conforms_basic serde_simps conforms_seq conforms_seqn res_iff solid_bool solid_hdr
    intro!: solid_uint unat_u16_lt [simplified] unat_u32_lt [simplified] unat_u64_lt [simplified])

definition rt :: "sty \<Rightarrow> bool" where
  "rt t \<longleftrightarrow> (\<forall>v b r. conforms t v \<longrightarrow> enc f v = Some b \<longrightarrow> dec f t (b @ r) = Some (v, r))"

lemma rt_n:
  "rt t \<Longrightarrow> \<forall>x \<in> set vs. conforms t x \<Longrightarrow> enc_all f vs = Some b \<Longrightarrow>
     dec_n f (length vs) t (b @ r) = Some (vs, r)"
  by (induction vs arbitrary: b) (auto simp: res_iff rt_def)

lemma rt_all:
  "\<forall>t \<in> set ts. rt t \<Longrightarrow> conforms_all ts vs \<Longrightarrow> enc_all f vs = Some b \<Longrightarrow>
     length vs = length ts \<and> dec_all f ts (b @ r) = Some (vs, r)
     \<and> dec_fields f (length ts) ts (b @ r) = Some (vs, r)"
proof (induction ts arbitrary: vs b)
  case Nil
  then show ?case by (auto simp: serde_simps)
next
  case (Cons t ts)
  from Cons.prems(2) obtain v vs' where vs: "vs = v # vs'" "conforms t v" "conforms_all ts vs'"
    by (auto simp: serde_simps)
  with Cons.prems(3) obtain p q where b: "enc f v = Some p" "enc_all f vs' = Some q" "b = p @ q"
    by (auto simp: res_iff)
  have "dec f t (p @ q @ r) = Some (v, q @ r)" using Cons.prems(1) vs(2) b(1) by (auto simp: rt_def)
  moreover have "length vs' = length ts \<and> dec_all f ts (q @ r) = Some (vs', r)
      \<and> dec_fields f (length ts) ts (q @ r) = Some (vs', r)"
    using Cons.IH [OF _ vs(3) b(2)] Cons.prems(1) by simp
  ultimately show ?case by (simp add: vs b)
qed

lemma rtI: "(\<And>v b r. conforms t v \<Longrightarrow> enc f v = Some b \<Longrightarrow> dec f t (b @ r) = Some (v, r)) \<Longrightarrow> rt t"
  by (simp add: rt_def)

lemma rt_option:
  assumes "rt t" and "\<not> option_like t"
  shows "rt (TOption t)"
proof (rule rtI)
  fix v b r assume v: "conforms (TOption t) v" and e: "enc f v = Some b"
  show "dec f (TOption t) (b @ r) = Some (v, r)"
  proof (cases "v = SNone")
    case True
    with e show ?thesis by (auto simp: none)
  next
    case False
    with v obtain x where x: "v = SSome x" "conforms t x" by (auto simp: conforms_option)
    with e obtain q where q: "enc f x = Some q" "b = put_some f @ q" by auto
    with assms x show ?thesis by (simp add: some [OF enc_solid] rt_def)
  qed
qed

lemma rt_fields:
  assumes "\<forall>t \<in> set ts. rt t"
  shows "rt (TTuple ts)" and "rt (TStruct ts)"
proof -
  show "rt (TTuple ts)"
  proof (rule rtI)
    fix v b r assume v: "conforms (TTuple ts) v" "enc f v = Some b"
    then obtain vs p q where x: "v = STuple vs" "conforms_all ts vs" "put_hdr f HTuple (length vs) = Some p"
      "enc_all f vs = Some q" "b = p @ q" by (auto simp: serde_simps res_iff)
    with rt_all [OF assms x(2,4)] show "dec f (TTuple ts) (b @ r) = Some (v, r)" by (simp add: hdr)
  qed
  show "rt (TStruct ts)"
  proof (rule rtI)
    fix v b r assume v: "conforms (TStruct ts) v" "enc f v = Some b"
    then obtain vs p q where x: "v = SStruct vs" "conforms_all ts vs" "put_hdr f HStruct (length vs) = Some p"
      "enc_all f vs = Some q" "b = p @ q" by (auto simp: serde_simps res_iff)
    with rt_all [OF assms x(2,4)] show "dec f (TStruct ts) (b @ r) = Some (v, r)" by (simp add: hdr)
  qed
qed

lemma rt_enum:
  assumes "\<forall>t \<in> set ts. rt t"
  shows "rt (TEnum ts)"
proof (rule rtI)
  fix v b r assume v: "conforms (TEnum ts) v" "enc f v = Some b"
  then obtain i x p q where x: "v = SVariant i x" "i < length ts" "conforms (ts ! i) x"
    "put_hdr f HVariant i = Some p" "enc f x = Some q" "b = p @ q"
    by (auto simp: conforms_enum conforms_variant_def res_iff)
  with assms show "dec f (TEnum ts) (b @ r) = Some (v, r)" by (simp add: hdr_any rt_def)
qed

lemma rt_str: "rt TStr"
proof (rule rtI)
  fix v b r assume "conforms TStr v" "enc f v = Some b"
  then obtain s p where s: "v = SStr s" "is_utf8 s" "put_hdr f HStr (length s) = Some p" "b = p @ str_bytes s"
    by (auto simp: conforms_basic res_iff)
  have "get_raw (length s) (str_bytes s @ r) = Some (str_bytes s, r)" by simp
  with s show "dec f TStr (b @ r) = Some (v, r)" by (simp add: hdr_any)
qed

lemma rt_words: "rt TU16" "rt TU32" "rt TU64" "rt TUsize"
  using unat_u16_lt unat_u32_lt unat_u64_lt by (auto simp: rt_def conforms_basic uint)

lemma decodes: "codec_ty t \<Longrightarrow> rt t"
proof (induction t)
  case (TSeq t)
  then show ?case by (auto simp: rt_def conforms_seq res_iff hdr_any rt_n)
next
  case (TSeqN n t)
  then show ?case by (auto simp: rt_def conforms_seqn res_iff hdr_any rt_n)
qed (auto simp: list_all_iff rt_str rt_words intro: rt_option rt_fields rt_enum,
    auto simp: rt_def conforms_basic serde_simps res_iff bool uint hdr_any)

text \<open>Whatever is decoded has the shape it was decoded at.\<close>

definition typed :: "sty \<Rightarrow> bool" where
  "typed t \<longleftrightarrow> (\<forall>v bs r. dec f t bs = Some (v, r) \<longrightarrow> conforms t v)"

lemma typed_n: "typed t \<Longrightarrow> dec_n f n t bs = Some (vs, r) \<Longrightarrow> length vs = n \<and> (\<forall>x \<in> set vs. conforms t x)"
  by (induction n arbitrary: bs vs) (fastforce simp: res_iff typed_def)+

lemma typed_all: "\<forall>t \<in> set ts. typed t \<Longrightarrow> dec_all f ts bs = Some (vs, r) \<Longrightarrow> conforms_all ts vs"
  by (induction ts arbitrary: bs vs) (fastforce simp: res_iff typed_def serde_simps)+

lemma typed_default: "field_default t = Some d \<Longrightarrow> codec_ty t \<Longrightarrow> conforms t d"
  by (cases t) (auto simp: serde_simps)

lemma typed_fields:
  "\<forall>t \<in> set ts. typed t \<and> codec_ty t \<Longrightarrow> dec_fields f n ts bs = Some (vs, r) \<Longrightarrow> conforms_all ts vs"
proof (induction ts arbitrary: n bs vs)
  case (Cons t ts)
  show ?case
  proof (cases "n = 0")
    case True
    with Cons.prems(2) obtain d vs' where d: "field_default t = Some d" "vs = d # vs'"
      "dec_fields f 0 ts bs = Some (vs', r)" by (auto simp: res_iff split: option.splits)
    with Cons.IH [OF _ d(3)] Cons.prems(1) show ?thesis by (auto simp: serde_simps intro: typed_default)
  next
    case False
    with Cons.prems(2) obtain v r1 vs' where d: "dec f t bs = Some (v, r1)" "vs = v # vs'"
      "dec_fields f (n - 1) ts r1 = Some (vs', r)" by (auto simp: res_iff)
    with Cons.IH [OF _ d(3)] Cons.prems(1) show ?thesis by (auto simp: serde_simps typed_def)
  qed
qed (simp add: serde_simps)

lemma decodes_typed: "codec_ty t \<Longrightarrow> typed t"
proof (induction t)
  case (TSeq t)
  then show ?case by (auto simp: typed_def [of "TSeq t"] conforms_seq res_iff dest: typed_n)
next
  case (TSeqN n t)
  then show ?case
    by (auto simp: typed_def [of "TSeqN n t"] conforms_seqn res_iff split: if_splits dest: typed_n)
next
  case (TTuple ts)
  then have ts: "\<forall>t \<in> set ts. typed t" by (simp add: list_all_iff)
  show ?case
    by (auto simp: typed_def [of "TTuple ts"] conforms_tuple res_iff split: if_splits dest: typed_all [OF ts])
next
  case (TStruct ts)
  then have ts: "\<forall>t \<in> set ts. typed t \<and> codec_ty t" by (simp add: list_all_iff)
  show ?case
    by (auto simp: typed_def [of "TStruct ts"] conforms_struct res_iff split: if_splits dest: typed_fields [OF ts])
next
  case (TEnum ts)
  then have "typed (ts ! i)" if "i < length ts" for i using that by (simp add: list_all_iff)
  then show ?case
    by (fastforce simp: typed_def conforms_enum conforms_variant_def res_iff split: if_splits)
next
  case TUsize
  then show ?case
    by (auto simp: typed_def conforms_basic res_iff unat_of_nat split: if_splits)
qed (auto simp: typed_def conforms_basic conforms_option serde_simps res_iff split: if_splits dest: get_raw_length)

end

text \<open>The two functions of the interface.\<close>

definition fmt_to_bytes :: "wire_fmt \<Rightarrow> sval \<Rightarrow> byte list result" where
  "fmt_to_bytes f v = (case enc f v of None \<Rightarrow> Inl ''unsupported value'' | Some b \<Rightarrow> Inr b)"

definition fmt_from_bytes :: "wire_fmt \<Rightarrow> sty \<Rightarrow> byte list \<Rightarrow> sval result" where
  "fmt_from_bytes f t bs = (case dec f t bs of None \<Rightarrow> Inl ''malformed input'' | Some (v, r) \<Rightarrow> Inr v)"

lemma wire_format_codec:
  assumes "wire_format f solid"
  shows "serde_codec (fmt_to_bytes f) (fmt_from_bytes f)"
proof
  fix t v bs assume a: "codec_ty t" "conforms t v" "fmt_to_bytes f v = Inr bs"
  then have "enc f v = Some bs" by (simp add: fmt_to_bytes_def split: option.splits)
  then have "dec f t (bs @ []) = Some (v, [])"
    using wire_format.decodes [OF assms a(1)] a(2) unfolding wire_format.rt_def [OF assms] by blast
  then show "fmt_from_bytes f t bs = Inr v" by (simp add: fmt_from_bytes_def)
next
  fix t v bs assume "codec_ty t" "fmt_from_bytes f t bs = Inr v"
  then show "conforms t v"
    using wire_format.decodes_typed [OF assms] unfolding wire_format.typed_def [OF assms]
    by (fastforce simp: fmt_from_bytes_def split: option.splits)
qed

section \<open>Postcard\<close>

text \<open>
  Little-endian base-128 integers (a byte is written as it is), no field or struct headers, lengths
  and variant tags as integers of at most 32 bits, one byte for \<open>None\<close> and \<open>Some\<close>.
\<close>

function varint :: "nat \<Rightarrow> byte list" where
  "varint n = (if n < 128 then [of_nat n] else of_nat (128 + n mod 128) # varint (n div 128))"
  by auto

termination
  by (relation "measure id") auto

declare varint.simps [simp del]

lemma varint_numeral [byte_simps]:
  "varint 0 = [0]" "varint 1 = [1]"
  "varint (numeral k) =
     (if numeral k < (128 :: nat) then [of_nat (numeral k)]
      else of_nat (128 + numeral k mod 128) # varint (numeral k div 128))"
  using varint.simps [of 0] varint.simps [of 1] varint.simps [of "numeral k"] by simp_all

lemma varint_small [byte_simps]: "n < 128 \<Longrightarrow> varint n = [of_nat n]"
  by (simp add: varint.simps [of n])

fun get_varint :: "nat \<Rightarrow> byte list \<Rightarrow> (nat \<times> byte list) option" where
  "get_varint 0 bs = None"
| "get_varint (Suc k) [] = None"
| "get_varint (Suc k) (b # bs) =
     (if unat b < 128 then Some (unat b, bs)
      else chain (get_varint k bs) (\<lambda>n r. Some (unat b - 128 + 128 * n, r)))"

lemma get_varint_varint: "0 < k \<Longrightarrow> n < 128 ^ k \<Longrightarrow> get_varint k (varint n @ r) = Some (n, r)"
proof (induction k arbitrary: n)
  case (Suc k)
  show ?case
  proof (cases "n < 128")
    case True
    then show ?thesis by (simp add: varint.simps [of n] unat_of_nat_byte)
  next
    case False
    have "n div 128 < 128 ^ k" using Suc.prems by (simp add: div_less_iff_less_mult mult.commute)
    moreover have "unat (of_nat (128 + n mod 128) :: byte) = 128 + n mod 128"
      by (subst unat_of_nat_byte) simp
    moreover from False Suc.prems have "0 < k" by (cases k) auto
    ultimately show ?thesis using False Suc.IH [of "n div 128"]
      by (simp add: varint.simps [of n] del: of_nat_add)
  qed
qed simp

definition guard_below :: "nat \<Rightarrow> (nat \<times> byte list) option \<Rightarrow> (nat \<times> byte list) option" where
  "guard_below m x = chain x (\<lambda>n r. if n < m then Some (n, r) else None)"

definition byte_or :: "(byte list \<Rightarrow> (nat \<times> byte list) option) \<Rightarrow> nat \<Rightarrow> byte list \<Rightarrow> (nat \<times> byte list) option" where
  "byte_or g w bs = (if w = 1 then (case bs of [] \<Rightarrow> None | b # r \<Rightarrow> Some (unat b, r)) else g bs)"

fun get_flag :: "byte \<Rightarrow> byte \<Rightarrow> byte list \<Rightarrow> (bool \<times> byte list) option" where
  "get_flag f t [] = None"
| "get_flag f t (b # r) = (if b = f then Some (False, r) else if b = t then Some (True, r) else None)"

definition postcard_fmt :: wire_fmt where
  "postcard_fmt = \<lparr>
     put_uint = (\<lambda>w n. if w = 1 then [of_nat n] else varint n),
     get_uint = (\<lambda>w. byte_or (\<lambda>bs. guard_below (256 ^ w) (get_varint ((8 * w + 6) div 7) bs)) w),
     put_bool = (\<lambda>b. [if b then 1 else 0]),
     get_bool = get_flag 0 1,
     put_hdr = (\<lambda>h n. if h = HTuple \<or> h = HStruct then Some []
                 else if n < 256 ^ 4 then Some (varint n) else None),
     get_hdr = (\<lambda>h n bs. if h = HTuple \<or> h = HStruct then Some (n, bs)
                 else guard_below (256 ^ 4) (get_varint 5 bs)),
     put_none = [0],
     put_some = [1],
     get_opt = get_flag 0 1\<rparr>"

lemma postcard_sel [simp]:
  "put_uint postcard_fmt w n = (if w = 1 then [of_nat n] else varint n)"
  "get_uint postcard_fmt w bs = byte_or (\<lambda>bs. guard_below (256 ^ w) (get_varint ((8 * w + 6) div 7) bs)) w bs"
  "put_bool postcard_fmt b = [if b then 1 else 0]"
  "get_bool postcard_fmt = get_flag 0 1"
  "put_hdr postcard_fmt h n = (if h = HTuple \<or> h = HStruct then Some []
     else if n < 256 ^ 4 then Some (varint n) else None)"
  "get_hdr postcard_fmt h n bs = (if h = HTuple \<or> h = HStruct then Some (n, bs)
     else guard_below (256 ^ 4) (get_varint 5 bs))"
  "put_none postcard_fmt = [0]" "put_some postcard_fmt = [1]" "get_opt postcard_fmt = get_flag 0 1"
  by (simp_all add: postcard_fmt_def)

lemma guard_varint:
  assumes "n < m" and "m \<le> 128 ^ k" and "0 < k"
  shows "guard_below m (get_varint k (varint n @ r)) = Some (n, r)"
  using assms get_varint_varint [of k n r] by (simp add: guard_below_def)

interpretation postcard: wire_format postcard_fmt "\<lambda>_. True"
proof
  fix w n :: nat and r assume w: "w \<in> {1, 2, 4, 8}" "n < 256 ^ w"
  show "get_uint postcard_fmt w (put_uint postcard_fmt w n @ r) = Some (n, r)"
  proof (cases "w = 1")
    case True
    with w show ?thesis by (simp add: byte_or_def unat_of_nat_byte)
  next
    case False
    with w(1) have "(256 :: nat) ^ w \<le> 128 ^ ((8 * w + 6) div 7)" by auto
    moreover from w(1) have "0 < (8 * w + 6) div 7" by auto
    ultimately show ?thesis using guard_varint [OF w(2)] False by (simp only: postcard_sel byte_or_def if_False)
  qed
next
  fix h n m p r assume "put_hdr postcard_fmt h n = Some p" "h \<notin> {HTuple, HStruct}"
  then have n: "n < 256 ^ 4" "p = varint n" by (auto split: if_splits)
  have "guard_below (256 ^ 4) (get_varint 5 (varint n @ r)) = Some (n, r)"
    by (rule guard_varint [OF n(1)]) simp_all
  with n \<open>h \<notin> _\<close> show "get_hdr postcard_fmt h m (p @ r) = Some (n, r)" by simp
qed auto

section \<open>MessagePack\<close>

text \<open>
  The shortest of the five unsigned forms, a string, binary or array header of the shortest fitting
  length, structs as arrays of their fields, \<open>None\<close> as nil and \<open>Some\<close> unmarked. No value but \<open>None\<close> starts
  with the nil byte.
\<close>

definition get_be :: "nat \<Rightarrow> byte list \<Rightarrow> (nat \<times> byte list) option" where
  "get_be k bs = map_option (\<lambda>(x, r). (be_val x, r)) (get_raw k bs)"

lemma get_be_append: "n < 256 ^ k \<Longrightarrow> get_be k (be_bytes k n @ r) = Some (n, r)"
  by (simp add: get_be_def be_val_bytes)

definition marker :: "nat \<Rightarrow> nat \<Rightarrow> byte" where
  "marker a n = of_nat (a + n)"

lemma unat_marker: "a + n < 256 \<Longrightarrow> unat (marker a n) = a + n"
  by (simp add: marker_def unat_of_nat_byte del: of_nat_add)

lemma marker_neq: "a + n < 256 \<Longrightarrow> unat c \<noteq> a + n \<Longrightarrow> marker a n \<noteq> c"
  using unat_marker [of a n] by auto

definition mp_uint :: "nat \<Rightarrow> byte list" where
  "mp_uint n = (if n < 128 then [marker 0 n]
     else if n < 256 then 0xcc # be_bytes 1 n
     else if n < 65536 then 0xcd # be_bytes 2 n
     else if n < 4294967296 then 0xce # be_bytes 4 n
     else 0xcf # be_bytes 8 n)"

fun mp_get_uint :: "byte list \<Rightarrow> (nat \<times> byte list) option" where
  "mp_get_uint [] = None"
| "mp_get_uint (b # r) =
     (if unat b < 128 then Some (unat b, r)
      else if b = 0xcc then get_be 1 r
      else if b = 0xcd then get_be 2 r
      else if b = 0xce then get_be 4 r
      else if b = 0xcf then get_be 8 r
      else None)"

definition mp_len :: "header \<Rightarrow> nat \<Rightarrow> byte list option" where
  "mp_len h n = (case h of
       HVariant \<Rightarrow> None
     | HStr \<Rightarrow> if n < 32 then Some [marker 160 n] else if n < 256 then Some (0xd9 # be_bytes 1 n)
         else if n < 65536 then Some (0xda # be_bytes 2 n)
         else if n < 4294967296 then Some (0xdb # be_bytes 4 n) else None
     | HBytes \<Rightarrow> if n < 256 then Some (0xc4 # be_bytes 1 n)
         else if n < 65536 then Some (0xc5 # be_bytes 2 n)
         else if n < 4294967296 then Some (0xc6 # be_bytes 4 n) else None
     | _ \<Rightarrow> if n < 16 then Some [marker 144 n]
         else if n < 65536 then Some (0xdc # be_bytes 2 n)
         else if n < 4294967296 then Some (0xdd # be_bytes 4 n) else None)"

fun mp_get_len :: "header \<Rightarrow> byte list \<Rightarrow> (nat \<times> byte list) option" where
  "mp_get_len h [] = None"
| "mp_get_len h (b # r) = (case h of
       HVariant \<Rightarrow> None
     | HStr \<Rightarrow> if 160 \<le> unat b \<and> unat b < 192 then Some (unat b - 160, r)
         else if b = 0xd9 then get_be 1 r else if b = 0xda then get_be 2 r
         else if b = 0xdb then get_be 4 r else None
     | HBytes \<Rightarrow> if b = 0xc4 then get_be 1 r else if b = 0xc5 then get_be 2 r
         else if b = 0xc6 then get_be 4 r else None
     | _ \<Rightarrow> if 144 \<le> unat b \<and> unat b < 160 then Some (unat b - 144, r)
         else if b = 0xdc then get_be 2 r else if b = 0xdd then get_be 4 r else None)"

fun mp_get_opt :: "byte list \<Rightarrow> (bool \<times> byte list) option" where
  "mp_get_opt [] = None"
| "mp_get_opt (b # r) = (if b = 0xc0 then Some (False, r) else Some (True, b # r))"

definition msgpack_fmt :: wire_fmt where
  "msgpack_fmt = \<lparr>
     put_uint = (\<lambda>w. mp_uint),
     get_uint = (\<lambda>w bs. guard_below (256 ^ w) (mp_get_uint bs)),
     put_bool = (\<lambda>b. [if b then 0xc3 else 0xc2]),
     get_bool = get_flag 0xc2 0xc3,
     put_hdr = mp_len,
     get_hdr = (\<lambda>h n. mp_get_len h),
     put_none = [0xc0],
     put_some = [],
     get_opt = mp_get_opt\<rparr>"

lemma msgpack_sel [simp]:
  "put_uint msgpack_fmt w = mp_uint"
  "get_uint msgpack_fmt w bs = guard_below (256 ^ w) (mp_get_uint bs)"
  "put_bool msgpack_fmt b = [if b then 0xc3 else 0xc2]"
  "get_bool msgpack_fmt = get_flag 0xc2 0xc3"
  "put_hdr msgpack_fmt = mp_len"
  "get_hdr msgpack_fmt h n = mp_get_len h"
  "put_none msgpack_fmt = [0xc0]" "put_some msgpack_fmt = []" "get_opt msgpack_fmt = mp_get_opt"
  by (simp_all add: msgpack_fmt_def)

lemma mp_uint_get: "n < 256 ^ 8 \<Longrightarrow> mp_get_uint (mp_uint n @ r) = Some (n, r)"
  by (simp add: mp_uint_def get_be_append unat_marker)

lemma mp_len_get: "mp_len h n = Some p \<Longrightarrow> mp_get_len h (p @ r) = Some (n, r)"
  by (cases h) (auto simp: mp_len_def get_be_append unat_marker marker_neq split: if_splits)

definition not_nil :: "byte list \<Rightarrow> bool" where
  "not_nil bs \<longleftrightarrow> (case bs of [] \<Rightarrow> False | b # _ \<Rightarrow> b \<noteq> 0xc0)"

lemma not_nil_uint: "not_nil (mp_uint n)"
  by (simp add: mp_uint_def not_nil_def marker_neq)

lemma not_nil_len: "mp_len h n = Some p \<Longrightarrow> not_nil (p @ q)"
  by (cases h) (auto simp: mp_len_def not_nil_def marker_neq split: if_splits)

interpretation msgpack: wire_format msgpack_fmt not_nil
proof
  fix w n :: nat and r assume "w \<in> {1, 2, 4, 8}" "n < 256 ^ w"
  moreover from this have "n < 256 ^ 8" by auto
  ultimately show "get_uint msgpack_fmt w (put_uint msgpack_fmt w n @ r) = Some (n, r)"
    using mp_uint_get [of n r] by (simp add: guard_below_def)
next
  fix b r assume "not_nil b"
  then show "get_opt msgpack_fmt (put_some msgpack_fmt @ b @ r) = Some (True, b @ r)"
    by (cases b) (auto simp: not_nil_def)
qed (auto simp: mp_len_get not_nil_uint not_nil_len, simp_all add: not_nil_def)

interpretation postcard: serde_codec "fmt_to_bytes postcard_fmt" "fmt_from_bytes postcard_fmt"
  by (rule wire_format_codec [OF postcard.wire_format_axioms])

interpretation msgpack: serde_codec "fmt_to_bytes msgpack_fmt" "fmt_from_bytes msgpack_fmt"
  by (rule wire_format_codec [OF msgpack.wire_format_axioms])

end
