(* ===== verification/Protocol.thy ===== *)
theory Protocol
  imports Formats
begin

text \<open>
  \<open>src/protocol.rs\<close>: the types of the \<open>autonomi.ant.chunk.v1\<close> wire protocol, in declaration order,
  with the walk of their derived \<open>Serialize\<close> (\<open>sv_\<close>), the shape of their derived \<open>Deserialize\<close>
  (\<open>ty_\<close>), and \<open>ChunkMessage::encode\<close> / \<open>decode\<close> over the \<open>postcard\<close> parameter.
\<close>

section \<open>Data\<close>

type_synonym XorName = "byte list"

definition MAX_WIRE_MESSAGE_SIZE :: nat where
  "MAX_WIRE_MESSAGE_SIZE = 5 * 1024 * 1024"

record ChunkPutRequest =
  put_address :: XorName
  put_content :: "byte list"
  payment_proof :: "byte list option"

record ChunkGetRequest =
  get_address :: XorName

record ChunkQuoteRequest =
  quote_address :: XorName
  quote_data_size :: u64
  quote_data_type :: u32

record MerkleCandidateQuoteRequest =
  merkle_address :: XorName
  merkle_data_type :: u32
  merkle_data_size :: u64
  merkle_payment_timestamp :: u64

datatype ProtocolError =
    SerializationFailed string
  | DeserializationFailed string
  | MessageTooLarge u32 u32
  | ChunkTooLarge u32 u32
  | AddressMismatch XorName XorName
  | StorageFailed string
  | PaymentFailed string
  | QuoteFailed string
  | Internal string

datatype ChunkPutResponse =
    PutSuccess XorName
  | PutAlreadyExists XorName
  | PutPaymentRequired string
  | PutError ProtocolError

datatype ChunkGetResponse =
    GetSuccess XorName "byte list"
  | GetNotFound XorName
  | GetError ProtocolError

datatype ChunkQuoteResponse =
    QuoteSuccess "byte list" bool "byte list option"
  | QuoteError ProtocolError

datatype MerkleCandidateQuoteResponse =
    MerkleSuccess "byte list" "byte list option"
  | MerkleError ProtocolError

datatype ChunkMessageBody =
    PutRequest ChunkPutRequest
  | PutResponse ChunkPutResponse
  | GetRequest ChunkGetRequest
  | GetResponse ChunkGetResponse
  | QuoteRequest ChunkQuoteRequest
  | QuoteResponse ChunkQuoteResponse
  | MerkleRequest MerkleCandidateQuoteRequest
  | MerkleResponse MerkleCandidateQuoteResponse

record ChunkMessage =
  request_id :: u64
  body :: ChunkMessageBody

text \<open>\<open>impl Display for ProtocolError\<close>.\<close>

fun display_protocol_error :: "ProtocolError \<Rightarrow> string" where
  "display_protocol_error (SerializationFailed m) = ''serialization failed: '' @ m"
| "display_protocol_error (DeserializationFailed m) = ''deserialization failed: '' @ m"
| "display_protocol_error (MessageTooLarge sz mx) =
     ''message size '' @ show_nat (unat sz) @ '' exceeds maximum '' @ show_nat (unat mx)"
| "display_protocol_error (ChunkTooLarge sz mx) =
     ''chunk size '' @ show_nat (unat sz) @ '' exceeds maximum '' @ show_nat (unat mx)"
| "display_protocol_error (AddressMismatch _ _) = ''address mismatch''"
| "display_protocol_error (StorageFailed m) = ''storage failed: '' @ m"
| "display_protocol_error (PaymentFailed m) = ''payment failed: '' @ m"
| "display_protocol_error (QuoteFailed m) = ''quote failed: '' @ m"
| "display_protocol_error (Internal m) = ''internal error: '' @ m"

section \<open>Derived serialization\<close>

definition sv_ChunkPutRequest :: "ChunkPutRequest \<Rightarrow> sval" where
  "sv_ChunkPutRequest r =
     SStruct [sv_array (put_address r), sv_list SU8 (put_content r), sv_opt (sv_list SU8) (payment_proof r)]"

definition sv_ChunkGetRequest :: "ChunkGetRequest \<Rightarrow> sval" where
  "sv_ChunkGetRequest r = SStruct [sv_array (get_address r)]"

definition sv_ChunkQuoteRequest :: "ChunkQuoteRequest \<Rightarrow> sval" where
  "sv_ChunkQuoteRequest r =
     SStruct [sv_array (quote_address r), SU64 (quote_data_size r), SU32 (quote_data_type r)]"

definition sv_MerkleCandidateQuoteRequest :: "MerkleCandidateQuoteRequest \<Rightarrow> sval" where
  "sv_MerkleCandidateQuoteRequest r =
     SStruct [sv_array (merkle_address r), SU32 (merkle_data_type r), SU64 (merkle_data_size r),
       SU64 (merkle_payment_timestamp r)]"

fun sv_ProtocolError :: "ProtocolError \<Rightarrow> sval" where
  "sv_ProtocolError (SerializationFailed m) = SVariant 0 (SNewtype (SStr m))"
| "sv_ProtocolError (DeserializationFailed m) = SVariant 1 (SNewtype (SStr m))"
| "sv_ProtocolError (MessageTooLarge s m) = SVariant 2 (SStruct [sv_usize s, sv_usize m])"
| "sv_ProtocolError (ChunkTooLarge s m) = SVariant 3 (SStruct [sv_usize s, sv_usize m])"
| "sv_ProtocolError (AddressMismatch e a) = SVariant 4 (SStruct [sv_array e, sv_array a])"
| "sv_ProtocolError (StorageFailed m) = SVariant 5 (SNewtype (SStr m))"
| "sv_ProtocolError (PaymentFailed m) = SVariant 6 (SNewtype (SStr m))"
| "sv_ProtocolError (QuoteFailed m) = SVariant 7 (SNewtype (SStr m))"
| "sv_ProtocolError (Internal m) = SVariant 8 (SNewtype (SStr m))"

fun sv_ChunkPutResponse :: "ChunkPutResponse \<Rightarrow> sval" where
  "sv_ChunkPutResponse (PutSuccess a) = SVariant 0 (SStruct [sv_array a])"
| "sv_ChunkPutResponse (PutAlreadyExists a) = SVariant 1 (SStruct [sv_array a])"
| "sv_ChunkPutResponse (PutPaymentRequired m) = SVariant 2 (SStruct [SStr m])"
| "sv_ChunkPutResponse (PutError e) = SVariant 3 (SNewtype (sv_ProtocolError e))"

fun sv_ChunkGetResponse :: "ChunkGetResponse \<Rightarrow> sval" where
  "sv_ChunkGetResponse (GetSuccess a c) = SVariant 0 (SStruct [sv_array a, sv_list SU8 c])"
| "sv_ChunkGetResponse (GetNotFound a) = SVariant 1 (SStruct [sv_array a])"
| "sv_ChunkGetResponse (GetError e) = SVariant 2 (SNewtype (sv_ProtocolError e))"

fun sv_ChunkQuoteResponse :: "ChunkQuoteResponse \<Rightarrow> sval" where
  "sv_ChunkQuoteResponse (QuoteSuccess q a c) =
     SVariant 0 (SStruct [sv_list SU8 q, SBool a, sv_opt (sv_list SU8) c])"
| "sv_ChunkQuoteResponse (QuoteError e) = SVariant 1 (SNewtype (sv_ProtocolError e))"

fun sv_MerkleCandidateQuoteResponse :: "MerkleCandidateQuoteResponse \<Rightarrow> sval" where
  "sv_MerkleCandidateQuoteResponse (MerkleSuccess n c) =
     SVariant 0 (SStruct [sv_list SU8 n, sv_opt (sv_list SU8) c])"
| "sv_MerkleCandidateQuoteResponse (MerkleError e) = SVariant 1 (SNewtype (sv_ProtocolError e))"

fun sv_ChunkMessageBody :: "ChunkMessageBody \<Rightarrow> sval" where
  "sv_ChunkMessageBody (PutRequest r) = SVariant 0 (SNewtype (sv_ChunkPutRequest r))"
| "sv_ChunkMessageBody (PutResponse r) = SVariant 1 (SNewtype (sv_ChunkPutResponse r))"
| "sv_ChunkMessageBody (GetRequest r) = SVariant 2 (SNewtype (sv_ChunkGetRequest r))"
| "sv_ChunkMessageBody (GetResponse r) = SVariant 3 (SNewtype (sv_ChunkGetResponse r))"
| "sv_ChunkMessageBody (QuoteRequest r) = SVariant 4 (SNewtype (sv_ChunkQuoteRequest r))"
| "sv_ChunkMessageBody (QuoteResponse r) = SVariant 5 (SNewtype (sv_ChunkQuoteResponse r))"
| "sv_ChunkMessageBody (MerkleRequest r) = SVariant 6 (SNewtype (sv_MerkleCandidateQuoteRequest r))"
| "sv_ChunkMessageBody (MerkleResponse r) = SVariant 7 (SNewtype (sv_MerkleCandidateQuoteResponse r))"

definition sv_ChunkMessage :: "ChunkMessage \<Rightarrow> sval" where
  "sv_ChunkMessage m = SStruct [SU64 (request_id m), sv_ChunkMessageBody (body m)]"

section \<open>Shapes\<close>

definition ty_XorName :: sty where "ty_XorName = array_ty 32"

definition ty_bytes :: sty where "ty_bytes = TSeq TU8"

definition ty_ChunkPutRequest :: sty where
  "ty_ChunkPutRequest = TStruct [ty_XorName, ty_bytes, TOption ty_bytes]"

definition ty_ChunkGetRequest :: sty where
  "ty_ChunkGetRequest = TStruct [ty_XorName]"

definition ty_ChunkQuoteRequest :: sty where
  "ty_ChunkQuoteRequest = TStruct [ty_XorName, TU64, TU32]"

definition ty_MerkleCandidateQuoteRequest :: sty where
  "ty_MerkleCandidateQuoteRequest = TStruct [ty_XorName, TU32, TU64, TU64]"

definition ty_ProtocolError :: sty where
  "ty_ProtocolError = TEnum [TNewtype TStr, TNewtype TStr, TStruct [TUsize, TUsize],
     TStruct [TUsize, TUsize], TStruct [ty_XorName, ty_XorName], TNewtype TStr, TNewtype TStr,
     TNewtype TStr, TNewtype TStr]"

definition ty_ChunkPutResponse :: sty where
  "ty_ChunkPutResponse = TEnum [TStruct [ty_XorName], TStruct [ty_XorName], TStruct [TStr],
     TNewtype ty_ProtocolError]"

definition ty_ChunkGetResponse :: sty where
  "ty_ChunkGetResponse = TEnum [TStruct [ty_XorName, ty_bytes], TStruct [ty_XorName],
     TNewtype ty_ProtocolError]"

definition ty_ChunkQuoteResponse :: sty where
  "ty_ChunkQuoteResponse = TEnum [TStruct [ty_bytes, TBool, TDefault SNone (TOption ty_bytes)],
     TNewtype ty_ProtocolError]"

definition ty_MerkleCandidateQuoteResponse :: sty where
  "ty_MerkleCandidateQuoteResponse = TEnum [TStruct [ty_bytes, TDefault SNone (TOption ty_bytes)],
     TNewtype ty_ProtocolError]"

definition ty_ChunkMessageBody :: sty where
  "ty_ChunkMessageBody = TEnum [TNewtype ty_ChunkPutRequest, TNewtype ty_ChunkPutResponse,
     TNewtype ty_ChunkGetRequest, TNewtype ty_ChunkGetResponse, TNewtype ty_ChunkQuoteRequest,
     TNewtype ty_ChunkQuoteResponse, TNewtype ty_MerkleCandidateQuoteRequest,
     TNewtype ty_MerkleCandidateQuoteResponse]"

definition ty_ChunkMessage :: sty where
  "ty_ChunkMessage = TStruct [TU64, ty_ChunkMessageBody]"

lemmas protocol_shapes =
  ty_XorName_def ty_bytes_def ty_ChunkPutRequest_def ty_ChunkGetRequest_def
  ty_ChunkQuoteRequest_def ty_MerkleCandidateQuoteRequest_def ty_ProtocolError_def
  ty_ChunkPutResponse_def ty_ChunkGetResponse_def ty_ChunkQuoteResponse_def
  ty_MerkleCandidateQuoteResponse_def ty_ChunkMessageBody_def ty_ChunkMessage_def

section \<open>Derived deserialization\<close>

fun un_ChunkPutRequest :: "sval \<Rightarrow> ChunkPutRequest option" where
  "un_ChunkPutRequest (SStruct [a, c, p]) =
     ap (ap (ap (Some ChunkPutRequest.make) (un_array a)) (un_list un_u8 c)) (un_opt (un_list un_u8) p)"
| "un_ChunkPutRequest _ = None"

fun un_ChunkGetRequest :: "sval \<Rightarrow> ChunkGetRequest option" where
  "un_ChunkGetRequest (SStruct [a]) = map_option ChunkGetRequest.make (un_array a)"
| "un_ChunkGetRequest _ = None"

fun un_ChunkQuoteRequest :: "sval \<Rightarrow> ChunkQuoteRequest option" where
  "un_ChunkQuoteRequest (SStruct [a, s, t]) =
     ap (ap (ap (Some ChunkQuoteRequest.make) (un_array a)) (un_u64 s)) (un_u32 t)"
| "un_ChunkQuoteRequest _ = None"

fun un_MerkleCandidateQuoteRequest :: "sval \<Rightarrow> MerkleCandidateQuoteRequest option" where
  "un_MerkleCandidateQuoteRequest (SStruct [a, t, s, m]) =
     ap (ap (ap (ap (Some MerkleCandidateQuoteRequest.make) (un_array a)) (un_u32 t)) (un_u64 s)) (un_u64 m)"
| "un_MerkleCandidateQuoteRequest _ = None"

fun un_ProtocolError :: "sval \<Rightarrow> ProtocolError option" where
  "un_ProtocolError (SVariant i (SNewtype v)) =
     (if i = 0 then map_option SerializationFailed (un_str v)
      else if i = 1 then map_option DeserializationFailed (un_str v)
      else if i = 5 then map_option StorageFailed (un_str v)
      else if i = 6 then map_option PaymentFailed (un_str v)
      else if i = 7 then map_option QuoteFailed (un_str v)
      else if i = 8 then map_option Internal (un_str v) else None)"
| "un_ProtocolError (SVariant i (SStruct [x, y])) =
     (if i = 2 then ap (ap (Some MessageTooLarge) (un_usize x)) (un_usize y)
      else if i = 3 then ap (ap (Some ChunkTooLarge) (un_usize x)) (un_usize y)
      else if i = 4 then ap (ap (Some AddressMismatch) (un_array x)) (un_array y) else None)"
| "un_ProtocolError _ = None"

fun un_ChunkPutResponse :: "sval \<Rightarrow> ChunkPutResponse option" where
  "un_ChunkPutResponse (SVariant i (SStruct [x])) =
     (if i = 0 then map_option PutSuccess (un_array x)
      else if i = 1 then map_option PutAlreadyExists (un_array x)
      else if i = 2 then map_option PutPaymentRequired (un_str x) else None)"
| "un_ChunkPutResponse (SVariant i (SNewtype v)) =
     (if i = 3 then map_option PutError (un_ProtocolError v) else None)"
| "un_ChunkPutResponse _ = None"

fun un_ChunkGetResponse :: "sval \<Rightarrow> ChunkGetResponse option" where
  "un_ChunkGetResponse (SVariant i (SStruct (x # xs))) =
     (if i = 0 then (case xs of [y] \<Rightarrow> ap (ap (Some GetSuccess) (un_array x)) (un_list un_u8 y) | _ \<Rightarrow> None)
      else if i = 1 \<and> xs = [] then map_option GetNotFound (un_array x) else None)"
| "un_ChunkGetResponse (SVariant i (SNewtype v)) =
     (if i = 2 then map_option GetError (un_ProtocolError v) else None)"
| "un_ChunkGetResponse _ = None"

fun un_ChunkQuoteResponse :: "sval \<Rightarrow> ChunkQuoteResponse option" where
  "un_ChunkQuoteResponse (SVariant i (SStruct [q, a, c])) =
     (if i = 0 then ap (ap (ap (Some QuoteSuccess) (un_list un_u8 q)) (un_bool a)) (un_opt (un_list un_u8) c)
      else None)"
| "un_ChunkQuoteResponse (SVariant i (SNewtype v)) =
     (if i = 1 then map_option QuoteError (un_ProtocolError v) else None)"
| "un_ChunkQuoteResponse _ = None"

fun un_MerkleCandidateQuoteResponse :: "sval \<Rightarrow> MerkleCandidateQuoteResponse option" where
  "un_MerkleCandidateQuoteResponse (SVariant i (SStruct [n, c])) =
     (if i = 0 then ap (ap (Some MerkleSuccess) (un_list un_u8 n)) (un_opt (un_list un_u8) c) else None)"
| "un_MerkleCandidateQuoteResponse (SVariant i (SNewtype v)) =
     (if i = 1 then map_option MerkleError (un_ProtocolError v) else None)"
| "un_MerkleCandidateQuoteResponse _ = None"

fun un_ChunkMessageBody :: "sval \<Rightarrow> ChunkMessageBody option" where
  "un_ChunkMessageBody (SVariant i (SNewtype v)) =
     (if i = 0 then map_option PutRequest (un_ChunkPutRequest v)
      else if i = 1 then map_option PutResponse (un_ChunkPutResponse v)
      else if i = 2 then map_option GetRequest (un_ChunkGetRequest v)
      else if i = 3 then map_option GetResponse (un_ChunkGetResponse v)
      else if i = 4 then map_option QuoteRequest (un_ChunkQuoteRequest v)
      else if i = 5 then map_option QuoteResponse (un_ChunkQuoteResponse v)
      else if i = 6 then map_option MerkleRequest (un_MerkleCandidateQuoteRequest v)
      else if i = 7 then map_option MerkleResponse (un_MerkleCandidateQuoteResponse v) else None)"
| "un_ChunkMessageBody _ = None"

fun un_ChunkMessage :: "sval \<Rightarrow> ChunkMessage option" where
  "un_ChunkMessage (SStruct [r, b]) =
     ap (ap (Some ChunkMessage.make) (un_u64 r)) (un_ChunkMessageBody b)"
| "un_ChunkMessage _ = None"

section \<open>What the Rust types guarantee\<close>

fun wf_ProtocolError :: "ProtocolError \<Rightarrow> bool" where
  "wf_ProtocolError (SerializationFailed m) = is_utf8 m"
| "wf_ProtocolError (DeserializationFailed m) = is_utf8 m"
| "wf_ProtocolError (MessageTooLarge _ _) = True"
| "wf_ProtocolError (ChunkTooLarge _ _) = True"
| "wf_ProtocolError (AddressMismatch e a) = (length e = 32 \<and> length a = 32)"
| "wf_ProtocolError (StorageFailed m) = is_utf8 m"
| "wf_ProtocolError (PaymentFailed m) = is_utf8 m"
| "wf_ProtocolError (QuoteFailed m) = is_utf8 m"
| "wf_ProtocolError (Internal m) = is_utf8 m"

fun wf_ChunkPutResponse :: "ChunkPutResponse \<Rightarrow> bool" where
  "wf_ChunkPutResponse (PutSuccess a) = (length a = 32)"
| "wf_ChunkPutResponse (PutAlreadyExists a) = (length a = 32)"
| "wf_ChunkPutResponse (PutPaymentRequired m) = is_utf8 m"
| "wf_ChunkPutResponse (PutError e) = wf_ProtocolError e"

fun wf_ChunkGetResponse :: "ChunkGetResponse \<Rightarrow> bool" where
  "wf_ChunkGetResponse (GetSuccess a c) = (length a = 32)"
| "wf_ChunkGetResponse (GetNotFound a) = (length a = 32)"
| "wf_ChunkGetResponse (GetError e) = wf_ProtocolError e"

fun wf_ChunkQuoteResponse :: "ChunkQuoteResponse \<Rightarrow> bool" where
  "wf_ChunkQuoteResponse (QuoteSuccess q a c) = True"
| "wf_ChunkQuoteResponse (QuoteError e) = wf_ProtocolError e"

fun wf_MerkleCandidateQuoteResponse :: "MerkleCandidateQuoteResponse \<Rightarrow> bool" where
  "wf_MerkleCandidateQuoteResponse (MerkleSuccess n c) = True"
| "wf_MerkleCandidateQuoteResponse (MerkleError e) = wf_ProtocolError e"

fun wf_ChunkMessageBody :: "ChunkMessageBody \<Rightarrow> bool" where
  "wf_ChunkMessageBody (PutRequest r) = (length (put_address r) = 32)"
| "wf_ChunkMessageBody (PutResponse r) = wf_ChunkPutResponse r"
| "wf_ChunkMessageBody (GetRequest r) = (length (get_address r) = 32)"
| "wf_ChunkMessageBody (GetResponse r) = wf_ChunkGetResponse r"
| "wf_ChunkMessageBody (QuoteRequest r) = (length (quote_address r) = 32)"
| "wf_ChunkMessageBody (QuoteResponse r) = wf_ChunkQuoteResponse r"
| "wf_ChunkMessageBody (MerkleRequest r) = (length (merkle_address r) = 32)"
| "wf_ChunkMessageBody (MerkleResponse r) = wf_MerkleCandidateQuoteResponse r"

definition wf_ChunkMessage :: "ChunkMessage \<Rightarrow> bool" where
  "wf_ChunkMessage m = wf_ChunkMessageBody (body m)"

lemmas protocol_records =
  ChunkPutRequest.defs ChunkGetRequest.defs ChunkQuoteRequest.defs
  MerkleCandidateQuoteRequest.defs ChunkMessage.defs

lemmas protocol_structs =
  sv_ChunkPutRequest_def sv_ChunkGetRequest_def sv_ChunkQuoteRequest_def
  sv_MerkleCandidateQuoteRequest_def sv_ChunkMessage_def

lemmas wire_structs = serde_simps wire_reads wire_writes protocol_structs protocol_records

interpretation wput: wire_type ty_ChunkPutRequest sv_ChunkPutRequest un_ChunkPutRequest
    "\<lambda>r. length (put_address r) = 32"
proof
  fix v assume "conforms ty_ChunkPutRequest v"
  then obtain a c p where "v = SStruct [sv_array a, sv_list SU8 c, sv_opt (sv_list SU8) p]" "length a = 32"
    by (auto simp: protocol_shapes serde_simps dest!: wire_images)
  then show "\<exists>r. v = sv_ChunkPutRequest r \<and> length (put_address r) = 32"
    by (intro exI [of _ "ChunkPutRequest.make a c p"]) (simp add: protocol_structs protocol_records)
qed (auto simp: protocol_shapes wire_structs option.pred_True list.pred_True)

interpretation wget: wire_type ty_ChunkGetRequest sv_ChunkGetRequest un_ChunkGetRequest
    "\<lambda>r. length (get_address r) = 32"
proof
  fix v assume "conforms ty_ChunkGetRequest v"
  then obtain a where "v = SStruct [sv_array a]" "length a = 32"
    by (auto simp: protocol_shapes serde_simps dest!: wire_images)
  then show "\<exists>r. v = sv_ChunkGetRequest r \<and> length (get_address r) = 32"
    by (intro exI [of _ "ChunkGetRequest.make a"]) (simp add: protocol_structs protocol_records)
qed (auto simp: protocol_shapes wire_structs)

interpretation wquote: wire_type ty_ChunkQuoteRequest sv_ChunkQuoteRequest un_ChunkQuoteRequest
    "\<lambda>r. length (quote_address r) = 32"
proof
  fix v assume "conforms ty_ChunkQuoteRequest v"
  then obtain a s t where "v = SStruct [sv_array a, SU64 s, SU32 t]" "length a = 32"
    by (auto simp: protocol_shapes serde_simps dest!: wire_images)
  then show "\<exists>r. v = sv_ChunkQuoteRequest r \<and> length (quote_address r) = 32"
    by (intro exI [of _ "ChunkQuoteRequest.make a s t"]) (simp add: protocol_structs protocol_records)
qed (auto simp: protocol_shapes wire_structs)

interpretation wmerkle: wire_type ty_MerkleCandidateQuoteRequest sv_MerkleCandidateQuoteRequest
    un_MerkleCandidateQuoteRequest "\<lambda>r. length (merkle_address r) = 32"
proof
  fix v assume "conforms ty_MerkleCandidateQuoteRequest v"
  then obtain a t s m where "v = SStruct [sv_array a, SU32 t, SU64 s, SU64 m]" "length a = 32"
    by (auto simp: protocol_shapes serde_simps dest!: wire_images)
  then show "\<exists>r. v = sv_MerkleCandidateQuoteRequest r \<and> length (merkle_address r) = 32"
    by (intro exI [of _ "MerkleCandidateQuoteRequest.make a t s m"])
      (simp add: protocol_structs protocol_records)
qed (auto simp: protocol_shapes wire_structs)

text \<open>
  An enum: the third law finds the variant from its index. Each existential over the enum is the
  disjunction of those over its constructors.
\<close>

lemma ex_ProtocolError:
  "(\<exists>e. P e) \<longleftrightarrow> (\<exists>m. P (SerializationFailed m)) \<or> (\<exists>m. P (DeserializationFailed m)) \<or>
     (\<exists>s m. P (MessageTooLarge s m)) \<or> (\<exists>s m. P (ChunkTooLarge s m)) \<or>
     (\<exists>e a. P (AddressMismatch e a)) \<or> (\<exists>m. P (StorageFailed m)) \<or> (\<exists>m. P (PaymentFailed m)) \<or>
     (\<exists>m. P (QuoteFailed m)) \<or> (\<exists>m. P (Internal m))"
  by (metis ProtocolError.exhaust)

interpretation wperr: wire_type ty_ProtocolError sv_ProtocolError un_ProtocolError wf_ProtocolError
proof
  fix e assume "wf_ProtocolError e"
  then show "conforms ty_ProtocolError (sv_ProtocolError e)"
    by (cases e) (auto simp: protocol_shapes wire_structs)
  show "un_ProtocolError (sv_ProtocolError e) = Some e"
    using \<open>wf_ProtocolError e\<close> by (cases e) (auto simp: wire_structs)
next
  fix v assume "conforms ty_ProtocolError v"
  then show "\<exists>e. v = sv_ProtocolError e \<and> wf_ProtocolError e"
    unfolding ex_ProtocolError by (auto simp: protocol_shapes serde_simps dest!: wire_images)
qed

lemma ex_ChunkPutResponse:
  "(\<exists>r. P r) \<longleftrightarrow> (\<exists>a. P (PutSuccess a)) \<or> (\<exists>a. P (PutAlreadyExists a)) \<or>
     (\<exists>m. P (PutPaymentRequired m)) \<or> (\<exists>e. P (PutError e))"
  by (metis ChunkPutResponse.exhaust)

interpretation wputr: wire_type ty_ChunkPutResponse sv_ChunkPutResponse un_ChunkPutResponse
    wf_ChunkPutResponse
proof
  fix r assume "wf_ChunkPutResponse r"
  then show "conforms ty_ChunkPutResponse (sv_ChunkPutResponse r)"
    by (cases r) (auto simp: ty_ChunkPutResponse_def ty_XorName_def wire_structs wperr.sv_conforms)
  show "un_ChunkPutResponse (sv_ChunkPutResponse r) = Some r"
    using \<open>wf_ChunkPutResponse r\<close> by (cases r) (auto simp: wire_structs wperr.un_sv)
next
  fix v assume "conforms ty_ChunkPutResponse v"
  then show "\<exists>r. v = sv_ChunkPutResponse r \<and> wf_ChunkPutResponse r"
    unfolding ex_ChunkPutResponse
    by (auto simp: ty_ChunkPutResponse_def ty_XorName_def serde_simps dest!: wire_images wperr.conforms_image)
qed

lemma ex_ChunkGetResponse:
  "(\<exists>r. P r) \<longleftrightarrow> (\<exists>a c. P (GetSuccess a c)) \<or> (\<exists>a. P (GetNotFound a)) \<or> (\<exists>e. P (GetError e))"
  by (metis ChunkGetResponse.exhaust)

interpretation wgetr: wire_type ty_ChunkGetResponse sv_ChunkGetResponse un_ChunkGetResponse
    wf_ChunkGetResponse
proof
  fix r assume "wf_ChunkGetResponse r"
  then show "conforms ty_ChunkGetResponse (sv_ChunkGetResponse r)"
    by (cases r) (auto simp: ty_ChunkGetResponse_def ty_XorName_def ty_bytes_def wire_structs
        wperr.sv_conforms list.pred_True)
  show "un_ChunkGetResponse (sv_ChunkGetResponse r) = Some r"
    using \<open>wf_ChunkGetResponse r\<close> by (cases r) (auto simp: wire_structs wperr.un_sv list.pred_True)
next
  fix v assume "conforms ty_ChunkGetResponse v"
  then show "\<exists>r. v = sv_ChunkGetResponse r \<and> wf_ChunkGetResponse r"
    unfolding ex_ChunkGetResponse
    by (auto simp: ty_ChunkGetResponse_def ty_XorName_def ty_bytes_def serde_simps
        dest!: wire_images wperr.conforms_image)
qed

lemma ex_ChunkQuoteResponse:
  "(\<exists>r. P r) \<longleftrightarrow> (\<exists>q a c. P (QuoteSuccess q a c)) \<or> (\<exists>e. P (QuoteError e))"
  by (metis ChunkQuoteResponse.exhaust)

interpretation wquoter: wire_type ty_ChunkQuoteResponse sv_ChunkQuoteResponse un_ChunkQuoteResponse
    wf_ChunkQuoteResponse
proof
  fix r assume "wf_ChunkQuoteResponse r"
  then show "conforms ty_ChunkQuoteResponse (sv_ChunkQuoteResponse r)"
    by (cases r) (auto simp: ty_ChunkQuoteResponse_def ty_bytes_def wire_structs
        wperr.sv_conforms list.pred_True option.pred_True)
  show "un_ChunkQuoteResponse (sv_ChunkQuoteResponse r) = Some r"
    using \<open>wf_ChunkQuoteResponse r\<close>
    by (cases r) (auto simp: wire_structs wperr.un_sv list.pred_True option.pred_True)
next
  fix v assume "conforms ty_ChunkQuoteResponse v"
  then show "\<exists>r. v = sv_ChunkQuoteResponse r \<and> wf_ChunkQuoteResponse r"
    unfolding ex_ChunkQuoteResponse
    by (auto simp: ty_ChunkQuoteResponse_def ty_bytes_def serde_simps
        dest!: wire_images wperr.conforms_image)
qed

lemma ex_MerkleCandidateQuoteResponse:
  "(\<exists>r. P r) \<longleftrightarrow> (\<exists>n c. P (MerkleSuccess n c)) \<or> (\<exists>e. P (MerkleError e))"
  by (metis MerkleCandidateQuoteResponse.exhaust)

interpretation wmerkler: wire_type ty_MerkleCandidateQuoteResponse sv_MerkleCandidateQuoteResponse
    un_MerkleCandidateQuoteResponse wf_MerkleCandidateQuoteResponse
proof
  fix r assume "wf_MerkleCandidateQuoteResponse r"
  then show "conforms ty_MerkleCandidateQuoteResponse (sv_MerkleCandidateQuoteResponse r)"
    by (cases r) (auto simp: ty_MerkleCandidateQuoteResponse_def ty_bytes_def wire_structs
        wperr.sv_conforms list.pred_True option.pred_True)
  show "un_MerkleCandidateQuoteResponse (sv_MerkleCandidateQuoteResponse r) = Some r"
    using \<open>wf_MerkleCandidateQuoteResponse r\<close>
    by (cases r) (auto simp: wire_structs wperr.un_sv list.pred_True option.pred_True)
next
  fix v assume "conforms ty_MerkleCandidateQuoteResponse v"
  then show "\<exists>r. v = sv_MerkleCandidateQuoteResponse r \<and> wf_MerkleCandidateQuoteResponse r"
    unfolding ex_MerkleCandidateQuoteResponse
    by (auto simp: ty_MerkleCandidateQuoteResponse_def ty_bytes_def serde_simps
        dest!: wire_images wperr.conforms_image)
qed

lemma ex_ChunkMessageBody:
  "(\<exists>b. P b) \<longleftrightarrow> (\<exists>r. P (PutRequest r)) \<or> (\<exists>r. P (PutResponse r)) \<or> (\<exists>r. P (GetRequest r)) \<or>
     (\<exists>r. P (GetResponse r)) \<or> (\<exists>r. P (QuoteRequest r)) \<or> (\<exists>r. P (QuoteResponse r)) \<or>
     (\<exists>r. P (MerkleRequest r)) \<or> (\<exists>r. P (MerkleResponse r))"
  by (metis ChunkMessageBody.exhaust)

lemmas body_writes = wput.sv_conforms wputr.sv_conforms wget.sv_conforms wgetr.sv_conforms
  wquote.sv_conforms wquoter.sv_conforms wmerkle.sv_conforms wmerkler.sv_conforms

lemmas body_reads = wput.un_sv wputr.un_sv wget.un_sv wgetr.un_sv wquote.un_sv wquoter.un_sv
  wmerkle.un_sv wmerkler.un_sv

lemmas body_images = wput.conforms_image wputr.conforms_image wget.conforms_image
  wgetr.conforms_image wquote.conforms_image wquoter.conforms_image wmerkle.conforms_image
  wmerkler.conforms_image

interpretation wbody: wire_type ty_ChunkMessageBody sv_ChunkMessageBody un_ChunkMessageBody
    wf_ChunkMessageBody
proof
  fix b assume "wf_ChunkMessageBody b"
  then show "conforms ty_ChunkMessageBody (sv_ChunkMessageBody b)"
    by (cases b) (auto simp: ty_ChunkMessageBody_def serde_simps body_writes)
  show "un_ChunkMessageBody (sv_ChunkMessageBody b) = Some b"
    using \<open>wf_ChunkMessageBody b\<close> by (cases b) (auto simp: body_reads)
next
  fix v assume "conforms ty_ChunkMessageBody v"
  then show "\<exists>b. v = sv_ChunkMessageBody b \<and> wf_ChunkMessageBody b"
    unfolding ex_ChunkMessageBody
    by (auto simp: ty_ChunkMessageBody_def serde_simps dest!: body_images)
qed

interpretation wmsg: wire_type ty_ChunkMessage sv_ChunkMessage un_ChunkMessage wf_ChunkMessage
proof
  fix v assume "conforms ty_ChunkMessage v"
  then obtain i b where "v = SStruct [SU64 i, sv_ChunkMessageBody b]" "wf_ChunkMessageBody b"
    by (auto simp: ty_ChunkMessage_def serde_simps dest!: wu64.conforms_image wbody.conforms_image)
  then show "\<exists>m. v = sv_ChunkMessage m \<and> wf_ChunkMessage m"
    by (intro exI [of _ "ChunkMessage.make i b"])
      (simp add: protocol_structs protocol_records wf_ChunkMessage_def)
qed (auto simp: ty_ChunkMessage_def wf_ChunkMessage_def wire_structs wbody.sv_conforms wbody.un_sv)

section \<open>ChunkMessage::encode and ChunkMessage::decode\<close>

text \<open>\<open>to_bytes\<close> is \<open>postcard::to_stdvec\<close>, \<open>from_bytes\<close> is \<open>postcard::from_bytes\<close>.\<close>

definition chunk_encode :: "(sval \<Rightarrow> byte list result) \<Rightarrow> ChunkMessage \<Rightarrow> byte list result" where
  "chunk_encode to_bytes m = map_err (\<lambda>e. ''encode failed: '' @ e) (to_bytes (sv_ChunkMessage m))"

definition chunk_decode :: "(sty \<Rightarrow> byte list \<Rightarrow> sval result) \<Rightarrow> byte list \<Rightarrow> ChunkMessage result" where
  "chunk_decode from_bytes data =
     (if length data > MAX_WIRE_MESSAGE_SIZE
      then Inl (''message too large: '' @ show_nat (length data) @ '' bytes'')
      else map_err (\<lambda>e. ''decode failed: '' @ e)
             (read_value from_bytes ty_ChunkMessage un_ChunkMessage data))"

lemma message_codec:
  "serde_codec tb fb \<Longrightarrow> wire_codec tb fb ty_ChunkMessage sv_ChunkMessage un_ChunkMessage wf_ChunkMessage"
  by (intro wire_codec.intro wire_codec_axioms.intro wmsg.wire_type_axioms)
    (simp_all add: protocol_shapes conforms_option)

interpretation pc_message: wire_codec "fmt_to_bytes postcard_fmt" "fmt_from_bytes postcard_fmt"
    ty_ChunkMessage sv_ChunkMessage un_ChunkMessage wf_ChunkMessage
  by (rule message_codec) unfold_locales

lemma chunk_decode_encode:
  assumes "serde_codec to_bytes from_bytes" and "wf_ChunkMessage m" and "chunk_encode to_bytes m = Inr bs"
    and "length bs \<le> MAX_WIRE_MESSAGE_SIZE"
  shows "chunk_decode from_bytes bs = Inr m"
proof -
  have "to_bytes (sv_ChunkMessage m) = Inr bs"
    using assms(3) by (auto simp: chunk_encode_def map_err_def split: sum.splits)
  from wire_codec.read_written [OF message_codec [OF assms(1)] assms(2) this] assms(4)
  show ?thesis by (simp add: chunk_decode_def map_err_def)
qed

lemma chunk_decode_wf:
  assumes "serde_codec to_bytes from_bytes" and "chunk_decode from_bytes bs = Inr m"
  shows "wf_ChunkMessage m \<and> length bs \<le> MAX_WIRE_MESSAGE_SIZE"
  using assms(2) wire_codec.read_wf [OF message_codec [OF assms(1)]]
  by (fastforce simp: chunk_decode_def map_err_def split: if_splits sum.splits)

text \<open> C19. What a peer encodes, the client decodes: over any serde codec, a chunk message of the wire
  shape (each of the eight bodies, each response and each protocol error) survives the round trip
  unless its encoding exceeds 5 MiB, in which case it is refused with its size, before any parsing.\<close>
theorem chunk_message_roundtrip:
  assumes "serde_codec to_bytes from_bytes" and "wf_ChunkMessage m" and "chunk_encode to_bytes m = Inr bs"
  shows "chunk_decode from_bytes bs =
     (if length bs \<le> 5 * 1024 * 1024 then Inr m
      else Inl (''message too large: '' @ show_nat (length bs) @ '' bytes''))"
proof (cases "length bs \<le> MAX_WIRE_MESSAGE_SIZE")
  case True
  with chunk_decode_encode [OF assms] show ?thesis by (simp add: MAX_WIRE_MESSAGE_SIZE_def)
next
  case False
  then show ?thesis by (simp add: MAX_WIRE_MESSAGE_SIZE_def chunk_decode_def)
qed

lemma chunk_message_roundtrip_witness:
  "chunk_encode (fmt_to_bytes postcard_fmt) \<lparr>request_id = 300, body = PutResponse (PutPaymentRequired ''no'')\<rparr>
     = Inr [172, 2, 1, 2, 2, 110, 111]
   \<and> chunk_decode (fmt_from_bytes postcard_fmt) [172, 2, 1, 2, 2, 110, 111]
     = Inr \<lparr>request_id = 300, body = PutResponse (PutPaymentRequired ''no'')\<rparr>"
  using chunk_message_roundtrip [OF postcard.serde_codec_axioms,
      of "\<lparr>request_id = 300, body = PutResponse (PutPaymentRequired ''no'')\<rparr>" "[172, 2, 1, 2, 2, 110, 111]"]
  by (simp add: wf_ChunkMessage_def ascii_is_utf8 is_ascii_def chunk_encode_def fmt_to_bytes_def
      sv_ChunkMessage_def put_with_hdr_def enc_all.simps(2) map_err_def byte_simps)

end
