(* ===== verification/Framing.thy ===== *)
theory Framing
  imports Protocol
begin

text \<open>
  \<open>src/framing.rs\<close>: one application frame is a 4-byte big-endian length and the payload, cut into
  \<open>DataChannel\<close> messages of at most 16 KiB; \<open>FrameBuf\<close> puts the frames together again. The
  interface the transport relies on is the locale \<open>incremental_parser\<close>, interpreted at the end on
  \<open>push\<close>.
\<close>

section \<open>Definitions\<close>

definition MAX_DC_MESSAGE_SIZE :: nat where
  "MAX_DC_MESSAGE_SIZE = 16 * 1024"

definition MAX_FRAME_SIZE :: nat where
  "MAX_FRAME_SIZE = MAX_WIRE_MESSAGE_SIZE + 64"

text \<open>\<open>payload.len() as u32\<close> truncates.\<close>

definition encode_frame :: "byte list \<Rightarrow> byte list" where
  "encode_frame payload = u32_to_be (of_nat (length payload)) @ payload"

definition split_messages :: "byte list \<Rightarrow> byte list list" where
  "split_messages wire = chunks MAX_DC_MESSAGE_SIZE wire"

record FrameBuf =
  buf :: "byte list"

definition FrameBuf_new :: FrameBuf where
  "FrameBuf_new = \<lparr>buf = []\<rparr>"

definition push :: "FrameBuf \<Rightarrow> byte list \<Rightarrow> byte list option result \<times> FrameBuf" where
  "push fb data =
     (let b = buf fb @ data; fb1 = fb\<lparr>buf := b\<rparr> in
      if length b < 4 then (Inr None, fb1)
      else
        let len = unat (u32_from_be (take 4 b)) in
        if len = 0 \<or> len > MAX_FRAME_SIZE
        then (Inl (''declared frame length '' @ show_nat len @ '' out of range''), fb1)
        else if length b < 4 + len then (Inr None, fb1)
        else (Inr (Some (take len (drop 4 b))), fb1\<lparr>buf := drop (4 + len) b\<rparr>))"

section \<open>Messages\<close>

lemma concat_split_messages: "concat (split_messages wire) = wire"
  by (simp add: split_messages_def MAX_DC_MESSAGE_SIZE_def concat_chunks)

lemma split_messages_bounds:
  "m \<in> set (split_messages wire) \<Longrightarrow> m \<noteq> [] \<and> length m \<le> MAX_DC_MESSAGE_SIZE"
  unfolding split_messages_def by (rule chunks_bounds) (simp_all add: MAX_DC_MESSAGE_SIZE_def)

section \<open>Reassembly\<close>

definition frame_payload :: "byte list \<Rightarrow> bool" where
  "frame_payload p \<longleftrightarrow> 0 < length p \<and> length p \<le> MAX_FRAME_SIZE"

text \<open>\<open>push\<close> looks at the buffered bytes only; the length prefix is their first four bytes.\<close>

lemma push_eq:
  assumes "buf fb @ data = b"
  shows "push fb data =
     (if length b < 4 then (Inr None, fb\<lparr>buf := b\<rparr>)
      else if be_val (take 4 b) = 0 \<or> MAX_FRAME_SIZE < be_val (take 4 b)
      then (Inl (''declared frame length '' @ show_nat (be_val (take 4 b)) @ '' out of range''), fb\<lparr>buf := b\<rparr>)
      else if length b < 4 + be_val (take 4 b) then (Inr None, fb\<lparr>buf := b\<rparr>)
      else (Inr (Some (take (be_val (take 4 b)) (drop 4 b))), fb\<lparr>buf := drop (4 + be_val (take 4 b)) b\<rparr>))"
proof (cases "length b < 4")
  case True
  then show ?thesis by (simp add: push_def assms)
next
  case False
  then have "length (take 4 b) = 4" by simp
  with be_val_bound [of "take 4 b"] have "be_val (take 4 b) < 256 ^ 4" by metis
  then have "unat (u32_from_be (take 4 b)) = be_val (take 4 b)"
    by (simp add: u32_from_be_def unat_of_nat)
  with False show ?thesis by (simp add: push_def assms Let_def)
qed

lemma encode_frame_prefix:
  assumes "length p \<le> MAX_FRAME_SIZE"
  shows "be_val (take 4 (encode_frame p @ rest)) = length p"
proof -
  have "length p < 256 ^ 4"
    using assms by (simp add: MAX_FRAME_SIZE_def MAX_WIRE_MESSAGE_SIZE_def)
  then show ?thesis
    by (simp add: encode_frame_def u32_to_be_def be_val_bytes unat_of_nat)
qed

lemma length_encode_frame [simp]: "length (encode_frame p) = 4 + length p"
  by (simp add: encode_frame_def)

lemma drop4_encode_frame [simp]: "drop 4 (encode_frame p @ rest) = p @ rest"
  by (simp add: encode_frame_def)

text \<open>What a byte sequence at the front of the stream amounts to, in the absence of any buffer.\<close>

definition parse_frame :: "byte list \<Rightarrow> byte list option result \<times> byte list" where
  "parse_frame b =
     (if length b < 4 then (Inr None, b)
      else if be_val (take 4 b) = 0 \<or> MAX_FRAME_SIZE < be_val (take 4 b)
      then (Inl (''declared frame length '' @ show_nat (be_val (take 4 b)) @ '' out of range''), b)
      else if length b < 4 + be_val (take 4 b) then (Inr None, b)
      else (Inr (Some (take (be_val (take 4 b)) (drop 4 b))), drop (4 + be_val (take 4 b)) b))"

lemma push_parse: "push fb data = (fst (parse_frame (buf fb @ data)), fb\<lparr>buf := snd (parse_frame (buf fb @ data))\<rparr>)"
  by (simp add: push_eq [OF refl] parse_frame_def del: length_append take_append drop_append)

lemma parse_frame_keeps:
  "parse_frame b = (Inr None, r) \<Longrightarrow> r = b"
  "parse_frame b = (Inl e, r) \<Longrightarrow> r = b"
  by (auto simp: parse_frame_def split: if_splits)

lemma parse_frame_stable:
  "parse_frame b = (Inl e, r) \<Longrightarrow> parse_frame (b @ x) = (Inl e, b @ x)"
  "parse_frame b = (Inr (Some p), r) \<Longrightarrow> parse_frame (b @ x) = (Inr (Some p), r @ x)"
  by (auto simp: parse_frame_def split: if_splits)

lemma parse_frame_encoded:
  assumes "frame_payload p"
  shows "parse_frame (encode_frame p @ rest) = (Inr (Some p), rest)"
  using assms encode_frame_prefix [of p rest]
  by (simp add: parse_frame_def frame_payload_def del: take_append drop_append)
    (simp add: encode_frame_def)

lemma parse_frame_Some:
  assumes "parse_frame b = (Inr (Some p), r)"
  shows "b = encode_frame p @ r \<and> frame_payload p"
proof -
  let ?n = "be_val (take 4 b)"
  from assms have l: "4 + ?n \<le> length b" "0 < ?n" "?n \<le> MAX_FRAME_SIZE"
    and p: "p = take ?n (drop 4 b)" and r: "r = drop (4 + ?n) b"
    by (auto simp: parse_frame_def not_less split: if_splits)
  then have lp: "length p = ?n" by simp
  have "be_bytes 4 ?n = take 4 b" using be_bytes_val [of "take 4 b"] l by (simp add: min_def)
  moreover have "?n < 2 ^ 32" using be_val_bound [of "take 4 b"] l by (simp add: min_def)
  ultimately have "encode_frame p = take 4 b @ p"
    by (simp add: encode_frame_def u32_to_be_def lp unat_of_nat)
  moreover have "take 4 b @ p @ r = b"
    by (metis append_take_drop_id drop_drop r p add.commute)
  ultimately show ?thesis using l lp by (simp add: frame_payload_def)
qed

text \<open>
  What a reader of the channel relies on: feeding bytes to the buffer gives what the buffered and the
  new bytes amount to together; what is undecided is kept; and what is decided stays decided when
  more bytes follow.
\<close>

locale incremental_parser =
  fixes feed :: "'b \<Rightarrow> byte list \<Rightarrow> byte list option result \<times> 'b"
    and contents :: "'b \<Rightarrow> byte list"
    and parse :: "byte list \<Rightarrow> byte list option result \<times> byte list"
  assumes feed_parse: "feed b data = (r, b') \<Longrightarrow> parse (contents b @ data) = (r, contents b')"
    and undecided: "parse bs = (Inr None, rest) \<Longrightarrow> rest = bs"
    and error_stable: "parse bs = (Inl e, rest) \<Longrightarrow> parse (bs @ x) = (Inl e, rest @ x)"
    and frame_stable: "parse bs = (Inr (Some p), rest) \<Longrightarrow> parse (bs @ x) = (Inr (Some p), rest @ x)"

interpretation framing: incremental_parser push buf parse_frame
proof
  fix bs rest x :: "byte list" and e assume "parse_frame bs = (Inl e, rest)"
  with parse_frame_keeps(2) [OF this] parse_frame_stable(1) [OF this]
  show "parse_frame (bs @ x) = (Inl e, rest @ x)" by simp
qed (auto simp: push_parse parse_frame_keeps parse_frame_stable)

text \<open>No byte is lost or reordered, whatever arrives; and an error sticks, since the offending prefix
  stays at the front of the buffer.\<close>

lemma push_conserves:
  assumes "push fb data = (Inr (Some p), fb1)"
  shows "buf fb @ data = encode_frame p @ buf fb1 \<and> frame_payload p"
  using parse_frame_Some [OF framing.feed_parse [OF assms]] .

lemma parse_frame_fst:
  "fst (parse_frame b) = Inr None \<Longrightarrow> snd (parse_frame b) = b"
  "fst (parse_frame b) = Inl e \<Longrightarrow> snd (parse_frame b) = b"
  "fst (parse_frame b) = Inl e \<Longrightarrow> 4 \<le> length b \<and> (be_val (take 4 b) = 0 \<or> MAX_FRAME_SIZE < be_val (take 4 b))"
  by (auto simp: parse_frame_def not_less split: if_splits)

lemma push_keeps:
  "push fb data = (Inr None, fb1) \<Longrightarrow> buf fb1 = buf fb @ data"
  "push fb data = (Inl e, fb1) \<Longrightarrow> buf fb1 = buf fb @ data"
  by (auto simp: push_parse parse_frame_fst)

lemma push_error_prefix:
  assumes "push fb data = (Inl e, fb1)"
  shows "4 \<le> length (buf fb1) \<and> (be_val (take 4 (buf fb1)) = 0 \<or> MAX_FRAME_SIZE < be_val (take 4 (buf fb1)))"
  using parse_frame_fst(3) [of "buf fb @ data" e] push_keeps(2) [OF assms] assms by (simp add: push_parse)

lemma push_error_sticks:
  assumes "push fb data = (Inl e, fb1)"
  shows "fst (push fb1 more_data) = Inl e"
  using framing.error_stable [OF framing.feed_parse [OF assms], of more_data] push_keeps(2) [OF assms]
  by (simp add: push_parse)

text \<open> C38. \<open>push\<close> accounts for every byte: what it holds and is given is exactly the frame it hands out,
  encoded, followed by what it keeps; or, when it hands out none, all of it is kept. A length prefix
  of zero or above the maximum is refused, now and on every later call.\<close>
theorem push_accounts:
  "case push fb data of
     (Inr (Some p), fb1) \<Rightarrow> frame_payload p \<and> buf fb @ data = encode_frame p @ buf fb1
   | (Inr None, fb1) \<Rightarrow> buf fb1 = buf fb @ data
   | (Inl e, fb1) \<Rightarrow> 4 \<le> length (buf fb1) \<and> (let n = be_val (take 4 (buf fb1)) in n = 0 \<or> n > 5242944)
       \<and> (\<forall>more. fst (push fb1 more) = Inl e)"
proof (cases "push fb data")
  case (Pair r fb1)
  show ?thesis
  proof (cases r)
    case (Inl e)
    with Pair push_error_prefix [of fb data e fb1] push_error_sticks [of fb data e fb1] show ?thesis
      by (simp add: Let_def MAX_FRAME_SIZE_def MAX_WIRE_MESSAGE_SIZE_def)
  next
    case (Inr o)
    with Pair push_conserves [of fb data _ fb1] push_keeps(1) [of fb data fb1] show ?thesis
      by (simp split: option.split)
  qed
qed

text \<open>Whatever is cut by \<open>split_messages\<close> is put together again by concatenation, in messages of 1 to
  16384 bytes, each of which the other side can push in one call.\<close>
lemma split_messages_spec:
  "concat (split_messages wire) = wire \<and> list_all (\<lambda>m. 0 < length m \<and> length m \<le> 16384) (split_messages wire)"
  using split_messages_bounds [of _ wire]
  by (auto simp: concat_split_messages list_all_iff MAX_DC_MESSAGE_SIZE_def)

end
