(* ===== verification/Sdp.thy ===== *)
theory Sdp
  imports Prelude
begin

text \<open>
  \<open>src/sdp.rs\<close>: rewriting the browser's SDP offer (its ICE credentials become the chosen ufrag),
  synthesising the node's answer from its address and certificate fingerprint, and the colon form
  of the fingerprint.
\<close>

section \<open>Definitions\<close>

abbreviation LF :: char where "LF \<equiv> CHR 0x0A"
abbreviation CR :: char where "CR \<equiv> CHR 0x0D"

definition crlf :: string where
  "crlf = [CR, LF]"

text \<open>One pass of the loop of \<open>munge_offer\<close> over the lines, with its output and counter.\<close>

fun munge_lines :: "string \<Rightarrow> string list \<Rightarrow> string \<Rightarrow> nat \<Rightarrow> string \<times> nat" where
  "munge_lines ufrag [] out replaced = (out, replaced)"
| "munge_lines ufrag (l # ls) out replaced =
     (let line = unwrap_or (strip_suffix_char CR l) l in
      if line = [] then munge_lines ufrag ls out replaced
      else if starts_with line ''a=ice-ufrag:''
      then munge_lines ufrag ls (out @ ''a=ice-ufrag:'' @ ufrag @ crlf) (replaced + 1)
      else if starts_with line ''a=ice-pwd:''
      then munge_lines ufrag ls (out @ ''a=ice-pwd:'' @ ufrag @ crlf) (replaced + 1)
      else munge_lines ufrag ls (out @ line @ crlf) replaced)"

definition munge_offer :: "string \<Rightarrow> string \<Rightarrow> string result" where
  "munge_offer sdp ufrag =
     (case munge_lines ufrag (split_on LF sdp) [] 0 of (out, replaced) \<Rightarrow>
        if replaced \<noteq> 2
        then Inl (''SDP offer missing ice-ufrag/ice-pwd (replaced '' @ show_nat replaced @ '')'')
        else Inr out)"

definition server_answer :: "string \<Rightarrow> u16 \<Rightarrow> string \<Rightarrow> string \<Rightarrow> string" where
  "server_answer ip port ufrag fingerprint_colon =
     (let v = if CHR '':'' \<in> set ip then ''IP6'' else ''IP4''; p = show_nat (unat port) in
      ''v=0'' @ crlf @
      ''o=- 0 0 IN '' @ v @ '' '' @ ip @ crlf @
      ''s=-'' @ crlf @
      ''t=0 0'' @ crlf @
      ''a=ice-lite'' @ crlf @
      ''m=application '' @ p @ '' UDP/DTLS/SCTP webrtc-datachannel'' @ crlf @
      ''c=IN '' @ v @ '' '' @ ip @ crlf @
      ''a=mid:0'' @ crlf @
      ''a=ice-options:ice2'' @ crlf @
      ''a=ice-ufrag:'' @ ufrag @ crlf @
      ''a=ice-pwd:'' @ ufrag @ crlf @
      ''a=fingerprint:sha-256 '' @ fingerprint_colon @ crlf @
      ''a=setup:passive'' @ crlf @
      ''a=sctp-port:5000'' @ crlf @
      ''a=max-message-size:5242880'' @ crlf @
      ''a=candidate:1467250027 1 UDP 1467250027 '' @ ip @ '' '' @ p @ '' typ host'' @ crlf @
      ''a=end-of-candidates'' @ crlf)"

text \<open>\<open>to_uppercase\<close> on ASCII letters; other characters are left as they are.\<close>

definition ascii_upper :: "char \<Rightarrow> char" where
  "ascii_upper c =
     (if 97 \<le> (of_char c :: nat) \<and> (of_char c :: nat) \<le> 122 then char_of ((of_char c :: nat) - 32) else c)"

definition fingerprint_to_colon_form :: "string \<Rightarrow> string" where
  "fingerprint_to_colon_form hex_fp =
     join '':'' (map (\<lambda>c. map ascii_upper (if is_utf8 c then c else [])) (chunks 2 hex_fp))"

section \<open>munge_offer as a map over the lines\<close>

text \<open>What an SDP parser sees: the lines of a text, without their line ends and the empty ones.\<close>

definition sdp_lines :: "string \<Rightarrow> string list" where
  "sdp_lines s = filter (\<lambda>l. l \<noteq> []) (map (\<lambda>l. unwrap_or (strip_suffix_char CR l) l) (split_on LF s))"

definition is_credential :: "string \<Rightarrow> bool" where
  "is_credential l \<longleftrightarrow> starts_with l ''a=ice-ufrag:'' \<or> starts_with l ''a=ice-pwd:''"

definition munge_line :: "string \<Rightarrow> string \<Rightarrow> string" where
  "munge_line ufrag l =
     (if starts_with l ''a=ice-ufrag:'' then ''a=ice-ufrag:'' @ ufrag
      else if starts_with l ''a=ice-pwd:'' then ''a=ice-pwd:'' @ ufrag else l)"

definition unlines :: "string list \<Rightarrow> string" where
  "unlines ls = concat (map (\<lambda>l. l @ crlf) ls)"

lemma munge_lines_eq:
  "munge_lines u ls out n =
     (let vs = filter (\<lambda>l. l \<noteq> []) (map (\<lambda>l. unwrap_or (strip_suffix_char CR l) l) ls) in
      (out @ unlines (map (munge_line u) vs), n + length (filter is_credential vs)))"
  by (induction u ls out n rule: munge_lines.induct)
    (simp_all add: Let_def munge_line_def is_credential_def unlines_def)

lemma munge_offer_eq:
  "munge_offer sdp u =
     (let vs = sdp_lines sdp; n = length (filter is_credential vs) in
      if n \<noteq> 2 then Inl (''SDP offer missing ice-ufrag/ice-pwd (replaced '' @ show_nat n @ '')'')
      else Inr (unlines (map (munge_line u) vs)))"
  by (simp add: munge_offer_def munge_lines_eq sdp_lines_def Let_def)

text \<open>Reading the lines back: line ends and line breaks inside a line are the only obstacle.\<close>

definition plain_line :: "string \<Rightarrow> bool" where
  "plain_line l \<longleftrightarrow> l \<noteq> [] \<and> LF \<notin> set l"

lemma strip_cr_snoc [simp]: "strip_suffix_char c (l @ [c]) = Some l"
  by (simp add: strip_suffix_char_def)

lemma sdp_lines_Cons: "plain_line l \<Longrightarrow> sdp_lines (l @ crlf @ s) = l # sdp_lines s"
  using split_on_append_sep [of LF "l @ [CR]" s]
  by (simp add: sdp_lines_def crlf_def plain_line_def)

lemma sdp_lines_Nil [simp]: "sdp_lines [] = []"
  by (simp add: sdp_lines_def strip_suffix_char_def)

lemma sdp_lines_unlines: "\<forall>l \<in> set ls. plain_line l \<Longrightarrow> sdp_lines (unlines ls) = ls"
  by (induction ls) (simp_all add: unlines_def sdp_lines_Cons)

lemma sdp_lines_plain:
  assumes "l \<in> set (sdp_lines s)"
  shows "plain_line l"
proof -
  from assms obtain p where p: "p \<in> set (split_on LF s)" and l: "l = unwrap_or (strip_suffix_char CR p) p" "l \<noteq> []"
    by (auto simp: sdp_lines_def)
  have "LF \<notin> set p" using p by (rule split_on_no_sep)
  then have "LF \<notin> set l"
    using l by (auto simp: strip_suffix_char_def unwrap_or_def dest: in_set_butlastD split: if_splits)
  with l show ?thesis by (simp add: plain_line_def)
qed

lemma munge_line_plain:
  assumes "plain_line l" and "LF \<notin> set u"
  shows "plain_line (munge_line u l)"
  using assms by (simp add: munge_line_def plain_line_def)

lemma munge_offer_lines:
  assumes "munge_offer sdp u = Inr out" and "LF \<notin> set u"
  shows "sdp_lines out = map (munge_line u) (sdp_lines sdp)"
    and "length (filter is_credential (sdp_lines sdp)) = 2"
proof -
  from assms(1) have out: "out = unlines (map (munge_line u) (sdp_lines sdp))"
    and two: "length (filter is_credential (sdp_lines sdp)) = 2"
    by (auto simp: munge_offer_eq Let_def split: if_splits)
  show "sdp_lines out = map (munge_line u) (sdp_lines sdp)"
    unfolding out by (rule sdp_lines_unlines) (use assms(2) in \<open>auto intro!: munge_line_plain dest: sdp_lines_plain\<close>)
  show "length (filter is_credential (sdp_lines sdp)) = 2" by (rule two)
qed

section \<open>server_answer\<close>

lemma plain_line_append_left: "plain_line a \<Longrightarrow> LF \<notin> set b \<Longrightarrow> plain_line (a @ b)"
  by (simp add: plain_line_def)

lemma show_nat_no_lf: "LF \<notin> set (show_nat n)"
proof (induction n rule: show_nat.induct)
  case (1 n)
  have d: "char_of (48 + m) \<noteq> LF" if "m < 10" for m :: nat
  proof
    assume "char_of (48 + m) = LF"
    then have "of_char (char_of (48 + m) :: char) = (10 :: nat)" by simp
    with that show False by simp
  qed
  show ?case
  proof (cases "n < 10")
    case True
    then show ?thesis using d [of n] by (metis show_nat_small list.set(1) list.set(2) singletonD)
  next
    case False
    with 1 d [of "n mod 10"] show ?thesis by (auto simp: show_nat_step)
  qed
qed

lemma server_answer_lines:
  fixes ip u fp :: string and port :: u16
  assumes "LF \<notin> set ip" and "LF \<notin> set u" and "LF \<notin> set fp"
  defines "v \<equiv> if CHR '':'' \<in> set ip then ''IP6'' else ''IP4''"
    and "p \<equiv> show_nat (unat port)"
  shows "sdp_lines (server_answer ip port u fp) =
    [''v=0'', ''o=- 0 0 IN '' @ v @ '' '' @ ip, ''s=-'', ''t=0 0'', ''a=ice-lite'',
     ''m=application '' @ p @ '' UDP/DTLS/SCTP webrtc-datachannel'', ''c=IN '' @ v @ '' '' @ ip,
     ''a=mid:0'', ''a=ice-options:ice2'', ''a=ice-ufrag:'' @ u, ''a=ice-pwd:'' @ u,
     ''a=fingerprint:sha-256 '' @ fp, ''a=setup:passive'', ''a=sctp-port:5000'',
     ''a=max-message-size:5242880'', ''a=candidate:1467250027 1 UDP 1467250027 '' @ ip @ '' '' @ p @ '' typ host'',
     ''a=end-of-candidates'']" (is "_ = ?ls")
proof -
  have "server_answer ip port u fp = unlines ?ls"
    by (simp add: server_answer_def unlines_def v_def p_def Let_def)
  moreover have "LF \<notin> set v" by (simp add: v_def)
  then have "\<forall>l \<in> set ?ls. plain_line l"
    using assms(1,2,3) show_nat_no_lf [of "unat port"] by (simp add: plain_line_def p_def)
  ultimately show ?thesis by (simp only: sdp_lines_unlines)
qed

section \<open>fingerprint_to_colon_form\<close>

lemma join_colon_filter:
  "\<forall>p \<in> set ps. CHR '':'' \<notin> set p \<Longrightarrow> filter (\<lambda>c. c \<noteq> CHR '':'') (join '':'' ps) = concat ps"
  by (induction "'':''" ps rule: join.induct) (auto simp: filter_id_conv)

lemma length_join: "ps \<noteq> [] \<Longrightarrow> length (join [c] ps) = sum_list (map length ps) + (length ps - 1)"
  by (induction "[c]" ps rule: join.induct) auto

lemma ascii_upper_colon: "ascii_upper c = CHR '':'' \<longleftrightarrow> c = CHR '':''"
proof -
  have "char_of (n - 32) \<noteq> CHR '':''" if "97 \<le> n" "n \<le> 122" for n :: nat
  proof
    assume "char_of (n - 32) = CHR '':''"
    then have "of_char (char_of (n - 32) :: char) = (58 :: nat)" by simp
    with that show False by simp
  qed
  then show ?thesis by (auto simp: ascii_upper_def)
qed

lemma set_chunks_subset: "c \<in> set (chunks n xs) \<Longrightarrow> set c \<subseteq> set xs"
proof (induction n xs rule: chunks.induct)
  case (1 n xs)
  then show ?case
    by (auto simp: chunks.simps [of n xs] dest: in_set_takeD in_set_dropD split: if_splits)
qed

lemma ascii_chunk: "is_ascii s \<Longrightarrow> c \<in> set (chunks n s) \<Longrightarrow> is_utf8 c"
  using set_chunks_subset by (fastforce simp: is_ascii_def intro!: ascii_is_utf8)

lemma colon_form_ascii:
  assumes "is_ascii s"
  shows "fingerprint_to_colon_form s = join '':'' (map (map ascii_upper) (chunks 2 s))"
  unfolding fingerprint_to_colon_form_def
  by (rule arg_cong [where f = "join '':''"]) (auto simp: ascii_chunk [OF assms])

section \<open>Properties\<close>

text \<open>
  \<open>munge_offer\<close> succeeds on exactly the offers with two credential lines, and its output, read
  line by line, is the offer with the value of each credential line replaced by the ufrag, every
  other non-empty line unchanged and in its place. (A ufrag with a line feed would break the lines;
  the client's is 64 hex digits.)
\<close>

lemma munge_offer_spec:
  assumes "LF \<notin> set ufrag"
  shows "(case munge_offer sdp ufrag of
            Inl _ \<Rightarrow> length (filter is_credential (sdp_lines sdp)) \<noteq> 2
          | Inr out \<Rightarrow> length (filter is_credential (sdp_lines sdp)) = 2
              \<and> sdp_lines out = map (munge_line ufrag) (sdp_lines sdp))"
proof (cases "munge_offer sdp ufrag")
  case (Inl e)
  then show ?thesis by (auto simp: munge_offer_eq Let_def split: if_splits)
next
  case (Inr out)
  with munge_offer_lines [OF Inr assms] show ?thesis by simp
qed

theorem munge_offer_spec_witness:
  "LF \<notin> set ''ab'' \<and>
   munge_offer (''a=ice-ufrag:x'' @ crlf @ ''a=ice-pwd:y'' @ crlf @ ''s=-'') ''ab'' =
     Inr (''a=ice-ufrag:ab'' @ crlf @ ''a=ice-pwd:ab'' @ crlf @ ''s=-'' @ crlf) \<and>
   sdp_lines (''a=ice-ufrag:ab'' @ crlf @ ''a=ice-pwd:ab'' @ crlf @ ''s=-'' @ crlf) =
     [''a=ice-ufrag:ab'', ''a=ice-pwd:ab'', ''s=-'']"
proof -
  let ?sdp = "''a=ice-ufrag:x'' @ crlf @ ''a=ice-pwd:y'' @ crlf @ ''s=-''"
  have u: "LF \<notin> set ''ab''" by simp
  have m: "munge_offer ?sdp ''ab'' =
      Inr (''a=ice-ufrag:ab'' @ crlf @ ''a=ice-pwd:ab'' @ crlf @ ''s=-'' @ crlf)"
    by (simp add: munge_offer_def crlf_def strip_suffix_char_def starts_with_def)
  have l: "map (munge_line ''ab'') (sdp_lines ?sdp) = [''a=ice-ufrag:ab'', ''a=ice-pwd:ab'', ''s=-'']"
    by (simp add: sdp_lines_def crlf_def strip_suffix_char_def starts_with_def munge_line_def)
  show ?thesis using munge_offer_spec [OF u, of ?sdp] m l by simp
qed

text \<open>
  The counter does not tell the two attributes apart, and counts over all media sections: an
  offer with two \<open>a=ice-ufrag:\<close> lines and no \<open>a=ice-pwd:\<close> is accepted, one with both attributes in
  each of two sections is refused as \<open>missing\<close> them.
\<close>

lemma munge_offer_counts_lines_only:
  "munge_offer (''a=ice-ufrag:x'' @ crlf @ ''a=ice-ufrag:y'' @ crlf) ufrag =
     Inr (''a=ice-ufrag:'' @ ufrag @ crlf @ ''a=ice-ufrag:'' @ ufrag @ crlf) \<and>
   munge_offer (''a=ice-ufrag:x'' @ crlf @ ''a=ice-pwd:y'' @ crlf @
       ''a=ice-ufrag:x'' @ crlf @ ''a=ice-pwd:y'' @ crlf) ufrag =
     Inl ''SDP offer missing ice-ufrag/ice-pwd (replaced 4)''"
  by (simp add: munge_offer_def crlf_def strip_suffix_char_def starts_with_def show_nat_small char_of_def bit_0)



text \<open>
  Without that hypothesis the answer is not the node's alone: an address with a line break (the
  discovery lane hands out addresses as unchecked strings) adds lines of its own, here a second
  fingerprint before the pinned one.
\<close>

lemma server_answer_injection:
  "filter (\<lambda>l. starts_with l ''a=fingerprint:'')
     (sdp_lines (server_answer (''1.2.3.4'' @ crlf @ ''a=fingerprint:sha-256 00'') 1 ''u'' ''AA'')) =
   [''a=fingerprint:sha-256 00'', ''a=fingerprint:sha-256 00'', ''a=fingerprint:sha-256 AA'',
    ''a=fingerprint:sha-256 00 1 typ host'']"
proof -
  let ?ip = "''1.2.3.4'' @ crlf @ ''a=fingerprint:sha-256 00''"
  let ?ls = "[''v=0'', ''o=- 0 0 IN IP6 1.2.3.4'', ''a=fingerprint:sha-256 00'', ''s=-'', ''t=0 0'',
     ''a=ice-lite'', ''m=application 1 UDP/DTLS/SCTP webrtc-datachannel'', ''c=IN IP6 1.2.3.4'',
     ''a=fingerprint:sha-256 00'', ''a=mid:0'', ''a=ice-options:ice2'', ''a=ice-ufrag:u'', ''a=ice-pwd:u'',
     ''a=fingerprint:sha-256 AA'', ''a=setup:passive'', ''a=sctp-port:5000'',
     ''a=max-message-size:5242880'', ''a=candidate:1467250027 1 UDP 1467250027 1.2.3.4'',
     ''a=fingerprint:sha-256 00 1 typ host'', ''a=end-of-candidates'']"
  have "server_answer ?ip 1 ''u'' ''AA'' = unlines ?ls"
    by (simp add: server_answer_def unlines_def crlf_def show_nat_small char_of_def bit_0)
  moreover have "sdp_lines (unlines ?ls) = ?ls"
    by (rule sdp_lines_unlines) (simp add: plain_line_def)
  ultimately show ?thesis by (simp only:) (simp add: starts_with_def)
qed

text \<open>
  The colon form of a hexadecimal fingerprint loses nothing: without the colons it is the input
  in upper case, and for \<open>2n\<close> digits it has \<open>3n - 1\<close> characters, a colon after every second digit.
\<close>

lemma colon_form_roundtrip:
  assumes "is_ascii s" and "CHR '':'' \<notin> set s" and "s \<noteq> []"
  shows "filter (\<lambda>c. c \<noteq> CHR '':'') (fingerprint_to_colon_form s) = map ascii_upper s
     \<and> length (fingerprint_to_colon_form s) = length s + (length s - 1) div 2"
proof -
  let ?ps = "map (map ascii_upper) (chunks 2 s)"
  have ps: "fingerprint_to_colon_form s = join '':'' ?ps" by (rule colon_form_ascii [OF assms(1)])
  have "\<forall>p \<in> set ?ps. CHR '':'' \<notin> set p"
    using assms(2) by (auto simp: ascii_upper_colon image_iff dest!: set_chunks_subset)
      (metis ascii_upper_colon subsetD)
  then have f: "filter (\<lambda>c. c \<noteq> CHR '':'') (join '':'' ?ps) = map ascii_upper s"
    by (simp add: join_colon_filter concat_chunks flip: map_concat)
  have "sum_list (map length ?ps) = length s"
    using arg_cong [OF concat_chunks [of 2 s], of length] by (simp add: length_concat comp_def)
  moreover have "length (chunks 2 s) = (length s + 1) div 2" by (simp add: length_chunks)
  moreover have "?ps \<noteq> []" using assms(3) by (simp add: chunks_step)
  ultimately have "length (join '':'' ?ps) = length s + ((length s + 1) div 2 - 1)"
    by (simp add: length_join)
  moreover have "(length s + 1) div 2 - 1 = (length s - 1) div 2" using assms(3) by (cases s) auto
  ultimately show ?thesis by (simp only: ps f)
qed

theorem colon_form_roundtrip_witness:
  "filter (\<lambda>c. c \<noteq> CHR '':'') (fingerprint_to_colon_form ''a1B2c3'') = ''A1B2C3'' \<and>
   length (fingerprint_to_colon_form ''a1B2c3'') = 8"
  using colon_form_roundtrip [of "''a1B2c3''"] by (simp add: is_ascii_def ascii_upper_def char_of_def bit_0)

end
