(* ===== verification/Crates.thy ===== *)
theory Crates
  imports Prelude
begin

text \<open>
  The third-party crates the client links against, other than the serde formats: one record of
  their functions, the argument \<open>cr\<close> of every definition that calls one. Nothing is assumed of them
  here; what a property relies on is one of the named predicates below, each the documented
  behaviour of the crate.

  \<open>try_keygen\<close> is drawn from the operating system's randomness: the argument numbers the draws.
\<close>

record crates =
  blake3_hash :: "byte list \<Rightarrow> byte list"
  blake3_derive_key :: "string \<Rightarrow> byte list \<Rightarrow> byte list"
  keccak256 :: "byte list \<Rightarrow> byte list"
  hex_encode :: "byte list \<Rightarrow> string"
  hex_decode :: "string \<Rightarrow> byte list result"
  aead_encrypt :: "byte list \<Rightarrow> byte list \<Rightarrow> byte list \<Rightarrow> byte list option"
  aead_decrypt :: "byte list \<Rightarrow> byte list \<Rightarrow> byte list \<Rightarrow> byte list option"
  kem_try_keygen :: "nat \<Rightarrow> (byte list \<times> byte list) result"
  kem_ct_ok :: "byte list \<Rightarrow> bool"
  kem_try_decaps :: "byte list \<Rightarrow> byte list \<Rightarrow> byte list option"
  dsa_pk_ok :: "byte list \<Rightarrow> bool"
  dsa_verify :: "byte list \<Rightarrow> byte list \<Rightarrow> byte list \<Rightarrow> byte list \<Rightarrow> bool"

text \<open>BLAKE3 and Keccak-256 digests are 32 bytes.\<close>

definition digests_32 :: "crates \<Rightarrow> bool" where
  "digests_32 cr \<longleftrightarrow> (\<forall>m. length (blake3_hash cr m) = 32) \<and> (\<forall>m. length (keccak256 cr m) = 32)"

text \<open>ChaCha20-Poly1305: decrypting what was encrypted under the same key and nonce gives it back.\<close>

definition aead_correct :: "crates \<Rightarrow> bool" where
  "aead_correct cr \<longleftrightarrow> (\<forall>k n p c. aead_encrypt cr k n p = Some c \<longrightarrow> aead_decrypt cr k n c = Some p)"

text \<open>The \<open>hex\<close> crate: lower-case digits, two per byte; decoding accepts both cases.\<close>

definition lower_hex :: "char \<Rightarrow> bool" where
  "lower_hex c \<longleftrightarrow> c \<in> set ''0123456789abcdef''"

definition hex_correct :: "crates \<Rightarrow> bool" where
  "hex_correct cr \<longleftrightarrow>
     (\<forall>bs. hex_decode cr (hex_encode cr bs) = Inr bs \<and> length (hex_encode cr bs) = 2 * length bs
        \<and> (\<forall>c \<in> set (hex_encode cr bs). lower_hex c))"

text \<open>An ML-KEM-768 encapsulation key is 1184 bytes.\<close>

definition kem_correct :: "crates \<Rightarrow> bool" where
  "kem_correct cr \<longleftrightarrow> (\<forall>n ek dk. kem_try_keygen cr n = Inr (ek, dk) \<longrightarrow> length ek = 1184)"

section \<open>An instance\<close>

text \<open>
  One record of functions with all of these properties, for the witnesses: hexadecimal as the crate
  documents it, and stand-ins for the cryptography (a digest that is the number its input stands
  for, modulo \<open>2^256\<close>; a cipher that appends the nonce and checks it). It makes no claim about the
  real primitives.
\<close>

definition hex_digit_val :: "char \<Rightarrow> nat option" where
  "hex_digit_val c = (let n = of_char c :: nat in
     if 48 \<le> n \<and> n \<le> 57 then Some (n - 48)
     else if 97 \<le> n \<and> n \<le> 102 then Some (n - 87)
     else if 65 \<le> n \<and> n \<le> 70 then Some (n - 55) else None)"

fun hex_dec :: "string \<Rightarrow> byte list result" where
  "hex_dec [] = Inr []"
| "hex_dec [c] = Inl ''Odd number of digits''"
| "hex_dec (c # d # s) =
     (case (hex_digit_val c, hex_digit_val d) of
        (Some x, Some y) \<Rightarrow> res_bind (hex_dec s) (\<lambda>bs. Inr (of_nat (16 * x + y) # bs))
      | _ \<Rightarrow> Inl ''Invalid character'')"

definition hex_enc :: "byte list \<Rightarrow> string" where
  "hex_enc bs = concat (map show_byte_hex bs)"

definition test_crates :: crates where
  "test_crates = \<lparr>
     blake3_hash = (\<lambda>m. be_bytes 32 (be_val m)),
     blake3_derive_key = (\<lambda>ctx m. m),
     keccak256 = (\<lambda>m. be_bytes 32 (be_val m)),
     hex_encode = hex_enc,
     hex_decode = hex_dec,
     aead_encrypt = (\<lambda>k n p. Some (n @ p)),
     aead_decrypt = (\<lambda>k n c. strip_prefix n c),
     kem_try_keygen = (\<lambda>n. Inr (replicate 1184 7, [9])),
     kem_ct_ok = (\<lambda>ct. True),
     kem_try_decaps = (\<lambda>dk ct. Some (take 32 ct)),
     dsa_pk_ok = (\<lambda>pk. True),
     dsa_verify = (\<lambda>pk m sig ctx. ctx = [])\<rparr>"

lemma test_crates_sel [simp]:
  "blake3_hash test_crates m = be_bytes 32 (be_val m)"
  "blake3_derive_key test_crates s m = m"
  "keccak256 test_crates m = be_bytes 32 (be_val m)"
  "hex_encode test_crates = hex_enc"
  "hex_decode test_crates = hex_dec"
  "aead_encrypt test_crates k n p = Some (n @ p)"
  "aead_decrypt test_crates k n p = strip_prefix n p"
  "kem_try_keygen test_crates i = Inr (replicate 1184 7, [9])"
  "kem_ct_ok test_crates m"
  "kem_try_decaps test_crates m k = Some (take 32 k)"
  "dsa_pk_ok test_crates m"
  "dsa_verify test_crates m k n p \<longleftrightarrow> p = []"
  by (simp_all add: test_crates_def)

lemma strip_prefix_append [simp]: "strip_prefix p (p @ s) = Some s"
  by (simp add: res_iff)

lemma hex_digits_ok:
  "list_all (\<lambda>n. hex_digit_val (hex_digit n) = Some n \<and> lower_hex (hex_digit n)) [0..<16]"
  by (simp add: upt_rec hex_digit_def hex_digit_val_def lower_hex_def char_of_def bit_0)

lemma hex_digit_val_digit: "n < 16 \<Longrightarrow> hex_digit_val (hex_digit n) = Some n"
  using hex_digits_ok by (simp add: list_all_iff)

lemma lower_hex_digit: "n < 16 \<Longrightarrow> lower_hex (hex_digit n)"
  using hex_digits_ok by (simp add: list_all_iff)

lemma hex_dec_enc: "hex_dec (hex_enc bs) = Inr bs"
proof (induction bs)
  case (Cons b bs)
  have "unat b div 16 < 16" using unat_byte_lt [of b] by (simp add: div_less_iff_less_mult)
  with Cons show ?case
    by (simp add: hex_enc_def show_byte_hex_def hex_digit_val_digit)
qed (simp add: hex_enc_def)

lemma hex_enc_lower: "c \<in> set (hex_enc bs) \<Longrightarrow> lower_hex c"
proof -
  have "unat b div 16 < 16" for b :: byte using unat_byte_lt [of b] by (simp add: div_less_iff_less_mult)
  then show "c \<in> set (hex_enc bs) \<Longrightarrow> lower_hex c"
    by (auto simp: hex_enc_def show_byte_hex_def lower_hex_digit)
qed

lemma length_hex_enc [simp]: "length (hex_enc bs) = 2 * length bs"
  by (induction bs) (simp_all add: hex_enc_def show_byte_hex_def)

lemma test_crates_digests: "digests_32 test_crates"
  by (simp add: digests_32_def)

lemma test_crates_aead: "aead_correct test_crates"
  by (simp add: aead_correct_def)

lemma test_crates_hex: "hex_correct test_crates"
  by (simp add: hex_correct_def hex_dec_enc hex_enc_lower)

lemma test_crates_kem: "kem_correct test_crates"
  by (simp add: kem_correct_def)

end
