(* ===== verification/Transport.thy ===== *)
theory Transport
  imports Framing Sdp Crates
begin

text \<open>
  \<open>src/webrtc.rs\<close>: the framed transport over a data channel. What the browser does is a parameter: a
  \<open>link\<close> says what a data channel delivers once certain messages have been sent on it, and a
  \<open>peer_connection\<close> how the promises of one \<open>RTCPeerConnection\<close> settle. The part that is the client's,
  which messages are cut, buffered, put together and described, is modelled step by step.
\<close>

section \<open>Data channels\<close>

text \<open>The data of a \<open>MessageEvent\<close>; \<open>on_message\<close> drops everything but array buffers.\<close>

datatype dc_data = ArrayBuffer "byte list" | OtherData

text \<open>
  \<open>delivers\<close>: every message that arrives if nothing more than the given messages is ever sent;
  \<open>hangs_up\<close>: whether the channel closes after them; \<open>send_fault\<close>: the error the \<open>n\<close>-th \<open>send\<close> call
  throws, if any.
\<close>

record link =
  delivers :: "byte list list \<Rightarrow> dc_data list"
  hangs_up :: "byte list list \<Rightarrow> bool"
  send_fault :: "nat \<Rightarrow> string option"

record Transport =
  link :: link
  sent :: "byte list list"
  sends :: nat
  taken :: nat
  frame_buf :: FrameBuf

definition from_open :: "link \<Rightarrow> Transport" where
  "from_open l = \<lparr>link = l, sent = [], sends = 0, taken = 0, frame_buf = FrameBuf_new\<rparr>"

fun on_message :: "dc_data \<Rightarrow> byte list option" where
  "on_message (ArrayBuffer bytes) = Some bytes"
| "on_message OtherData = None"

text \<open>What has been put on the unbounded queue behind \<open>receiver\<close>, and the part of it not yet taken.\<close>

definition receiver :: "Transport \<Rightarrow> byte list list" where
  "receiver t = List.map_filter on_message (delivers (link t) (sent t))"

definition untaken :: "Transport \<Rightarrow> byte list list" where
  "untaken t = drop (taken t) (receiver t)"

section \<open>Operations\<close>

fun send_messages :: "byte list list \<Rightarrow> (Transport, unit) async" where
  "send_messages [] t = ok () t"
| "send_messages (m # ms) t =
     (case send_fault (link t) (sends t) of
        Some e \<Rightarrow> fail (''DataChannel send: '' @ e) (t\<lparr>sends := Suc (sends t)\<rparr>)
      | None \<Rightarrow> send_messages ms (t\<lparr>sends := Suc (sends t), sent := sent t @ [m]\<rparr>))"

definition send_frame :: "byte list \<Rightarrow> (Transport, unit) async" where
  "send_frame payload = send_messages (split_messages (encode_frame payload))"

text \<open>
  The loop of \<open>recv_frame\<close>, over the buffer's push, the messages still to come and whether the channel
  closes after them; it gives back the messages it did not take.
\<close>

fun read_loop ::
    "('b \<Rightarrow> byte list \<Rightarrow> byte list option result \<times> 'b) \<Rightarrow> 'b \<Rightarrow> byte list list \<Rightarrow> bool
      \<Rightarrow> byte list result poll \<times> 'b \<times> byte list list" where
  "read_loop feed b msgs closes =
     (case feed b [] of
        (Inl e, b1) \<Rightarrow> (Ready (Inl e), b1, msgs)
      | (Inr (Some frame), b1) \<Rightarrow> (Ready (Inr frame), b1, msgs)
      | (Inr None, b1) \<Rightarrow>
          (case msgs of
             [] \<Rightarrow> (if closes then Ready (Inl ''connection closed'') else Pending, b1, [])
           | raw # msgs1 \<Rightarrow>
               (case feed b1 raw of
                  (Inl e, b2) \<Rightarrow> (Ready (Inl e), b2, msgs1)
                | (Inr (Some frame), b2) \<Rightarrow> (Ready (Inr frame), b2, msgs1)
                | (Inr None, b2) \<Rightarrow> read_loop feed b2 msgs1 closes)))"

declare read_loop.simps [simp del]

definition recv_frame :: "(Transport, byte list) async" where
  "recv_frame t =
     (case read_loop push (frame_buf t) (untaken t) (hangs_up (link t) (sent t)) of
        (r, fb, rest) \<Rightarrow>
          (r, t\<lparr>frame_buf := fb, taken := taken t + (length (untaken t) - length rest)\<rparr>))"

section \<open>Peer connections\<close>

text \<open>
  How the calls on one peer connection turn out: the constructor on its ICE server URLs, the random
  bytes, the promises of \<open>createOffer\<close>, \<open>setLocalDescription\<close> and \<open>setRemoteDescription\<close>, and the channel
  itself. What changes while the client waits is a function of the milliseconds since the wait began: the
  state of ICE gathering, with the times its change event fires, and the local description; the ready
  state of the channel, with the time its \<open>open\<close> or \<open>error\<close> event fires first, if ever. The channel depends
  on the descriptions that were set, which is how a certificate fingerprint takes effect. An error is
  given as the text \<open>{e:?}\<close> prints.
\<close>

record peer_connection =
  pc_new :: "string list \<Rightarrow> unit result"
  pc_random :: "byte list result"
  pc_create_offer :: "string result poll"
  pc_set_local :: "string \<Rightarrow> unit result poll"
  pc_ice_state :: "string \<Rightarrow> nat \<Rightarrow> string"
  pc_ice_events :: "string \<Rightarrow> nat list"
  pc_local_description :: "string \<Rightarrow> nat \<Rightarrow> string option"
  pc_set_remote :: "string \<Rightarrow> string \<Rightarrow> unit result poll"
  pc_ready_state :: "string \<Rightarrow> string \<Rightarrow> nat \<Rightarrow> string"
  pc_channel_event :: "string \<Rightarrow> string \<Rightarrow> nat option"
  pc_link :: "string \<Rightarrow> string \<Rightarrow> link"

definition js_future :: "string \<Rightarrow> 'a result poll \<Rightarrow> ('w, 'a) async" where
  "js_future what p w =
     (case p of Pending \<Rightarrow> (Pending, w) | Ready r \<Rightarrow> (Ready (map_err (\<lambda>e. what @ e) r), w))"

text \<open>\<open>select\<close> of a one-shot receiver and a timeout: when the wait is over.\<close>

definition select_timeout :: "nat option \<Rightarrow> nat \<Rightarrow> nat" where
  "select_timeout rx timeout = (case rx of Some time \<Rightarrow> min time timeout | None \<Rightarrow> timeout)"

definition wait_for_ice_complete :: "peer_connection \<Rightarrow> string \<Rightarrow> nat" where
  "wait_for_ice_complete pc local =
     (if pc_ice_state pc local 0 = ''Complete'' then 0
      else select_timeout (find (\<lambda>time. pc_ice_state pc local time = ''Complete'') (pc_ice_events pc local)) 5000)"

definition open_wait :: "peer_connection \<Rightarrow> string \<Rightarrow> string \<Rightarrow> nat" where
  "open_wait pc local remote =
     (if pc_ready_state pc local remote 0 = ''Open'' then 0
      else select_timeout (pc_channel_event pc local remote) 15000)"

definition wait_for_open :: "peer_connection \<Rightarrow> string \<Rightarrow> string \<Rightarrow> ('w, unit) async" where
  "wait_for_open pc local remote =
     (let state = pc_ready_state pc local remote (open_wait pc local remote) in
      if state = ''Open'' then ok () else fail (''DataChannel did not open (state: '' @ state @ '')''))"

definition transport_connect ::
    "crates \<Rightarrow> peer_connection \<Rightarrow> string \<Rightarrow> u16 \<Rightarrow> string \<Rightarrow> ('w, Transport) async" where
  "transport_connect cr pc ip port fingerprint_hex =
     await (lift_res (map_err (\<lambda>e. ''RTCPeerConnection: '' @ e) (pc_new pc []))) (\<lambda>_.
     await (lift_res (map_err (\<lambda>e. ''getrandom: '' @ e) (pc_random pc))) (\<lambda>ufrag_bytes.
     let ufrag = hex_encode cr ufrag_bytes in
     await (js_future ''createOffer: '' (pc_create_offer pc)) (\<lambda>offer.
     await (lift_res (munge_offer offer ufrag)) (\<lambda>munged_sdp.
     await (js_future ''setLocalDescription: '' (pc_set_local pc munged_sdp)) (\<lambda>_.
     let colon_fp = fingerprint_to_colon_form fingerprint_hex;
         answer_sdp = server_answer ip port ufrag colon_fp in
     await (js_future ''setRemoteDescription: '' (pc_set_remote pc munged_sdp answer_sdp)) (\<lambda>_.
     await (wait_for_open pc munged_sdp answer_sdp) (\<lambda>_.
     ok (from_open (pc_link pc munged_sdp answer_sdp)))))))))"

definition transport_connect_via_relay ::
    "peer_connection \<Rightarrow> string \<Rightarrow> (string \<Rightarrow> ('w, string) async) \<Rightarrow> ('w, Transport) async" where
  "transport_connect_via_relay pc stun exchange =
     await (lift_res (map_err (\<lambda>e. ''RTCPeerConnection: '' @ e) (pc_new pc [''stun:'' @ stun]))) (\<lambda>_.
     await (js_future ''createOffer: '' (pc_create_offer pc)) (\<lambda>offer.
     await (js_future ''setLocalDescription: '' (pc_set_local pc offer)) (\<lambda>_.
     await (lift_res (case pc_local_description pc offer (wait_for_ice_complete pc offer) of
              None \<Rightarrow> Inl ''no local description after gathering'' | Some sdp \<Rightarrow> Inr sdp)) (\<lambda>offer_sdp.
     await (exchange offer_sdp) (\<lambda>answer_sdp.
     await (js_future ''setRemoteDescription: '' (pc_set_remote pc offer answer_sdp)) (\<lambda>_.
     await (wait_for_open pc offer answer_sdp) (\<lambda>_.
     ok (from_open (pc_link pc offer answer_sdp)))))))))"

section \<open>Sending\<close>

lemma send_messages_sent:
  "case send_messages ms t of
     (Ready (Inr u), t') \<Rightarrow> sent t' = sent t @ ms
   | (Ready (Inl e), t') \<Rightarrow> (\<exists>k < length ms. sent t' = sent t @ take k ms)
   | (Pending, t') \<Rightarrow> False"
proof (induction ms arbitrary: t)
  case (Cons m ms)
  show ?case
  proof (cases "send_fault (link t) (sends t)")
    case None
    let ?t = "t\<lparr>sends := Suc (sends t), sent := sent t @ [m]\<rparr>"
    from None have eq: "send_messages (m # ms) t = send_messages ms ?t" by simp
    obtain r t' where s: "send_messages ms ?t = (r, t')" by force
    show ?thesis
    proof (cases r)
      case (Ready x)
      show ?thesis
      proof (cases x)
        case (Inl e)
        with Cons [of ?t] s Ready obtain k where "k < length ms" "sent t' = sent t @ [m] @ take k ms" by auto
        then have "Suc k < length (m # ms) \<and> sent t' = sent t @ take (Suc k) (m # ms)" by simp
        then show ?thesis unfolding eq s Ready Inl by (auto simp del: take_Suc_Cons)
      next
        case (Inr u)
        with Cons [of ?t] s Ready have "sent t' = sent t @ m # ms" by simp
        then show ?thesis unfolding eq s Ready Inr by simp
      qed
    next
      case Pending
      with Cons [of ?t] s show ?thesis by simp
    qed
  qed (auto simp: fail_def intro!: exI [of _ 0])
qed (simp add: ok_def)

lemma send_messages_unchanged:
  "send_messages ms t = (r, t') \<Longrightarrow> link t' = link t \<and> taken t' = taken t \<and> frame_buf t' = frame_buf t"
  by (induction ms arbitrary: t) (force simp: ok_def fail_def split: option.splits)+

lemma send_messages_faultless:
  "\<forall>n. send_fault (link t) n = None \<Longrightarrow> fst (send_messages ms t) = Ready (Inr ())"
  by (induction ms arbitrary: t) (simp_all add: ok_def)

section \<open>Receiving\<close>

context incremental_parser begin

lemma decided:
  assumes "feed b data = (x, b1)" and "x \<noteq> Inr None"
  shows "parse (contents b @ data @ later) = (x, contents b1 @ later)"
proof (cases x)
  case (Inl e)
  with error_stable [of "contents b @ data" e "contents b1" later] feed_parse [OF assms(1)] show ?thesis by simp
next
  case (Inr opt)
  with assms(2) obtain p where "x = Inr (Some p)" by auto
  with frame_stable [of "contents b @ data" p "contents b1" later] feed_parse [OF assms(1)] show ?thesis by simp
qed

lemma read_loop_parse:
  assumes "read_loop feed b msgs closes = (r, b', rest)"
  shows "(case parse (contents b @ concat msgs) of
      (Inl e, q) \<Rightarrow> r = Ready (Inl e) \<and> contents b' @ concat rest = q
    | (Inr (Some p), q) \<Rightarrow> r = Ready (Inr p) \<and> contents b' @ concat rest = q
    | (Inr None, q) \<Rightarrow> r = (if closes then Ready (Inl ''connection closed'') else Pending)
        \<and> rest = [] \<and> contents b' = q) \<and> (\<exists>k \<le> length msgs. rest = drop k msgs)"
  using assms
proof (induction msgs arbitrary: b)
  case Nil
  obtain x b1 where f: "feed b [] = (x, b1)" by force
  from feed_parse [OF f] Nil show ?case
    by (cases x; cases "projr x") (auto simp: read_loop.simps [of feed b] f split: if_splits)
next
  case (Cons raw msgs)
  obtain x b1 where f: "feed b [] = (x, b1)" by force
  show ?case
  proof (cases "x = Inr None")
    case False
    from decided [OF f False, of "concat (raw # msgs)"] Cons.prems False f show ?thesis
      by (cases x; cases "projr x") (auto simp: read_loop.simps [of feed b] intro!: exI [of _ 0])
  next
    case x: True
    have c1: "contents b1 = contents b" using undecided feed_parse [OF f] x by fastforce
    obtain y b2 where g: "feed b1 raw = (y, b2)" by force
    show ?thesis
    proof (cases "y = Inr None")
      case False
      from decided [OF g False, of "concat msgs"] Cons.prems False x f g c1 show ?thesis
        by (cases y; cases "projr y") (auto simp: read_loop.simps [of feed b] intro!: exI [of _ 1])
    next
      case y: True
      have c2: "contents b2 = contents b @ raw" using undecided feed_parse [OF g] y c1 by fastforce
      have rest: "read_loop feed b2 msgs closes = (r, b', rest)"
        using Cons.prems x y f g by (simp add: read_loop.simps [of feed b])
      from Cons.IH [OF this] obtain k where "k \<le> length msgs" "rest = drop k msgs" by blast
      then have "\<exists>k \<le> length (raw # msgs). rest = drop k (raw # msgs)"
        by (intro exI [of _ "Suc k"]) simp
      with Cons.IH [OF rest] show ?thesis by (simp add: c2)
    qed
  qed
qed

end

definition pending_bytes :: "Transport \<Rightarrow> byte list" where
  "pending_bytes t = buf (frame_buf t) @ concat (untaken t)"

lemma recv_frame_parse:
  assumes "recv_frame t = (r, t')"
  shows "case parse_frame (pending_bytes t) of
      (Inl e, q) \<Rightarrow> r = Ready (Inl e) \<and> pending_bytes t' = q
    | (Inr (Some p), q) \<Rightarrow> r = Ready (Inr p) \<and> pending_bytes t' = q
    | (Inr None, q) \<Rightarrow> r = (if hangs_up (link t) (sent t) then Ready (Inl ''connection closed'') else Pending)
        \<and> pending_bytes t' = q"
    and "link t' = link t" and "sent t' = sent t" and "sends t' = sends t"
proof -
  obtain fb rest where rl: "read_loop push (frame_buf t) (untaken t) (hangs_up (link t) (sent t)) = (r, fb, rest)"
    and t': "t' = t\<lparr>frame_buf := fb, taken := taken t + (length (untaken t) - length rest)\<rparr>"
    using assms by (auto simp: recv_frame_def split: prod.splits)
  note parse = framing.read_loop_parse [OF rl]
  then obtain k where k: "k \<le> length (untaken t)" "rest = drop k (untaken t)" by blast
  then have "length (untaken t) - length rest = k" by simp
  then have "untaken t' = rest"
    by (simp add: t' k(2) untaken_def receiver_def add.commute)
  then have "pending_bytes t' = buf fb @ concat rest" by (simp add: pending_bytes_def t')
  with parse show "case parse_frame (pending_bytes t) of
      (Inl e, q) \<Rightarrow> r = Ready (Inl e) \<and> pending_bytes t' = q
    | (Inr (Some p), q) \<Rightarrow> r = Ready (Inr p) \<and> pending_bytes t' = q
    | (Inr None, q) \<Rightarrow> r = (if hangs_up (link t) (sent t) then Ready (Inl ''connection closed'') else Pending)
        \<and> pending_bytes t' = q"
    by (auto simp: pending_bytes_def [of t] split: prod.splits sum.splits option.splits)
qed (use assms in \<open>auto simp: recv_frame_def split: prod.splits\<close>)

lemma recv_frame_iff:
  "recv_frame t = (Ready (Inr p), t') \<Longrightarrow> frame_payload p \<and> pending_bytes t = encode_frame p @ pending_bytes t'"
  "frame_payload p \<Longrightarrow> pending_bytes t = encode_frame p @ rest \<Longrightarrow>
     \<exists>t'. recv_frame t = (Ready (Inr p), t') \<and> pending_bytes t' = rest"
proof -
  assume "recv_frame t = (Ready (Inr p), t')"
  from recv_frame_parse(1) [OF this] have "parse_frame (pending_bytes t) = (Inr (Some p), pending_bytes t')"
    by (auto split: prod.splits sum.splits option.splits if_splits)
  with parse_frame_Some show "frame_payload p \<and> pending_bytes t = encode_frame p @ pending_bytes t'" by blast
next
  assume p: "frame_payload p" "pending_bytes t = encode_frame p @ rest"
  obtain r t' where r: "recv_frame t = (r, t')" by force
  from recv_frame_parse(1) [OF r] p parse_frame_encoded [OF p(1), of rest]
  have "r = Ready (Inr p) \<and> pending_bytes t' = rest" by simp
  with r show "\<exists>t'. recv_frame t = (Ready (Inr p), t') \<and> pending_bytes t' = rest" by simp
qed

text \<open> C17. Receiving does not depend on how the bytes were cut into messages: \<open>recv_frame\<close> returns \<open>p\<close> and
  leaves \<open>rest\<close> exactly when the bytes that are buffered or still to come are the frame of \<open>p\<close>
  (non-empty, at most the maximum) followed by \<open>rest\<close>.\<close>
theorem recv_frame_reassembles:
  "(\<exists>t'. recv_frame t = (Ready (Inr p), t') \<and> pending_bytes t' = rest) \<longleftrightarrow>
     frame_payload p \<and> pending_bytes t = encode_frame p @ rest"
  using recv_frame_iff by blast

text \<open> C29. Waiting for a frame ends: the loop returns a frame, or an error when the length prefix is out
  of range or the channel closes before the frame is complete. The only way to wait forever is a
  peer that keeps the channel open and never completes a frame.\<close>
theorem recv_frame_outcome:
  "fst (recv_frame t) =
     (case fst (parse_frame (pending_bytes t)) of
        Inl e \<Rightarrow> Ready (Inl e)
      | Inr (Some p) \<Rightarrow> Ready (Inr p)
      | Inr None \<Rightarrow> if hangs_up (link t) (sent t) then Ready (Inl ''connection closed'') else Pending)"
proof -
  obtain r t' where r: "recv_frame t = (r, t')" by force
  from recv_frame_parse(1) [OF r] show ?thesis
    by (simp add: r split: prod.splits sum.splits option.splits)
qed

text \<open> C30. Sending puts exactly the encoded frame on the channel, after what was sent before, in messages
  of at most 16384 bytes; if the browser refuses one, a proper prefix was sent and the caller learns.\<close>
theorem send_frame_spec:
  "case send_frame payload t of
     (Ready (Inr u), t') \<Rightarrow> \<exists>ms. sent t' = sent t @ ms \<and> concat ms = encode_frame payload
       \<and> list_all (\<lambda>m. length m \<le> 16384) ms
   | (Ready (Inl e), t') \<Rightarrow> \<exists>ms m more. sent t' = sent t @ ms \<and> concat ms @ m @ more = encode_frame payload \<and> m \<noteq> []
   | (Pending, t') \<Rightarrow> False"
proof -
  let ?ms = "split_messages (encode_frame payload)"
  obtain r t' where s: "send_messages ?ms t = (r, t')" by force
  note sent = send_messages_sent [of ?ms t, unfolded s]
  show ?thesis
  proof (cases r)
    case (Ready x)
    show ?thesis
    proof (cases x)
      case (Inl e)
      with sent Ready obtain k where k: "k < length ?ms" "sent t' = sent t @ take k ?ms" by auto
      have "concat (take k ?ms) @ ?ms ! k @ concat (drop (Suc k) ?ms) = concat ?ms"
        using id_take_nth_drop [OF k(1)] by (metis concat.simps(2) concat_append)
      moreover have "?ms ! k \<noteq> []" using split_messages_bounds nth_mem [OF k(1)] by blast
      ultimately have "\<exists>ms m more. sent t' = sent t @ ms \<and> concat ms @ m @ more = encode_frame payload \<and> m \<noteq> []"
        using k(2) concat_split_messages by metis
      with s Ready Inl show ?thesis by (simp add: send_frame_def)
    next
      case (Inr u)
      with sent Ready have "sent t' = sent t @ ?ms" by simp
      moreover have "list_all (\<lambda>m. length m \<le> 16384) ?ms"
        using split_messages_bounds by (auto simp: MAX_DC_MESSAGE_SIZE_def list_all_iff)
      ultimately have "\<exists>ms. sent t' = sent t @ ms \<and> concat ms = encode_frame payload
          \<and> list_all (\<lambda>m. length m \<le> 16384) ms"
        using concat_split_messages by blast
      with s Ready Inr show ?thesis by (simp add: send_frame_def)
    qed
  qed (use sent in simp)
qed

section \<open>Connecting\<close>

lemma js_future_Inr [res_iff]:
  "js_future what p w = (Ready (Inr x), w') \<longleftrightarrow> p = Ready (Inr x) \<and> w' = w"
  by (auto simp: js_future_def res_iff split: poll.splits)

lemma wait_for_open_Inr [res_iff]:
  "wait_for_open pc l r w = (Ready (Inr u), w') \<longleftrightarrow> pc_ready_state pc l r (open_wait pc l r) = ''Open'' \<and> w' = w"
  by (auto simp: wait_for_open_def ok_def fail_def Let_def)

lemma wait_for_open_returns: "\<exists>x. wait_for_open pc l r w = (Ready x, w)"
  by (auto simp: wait_for_open_def ok_def fail_def Let_def)

lemma select_timeout_le: "select_timeout rx timeout \<le> timeout"
  by (simp add: select_timeout_def split: option.split)

lemma select_timeout_less: "select_timeout rx timeout < timeout \<Longrightarrow> rx = Some (select_timeout rx timeout)"
  by (auto simp: select_timeout_def min_def split: option.splits if_splits)

lemma find_least:
  assumes "sorted ts" and "time \<in> set ts" and "P time"
  shows "\<exists>s. find P ts = Some s \<and> s \<le> time \<and> P s"
  using assms by (induction ts) auto

lemma ice_wait_early:
  assumes "wait_for_ice_complete pc local < 5000"
  shows "pc_ice_state pc local (wait_for_ice_complete pc local) = ''Complete''"
proof (cases "pc_ice_state pc local 0 = ''Complete''")
  case False
  let ?rx = "find (\<lambda>time. pc_ice_state pc local time = ''Complete'') (pc_ice_events pc local)"
  have w: "wait_for_ice_complete pc local = select_timeout ?rx 5000" using False by (simp add: wait_for_ice_complete_def)
  then have "?rx = Some (wait_for_ice_complete pc local)" using select_timeout_less [of ?rx 5000] assms by simp
  then show ?thesis by (auto simp: find_Some_iff)
qed (simp add: wait_for_ice_complete_def)

text \<open> C25. The waits of a connection are bounded, and gathering is waited for no longer than needed. The offer
  is relayed after at most five seconds: as soon as an event finds gathering complete if that happens
  earlier, and before that only with gathering complete. Opening the channel is decided after at most fifteen
  seconds, whatever the browser does, by the state of the channel at that moment.\<close>
theorem connection_waits:
  assumes "sorted (pc_ice_events pc local)"
  shows "wait_for_ice_complete pc local \<le> 5000
     \<and> (wait_for_ice_complete pc local < 5000 \<longrightarrow> pc_ice_state pc local (wait_for_ice_complete pc local) = ''Complete'')
     \<and> (\<forall>time \<in> set (pc_ice_events pc local). pc_ice_state pc local time = ''Complete'' \<longrightarrow> wait_for_ice_complete pc local \<le> time)
     \<and> open_wait pc local remote \<le> 15000
     \<and> (\<exists>x. wait_for_open pc local remote w = (Ready x, w)
          \<and> (x = Inr () \<longleftrightarrow> pc_ready_state pc local remote (open_wait pc local remote) = ''Open''))"
proof (intro conjI ballI impI)
  show "wait_for_ice_complete pc local \<le> 5000" by (simp add: wait_for_ice_complete_def select_timeout_le)
  show "open_wait pc local remote \<le> 15000" by (simp add: open_wait_def select_timeout_le)
next
  assume "wait_for_ice_complete pc local < 5000"
  then show "pc_ice_state pc local (wait_for_ice_complete pc local) = ''Complete''" by (rule ice_wait_early)
next
  fix time assume "time \<in> set (pc_ice_events pc local)" "pc_ice_state pc local time = ''Complete''"
  from find_least [of _ time "\<lambda>time. pc_ice_state pc local time = ''Complete''", OF assms this]
  show "wait_for_ice_complete pc local \<le> time" by (auto simp: wait_for_ice_complete_def select_timeout_def)
next
  show "\<exists>x. wait_for_open pc local remote w = (Ready x, w)
          \<and> (x = Inr () \<longleftrightarrow> pc_ready_state pc local remote (open_wait pc local remote) = ''Open'')"
    by (simp add: wait_for_open_def ok_def fail_def Let_def)
qed

text \<open>A browser that gathers for two seconds and never opens the channel.\<close>

definition slow_browser :: peer_connection where
  "slow_browser = \<lparr>pc_new = (\<lambda>_. Inr ()), pc_random = Inr [], pc_create_offer = Ready (Inr []),
     pc_set_local = (\<lambda>_. Ready (Inr ())),
     pc_ice_state = (\<lambda>_ time. if time < 2000 then ''Gathering'' else ''Complete''), pc_ice_events = (\<lambda>_. [10, 2000]),
     pc_local_description = (\<lambda>l _. Some l), pc_set_remote = (\<lambda>_ _. Ready (Inr ())),
     pc_ready_state = (\<lambda>_ _ _. ''Connecting''), pc_channel_event = (\<lambda>_ _. None),
     pc_link = (\<lambda>_ _. \<lparr>delivers = (\<lambda>_. []), hangs_up = (\<lambda>_. False), send_fault = (\<lambda>_. None)\<rparr>)\<rparr>"

lemma connection_waits_witness:
  "wait_for_ice_complete slow_browser [] \<le> 2000 \<and> (\<exists>e. wait_for_open slow_browser [] [] () = (Ready (Inl e), ()))"
proof -
  have "sorted (pc_ice_events slow_browser [])" by (simp add: slow_browser_def)
  from connection_waits [OF this, of "[]" "()"] show ?thesis by (simp add: slow_browser_def) (metis (full_types) sum.exhaust unit.exhaust)
qed

text \<open>A direct connection is made exactly when every step succeeds, and then the browser was given
  our munged offer and, as the remote description, the answer synthesised for the requested address,
  our credential and the requested fingerprint: no other certificate is ever offered to it.\<close>
lemma transport_connect_iff:
  "transport_connect cr pc ip port fp w = (Ready (Inr t), w') \<longleftrightarrow> w' = w \<and>
     (\<exists>rnd offer local.
        pc_new pc [] = Inr () \<and> pc_random pc = Inr rnd \<and> pc_create_offer pc = Ready (Inr offer)
        \<and> munge_offer offer (hex_encode cr rnd) = Inr local \<and> pc_set_local pc local = Ready (Inr ())
        \<and> (let remote = server_answer ip port (hex_encode cr rnd) (fingerprint_to_colon_form fp) in
             pc_set_remote pc local remote = Ready (Inr ())
             \<and> pc_ready_state pc local remote (open_wait pc local remote) = ''Open''
             \<and> t = from_open (pc_link pc local remote)))"
  by (auto simp: transport_connect_def Let_def res_iff)

text \<open>The relayed connection likewise: what goes through the relay is the local description at the end of the
  wait, and what comes back is the remote one.\<close>

lemma transport_via_relay_iff:
  "transport_connect_via_relay pc stun exchange w = (Ready (Inr t), w') \<longleftrightarrow>
     (\<exists>offer sdp answer.
        pc_new pc [''stun:'' @ stun] = Inr () \<and> pc_create_offer pc = Ready (Inr offer) \<and> pc_set_local pc offer = Ready (Inr ())
        \<and> pc_local_description pc offer (wait_for_ice_complete pc offer) = Some sdp
        \<and> exchange sdp w = (Ready (Inr answer), w') \<and> pc_set_remote pc offer answer = Ready (Inr ())
        \<and> pc_ready_state pc offer answer (open_wait pc offer answer) = ''Open'' \<and> t = from_open (pc_link pc offer answer))"
  by (auto simp: transport_connect_via_relay_def res_iff split: option.splits)

end
