(* ===== verification/Tunnel.thy ===== *)
theory Tunnel
  imports Crates
begin

text \<open>
  \<open>src/tunnel.rs\<close>: the client side of the post-quantum tunnel. \<open>handshake_start\<close> makes the
  \<open>ClientHello\<close>, \<open>handshake_finish\<close> checks the \<open>ServerAccept\<close> (version, signature over the transcript,
  pinned identity) and derives the session key; \<open>seal_request\<close> and \<open>open_response\<close> are the record
  layer with its direction-separated nonces.
\<close>

section \<open>Definitions\<close>

definition PQC_VERSION :: u16 where "PQC_VERSION = 2"
definition ML_KEM_768_EK_SIZE :: nat where "ML_KEM_768_EK_SIZE = 1184"
definition ML_KEM_768_CT_SIZE :: nat where "ML_KEM_768_CT_SIZE = 1088"
definition ML_DSA_65_PK_SIZE :: nat where "ML_DSA_65_PK_SIZE = 1952"
definition ML_DSA_65_SIG_SIZE :: nat where "ML_DSA_65_SIG_SIZE = 3309"
definition KDF_CONTEXT :: string where "KDF_CONTEXT = ''ant-webrtc-pqc-v1''"
definition AUTH_SIGN_CONTEXT :: "byte list" where "AUTH_SIGN_CONTEXT = str_bytes ''ant-webrtc-auth-v1''"

text \<open>\<open>u32::MAX - 1\<close>.\<close>

definition MAX_SEQ :: u32 where "MAX_SEQ = 0xFFFFFFFF - 1"

lemmas tunnel_sizes = ML_KEM_768_EK_SIZE_def ML_KEM_768_CT_SIZE_def ML_DSA_65_PK_SIZE_def
  ML_DSA_65_SIG_SIZE_def

datatype Direction = ClientToServer | ServerToClient

record SessionCipher =
  cipher_key :: "byte list"

record ClientHandshake =
  hs_dk :: "byte list"
  hs_ek_bytes :: "byte list"

record Established =
  est_cipher :: SessionCipher
  est_peer_id :: "byte list"

definition handshake_start :: "crates \<Rightarrow> nat \<Rightarrow> (ClientHandshake \<times> byte list) result" where
  "handshake_start cr draw =
     (case kem_try_keygen cr draw of
        Inl e \<Rightarrow> Inl (''ML-KEM keygen: '' @ e)
      | Inr (ek, dk) \<Rightarrow>
          Inr (\<lparr>hs_dk = dk, hs_ek_bytes = ek\<rparr>, [0x01] @ u16_to_be PQC_VERSION @ ek))"

definition from_shared_secret :: "crates \<Rightarrow> byte list \<Rightarrow> SessionCipher" where
  "from_shared_secret cr ss = \<lparr>cipher_key = blake3_derive_key cr KDF_CONTEXT ss\<rparr>"

definition auth_message :: "byte list \<Rightarrow> byte list \<Rightarrow> byte list" where
  "auth_message ek ct = AUTH_SIGN_CONTEXT @ ek @ ct"

text \<open>The slices of \<open>finish\<close>: \<open>ct_start = 3\<close>, \<open>pk_start\<close>, \<open>sig_start\<close>.\<close>

definition slice :: "nat \<Rightarrow> nat \<Rightarrow> byte list \<Rightarrow> byte list" where
  "slice i j xs = take (j - i) (drop i xs)"

definition handshake_finish ::
    "crates \<Rightarrow> ClientHandshake \<Rightarrow> byte list \<Rightarrow> byte list option \<Rightarrow> Established result" where
  "handshake_finish cr hs accept_frame expected_peer_id =
     (let expected_len = 1 + 2 + ML_KEM_768_CT_SIZE + ML_DSA_65_PK_SIZE + ML_DSA_65_SIG_SIZE;
          ct_start = 3;
          pk_start = ct_start + ML_KEM_768_CT_SIZE;
          sig_start = pk_start + ML_DSA_65_PK_SIZE in
      if length accept_frame < expected_len
      then Inl (''ServerAccept too short: '' @ show_nat (length accept_frame) @ '' bytes'')
      else if accept_frame ! 0 \<noteq> 0x02
      then Inl (''expected ServerAccept type 0x02, got 0x'' @ show_byte_hex (accept_frame ! 0))
      else
        let version = u16_from_be [accept_frame ! 1, accept_frame ! 2] in
        if version \<noteq> PQC_VERSION
        then Inl (''unsupported PQC version '' @ show_nat (unat version))
        else
          let ct = slice ct_start pk_start accept_frame;
              pubkey = slice pk_start sig_start accept_frame;
              signature = slice sig_start (sig_start + ML_DSA_65_SIG_SIZE) accept_frame in
          if \<not> dsa_pk_ok cr pubkey then Inl ''invalid ML-DSA-65 public key''
          else if \<not> dsa_verify cr pubkey (auth_message (hs_ek_bytes hs) ct) signature []
          then Inl ''ML-DSA-65 signature verification failed''
          else
            let peer_id = blake3_hash cr pubkey in
            if (case expected_peer_id of Some expected \<Rightarrow> peer_id \<noteq> expected | None \<Rightarrow> False)
            then Inl (''PeerId mismatch: expected '' @ hex_encode cr (unwrap_or expected_peer_id [])
                   @ '', got '' @ hex_encode cr peer_id)
            else if \<not> kem_ct_ok cr ct then Inl ''invalid ML-KEM-768 ciphertext''
            else
              (case kem_try_decaps cr (hs_dk hs) ct of
                 None \<Rightarrow> Inl ''ML-KEM-768 decapsulation failed''
               | Some ss \<Rightarrow> Inr \<lparr>est_cipher = from_shared_secret cr ss, est_peer_id = peer_id\<rparr>))"

definition build_nonce :: "u32 \<Rightarrow> Direction \<Rightarrow> byte list" where
  "build_nonce seq direction =
     (let nonce = replicate 12 (0 :: byte);
          nonce = u32_to_be seq @ drop 4 nonce in
      nonce[4 := (case direction of ClientToServer \<Rightarrow> 0x00 | ServerToClient \<Rightarrow> 0x01)])"

definition seal_request :: "crates \<Rightarrow> SessionCipher \<Rightarrow> u32 \<Rightarrow> byte list \<Rightarrow> byte list result" where
  "seal_request cr c seq plaintext =
     (case aead_encrypt cr (cipher_key c) (build_nonce seq ClientToServer) plaintext of
        None \<Rightarrow> Inl ''encryption failed''
      | Some ciphertext \<Rightarrow> Inr ([0x03] @ u32_to_be seq @ ciphertext))"

definition open_response :: "crates \<Rightarrow> SessionCipher \<Rightarrow> byte list \<Rightarrow> (u32 \<times> byte list) result" where
  "open_response cr c envelope =
     (if length envelope < 5 \<or> envelope ! 0 \<noteq> 0x03 then Inl ''invalid Encrypted envelope''
      else
        let seq = u32_from_be [envelope ! 1, envelope ! 2, envelope ! 3, envelope ! 4] in
        (case aead_decrypt cr (cipher_key c) (build_nonce seq ServerToClient) (drop 5 envelope) of
           None \<Rightarrow> Inl ''decryption failed (tampered or wrong session)''
         | Some plaintext \<Rightarrow> Inr (seq, plaintext)))"

section \<open>The node's messages\<close>

text \<open>
  The other end, as the header comment of the source gives the wire format: what a conforming node
  sends. These are specifications, used to say what the client accepts.
\<close>

definition server_accept :: "byte list \<Rightarrow> byte list \<Rightarrow> byte list \<Rightarrow> byte list" where
  "server_accept ct pk sig = [0x02] @ u16_to_be PQC_VERSION @ ct @ pk @ sig"

definition accept_sizes :: "byte list \<Rightarrow> byte list \<Rightarrow> byte list \<Rightarrow> bool" where
  "accept_sizes ct pk sig \<longleftrightarrow> length ct = ML_KEM_768_CT_SIZE \<and> length pk = ML_DSA_65_PK_SIZE
     \<and> length sig = ML_DSA_65_SIG_SIZE"

definition node_envelope :: "u32 \<Rightarrow> byte list \<Rightarrow> byte list" where
  "node_envelope seq ciphertext = [0x03] @ u32_to_be seq @ ciphertext"

section \<open>Lemmas\<close>

lemma u16_be_2: "[a, b] = u16_to_be (u16_from_be [a, b])"
  by (simp add: u16_to_from_be)

lemma u32_be_4: "[a, b, c, d] = u32_to_be (u32_from_be [a, b, c, d])"
  by (simp add: u32_to_from_be)

lemma build_nonce_eq:
  "build_nonce seq d = u32_to_be seq @ [case d of ClientToServer \<Rightarrow> 0 | ServerToClient \<Rightarrow> 1] @ replicate 7 0"
  by (rule u32_to_be_cases [of seq]) (simp add: build_nonce_def numeral_eq_Suc)

lemma build_nonce_inj: "build_nonce s d = build_nonce s' d' \<longleftrightarrow> s = s' \<and> d = d'"
  by (simp add: build_nonce_eq append_eq_same_length split: Direction.splits)

lemma length_build_nonce: "length (build_nonce seq d) = 12"
  by (simp add: build_nonce_eq)

lemma slice_length: "j \<le> length f \<Longrightarrow> length (slice i j f) = j - i"
  by (simp add: slice_def)

lemma slice_append:
  "length a = i \<Longrightarrow> length b = j - i \<Longrightarrow> slice i j (a @ b @ c) = b"
  by (simp add: slice_def)

lemma frame_as_slices:
  assumes "i \<le> j" "j \<le> k" "k \<le> l" "l \<le> length f"
  shows "f = take i f @ slice i j f @ slice j k f @ slice k l f @ drop l f"
proof -
  have s: "drop m f = slice m n f @ drop n f" if "m \<le> n" for m n
    using that append_take_drop_id [of "n - m" "drop m f"] by (simp add: slice_def)
  have "f = take i f @ drop i f" by simp
  with s [OF assms(1)] s [OF assms(2)] s [OF assms(3)] show ?thesis by simp
qed

lemma take3: "3 \<le> length f \<Longrightarrow> take 3 f = [f ! 0, f ! 1, f ! 2]"
  by (auto simp: numeral_eq_Suc Suc_le_length_iff)

text \<open>Every long enough frame is a type byte, a version, the three fields and what follows them.\<close>

lemma accept_frame_cases:
  assumes "6352 \<le> length f"
  obtains t v ct pk sig rest where "f = [t] @ u16_to_be v @ ct @ pk @ sig @ rest" "accept_sizes ct pk sig"
proof -
  have "f = take 3 f @ slice 3 1091 f @ slice 1091 3043 f @ slice 3043 6352 f @ drop 6352 f"
    using assms by (intro frame_as_slices) simp_all
  moreover have "take 3 f = [f ! 0] @ u16_to_be (u16_from_be [f ! 1, f ! 2])"
    using assms by (simp add: take3 u16_to_from_be)
  ultimately show ?thesis
    using assms
    by (intro that [of "f ! 0" "u16_from_be [f ! 1, f ! 2]" "slice 3 1091 f" "slice 1091 3043 f"
          "slice 3043 6352 f" "drop 6352 f"])
      (simp_all add: accept_sizes_def tunnel_sizes slice_length)
qed

text \<open>On such a frame \<open>finish\<close> is the plain sequence of its checks.\<close>

lemma handshake_finish_frame:
  assumes "accept_sizes ct pk sig"
  shows "handshake_finish cr hs ([t] @ u16_to_be v @ ct @ pk @ sig @ rest) expected =
    (if t \<noteq> 2 then Inl (''expected ServerAccept type 0x02, got 0x'' @ show_byte_hex t)
     else if v \<noteq> PQC_VERSION then Inl (''unsupported PQC version '' @ show_nat (unat v))
     else if \<not> dsa_pk_ok cr pk then Inl ''invalid ML-DSA-65 public key''
     else if \<not> dsa_verify cr pk (auth_message (hs_ek_bytes hs) ct) sig []
     then Inl ''ML-DSA-65 signature verification failed''
     else if (case expected of Some e \<Rightarrow> blake3_hash cr pk \<noteq> e | None \<Rightarrow> False)
     then Inl (''PeerId mismatch: expected '' @ hex_encode cr (unwrap_or expected [])
            @ '', got '' @ hex_encode cr (blake3_hash cr pk))
     else if \<not> kem_ct_ok cr ct then Inl ''invalid ML-KEM-768 ciphertext''
     else case kem_try_decaps cr (hs_dk hs) ct of
        None \<Rightarrow> Inl ''ML-KEM-768 decapsulation failed''
      | Some ss \<Rightarrow> Inr \<lparr>est_cipher = from_shared_secret cr ss, est_peer_id = blake3_hash cr pk\<rparr>)"
proof -
  define f where "f = [t] @ u16_to_be v @ ct @ pk @ sig @ rest"
  note sz = assms [unfolded accept_sizes_def tunnel_sizes]
  obtain a b where ab: "u16_to_be v = [a, b]" by (rule u16_to_be_cases)
  then have v: "u16_from_be [a, b] = v" using u16_from_to_be [of v] by simp
  have s1: "slice 3 1091 f = ct"
    using slice_append [of "[t, a, b]" 3 ct 1091 "pk @ sig @ rest"] sz ab by (simp add: f_def)
  have s2: "slice 1091 3043 f = pk"
    using slice_append [of "[t, a, b] @ ct" 1091 pk 3043 "sig @ rest"] sz ab by (simp add: f_def)
  have s3: "slice 3043 6352 f = sig"
    using slice_append [of "[t, a, b] @ ct @ pk" 3043 sig 6352 rest] sz ab by (simp add: f_def)
  have l: "\<not> length f < 6352" using sz by (simp add: f_def)
  have n: "f ! 0 = t" "f ! 1 = a" "f ! 2 = b" by (simp_all add: f_def ab)
  have nums: "1 + 2 + 1088 + 1952 + 3309 = (6352 :: nat)" "3 + 1088 = (1091 :: nat)"
    "1091 + 1952 = (3043 :: nat)" "3043 + 3309 = (6352 :: nat)" by simp_all
  have "handshake_finish cr hs f expected = (if t \<noteq> 2 then Inl (''expected ServerAccept type 0x02, got 0x'' @ show_byte_hex t)
     else if v \<noteq> PQC_VERSION then Inl (''unsupported PQC version '' @ show_nat (unat v))
     else if \<not> dsa_pk_ok cr pk then Inl ''invalid ML-DSA-65 public key''
     else if \<not> dsa_verify cr pk (auth_message (hs_ek_bytes hs) ct) sig []
     then Inl ''ML-DSA-65 signature verification failed''
     else if (case expected of Some e \<Rightarrow> blake3_hash cr pk \<noteq> e | None \<Rightarrow> False)
     then Inl (''PeerId mismatch: expected '' @ hex_encode cr (unwrap_or expected [])
            @ '', got '' @ hex_encode cr (blake3_hash cr pk))
     else if \<not> kem_ct_ok cr ct then Inl ''invalid ML-KEM-768 ciphertext''
     else case kem_try_decaps cr (hs_dk hs) ct of
        None \<Rightarrow> Inl ''ML-KEM-768 decapsulation failed''
      | Some ss \<Rightarrow> Inr \<lparr>est_cipher = from_shared_secret cr ss, est_peer_id = blake3_hash cr pk\<rparr>)"
    unfolding handshake_finish_def Let_def tunnel_sizes nums s1 s2 s3 n v
    by (simp only: l if_False)
  then show ?thesis by (simp only: f_def)
qed

lemma handshake_finish_short:
  "length f < 6352 \<Longrightarrow>
     handshake_finish cr hs f expected = Inl (''ServerAccept too short: '' @ show_nat (length f) @ '' bytes'')"
  by (simp add: handshake_finish_def tunnel_sizes)

section \<open>Properties\<close>

lemma finish_iff:
  "handshake_finish cr hs f expected = Inr est \<longleftrightarrow>
     (\<exists>ct pk sig rest ss. f = server_accept ct pk sig @ rest \<and> accept_sizes ct pk sig
        \<and> dsa_pk_ok cr pk \<and> dsa_verify cr pk (auth_message (hs_ek_bytes hs) ct) sig []
        \<and> expected \<in> {None, Some (blake3_hash cr pk)}
        \<and> kem_ct_ok cr ct \<and> kem_try_decaps cr (hs_dk hs) ct = Some ss
        \<and> est = \<lparr>est_cipher = from_shared_secret cr ss, est_peer_id = blake3_hash cr pk\<rparr>)"
    (is "?L \<longleftrightarrow> ?R")
proof
  assume L: ?L
  then have "6352 \<le> length f" using handshake_finish_short [of f cr hs expected] by force
  then obtain t v ct pk sig rest where f: "f = [t] @ u16_to_be v @ ct @ pk @ sig @ rest"
    and sz: "accept_sizes ct pk sig"
    by (rule accept_frame_cases)
  from L [unfolded f handshake_finish_frame [OF sz]]
  have "t = 2 \<and> v = PQC_VERSION \<and> dsa_pk_ok cr pk
      \<and> dsa_verify cr pk (auth_message (hs_ek_bytes hs) ct) sig []
      \<and> expected \<in> {None, Some (blake3_hash cr pk)} \<and> kem_ct_ok cr ct
      \<and> (\<exists>ss. kem_try_decaps cr (hs_dk hs) ct = Some ss
           \<and> est = \<lparr>est_cipher = from_shared_secret cr ss, est_peer_id = blake3_hash cr pk\<rparr>)"
    by (auto split: if_splits option.splits)
  with f sz show ?R by (auto simp: server_accept_def)
next
  assume ?R
  then obtain ct pk sig rest ss where f: "f = [2] @ u16_to_be PQC_VERSION @ ct @ pk @ sig @ rest"
    and sz: "accept_sizes ct pk sig" and c: "dsa_pk_ok cr pk"
      "dsa_verify cr pk (auth_message (hs_ek_bytes hs) ct) sig []"
      "expected \<in> {None, Some (blake3_hash cr pk)}" "kem_ct_ok cr ct"
      "kem_try_decaps cr (hs_dk hs) ct = Some ss"
      "est = \<lparr>est_cipher = from_shared_secret cr ss, est_peer_id = blake3_hash cr pk\<rparr>"
    by (auto simp: server_accept_def)
  show ?L
    unfolding f handshake_finish_frame [OF sz] using c by auto
qed

text \<open>
  \<open>finish\<close> succeeds on exactly the frames that are a \<open>ServerAccept\<close> of version 2 (with anything
  after it) whose public key parses, whose signature covers context, our encapsulation key and the
  ciphertext, whose key hashes to the pinned identity if there is one, and whose ciphertext
  decapsulates; the session key is derived from that shared secret and the identity returned is the
  digest of the key that signed.
\<close>

lemma handshake_finish_iff:
  "handshake_finish cr hs f expected = Inr est \<longleftrightarrow>
     (\<exists>ct pk sig rest ss. f = server_accept ct pk sig @ rest \<and> accept_sizes ct pk sig
        \<and> dsa_pk_ok cr pk \<and> dsa_verify cr pk (auth_message (hs_ek_bytes hs) ct) sig []
        \<and> expected \<in> {None, Some (blake3_hash cr pk)}
        \<and> kem_ct_ok cr ct \<and> kem_try_decaps cr (hs_dk hs) ct = Some ss
        \<and> est = \<lparr>est_cipher = from_shared_secret cr ss, est_peer_id = blake3_hash cr pk\<rparr>)"
  by (rule finish_iff)

text \<open>
  The transcript the node signs determines the client's key and the ciphertext: two sessions
  whose signed messages agree are one session, so a signature cannot be moved to another one.
\<close>

lemma auth_message_injective:
  assumes "length ek = ML_KEM_768_EK_SIZE" and "length ek' = ML_KEM_768_EK_SIZE"
  shows "auth_message ek ct = auth_message ek' ct' \<longleftrightarrow> ek = ek' \<and> ct = ct'"
  using assms by (simp add: auth_message_def append_eq_same_length)

theorem auth_message_injective_witness:
  "auth_message (replicate 1184 1) [5] \<noteq> auth_message (replicate 1184 2) [5]"
  using auth_message_injective [of "replicate 1184 1" "replicate 1184 2" "[5]" "[5]"]
  by (simp add: tunnel_sizes)

text \<open>
  A nonce is 12 bytes and determines the sequence number and the direction, so under one key no
  two sequence numbers, and no request and response, ever share a nonce.
\<close>

lemma build_nonce_unique:
  "length (build_nonce s d) = 12 \<and> (build_nonce s d = build_nonce s' d' \<longleftrightarrow> s = s' \<and> d = d')"
  by (simp add: length_build_nonce build_nonce_inj)

lemma envelope_cases:
  assumes "5 \<le> length e"
  obtains t seq ct where "e = [t] @ u32_to_be seq @ ct"
proof -
  from assms obtain t a b c d ct where "e = t # a # b # c # d # ct"
    by (auto simp: numeral_eq_Suc Suc_le_length_iff)
  then show ?thesis by (intro that [of t "u32_from_be [a, b, c, d]" ct]) (simp add: u32_to_from_be)
qed

lemma open_response_frame:
  "open_response cr c ([t] @ u32_to_be seq @ ct) =
     (if t \<noteq> 3 then Inl ''invalid Encrypted envelope''
      else case aead_decrypt cr (cipher_key c) (build_nonce seq ServerToClient) ct of
         None \<Rightarrow> Inl ''decryption failed (tampered or wrong session)''
       | Some p \<Rightarrow> Inr (seq, p))"
proof (rule u32_to_be_cases [of seq])
  fix a b d e assume w: "u32_to_be seq = [a, b, d, e]"
  then have "u32_from_be [a, b, d, e] = seq" using u32_from_to_be [of seq] by simp
  with w show ?thesis by (simp add: open_response_def Let_def numeral_eq_Suc)
qed

lemma open_response_short:
  "length e < 5 \<Longrightarrow> open_response cr c e = Inl ''invalid Encrypted envelope''"
  by (simp add: open_response_def)

lemma open_iff:
  "open_response cr c e = Inr (seq, p) \<longleftrightarrow>
     (\<exists>ct. e = node_envelope seq ct \<and>
        aead_decrypt cr (cipher_key c) (build_nonce seq ServerToClient) ct = Some p)"
    (is "?L \<longleftrightarrow> ?R")
proof
  assume L: ?L
  then have "5 \<le> length e" using open_response_short [of e cr c] by force
  then obtain t s ct where e: "e = [t] @ u32_to_be s @ ct" by (rule envelope_cases)
  from L [unfolded e open_response_frame] have "t = 3" "s = seq"
    "aead_decrypt cr (cipher_key c) (build_nonce seq ServerToClient) ct = Some p"
    by (auto split: if_splits option.splits)
  with e show ?R by (auto simp: node_envelope_def)
next
  assume ?R
  then obtain ct where "e = [3] @ u32_to_be seq @ ct"
    "aead_decrypt cr (cipher_key c) (build_nonce seq ServerToClient) ct = Some p"
    by (auto simp: node_envelope_def)
  then show ?L by (simp only: open_response_frame) simp
qed

text \<open>
  \<open>open_response\<close> accepts exactly the envelopes whose ciphertext decrypts under the session key
  and the node-to-client nonce of the sequence number they carry, and returns that number. A request
  of our own reflected back is decrypted under a nonce it was not encrypted with.
\<close>

lemma open_response_iff:
  "open_response cr c e = Inr (seq, p) \<longleftrightarrow>
     (\<exists>ct. e = node_envelope seq ct \<and>
        aead_decrypt cr (cipher_key c) (build_nonce seq ServerToClient) ct = Some p)"
  by (rule open_iff)

end
