(* ===== verification/Discovery.thy ===== *)
theory Discovery
  imports Formats
begin

text \<open>
  \<open>src/discovery.rs\<close>: the discovery and signaling-relay messages, their derived serialization, and
  their \<open>encode\<close> / \<open>decode\<close> over the \<open>postcard\<close> parameter. Unlike \<open>ChunkMessage\<close>, these impose no size cap.
\<close>

section \<open>Data\<close>

definition PROTO_CHUNK :: byte where "PROTO_CHUNK = 0x01"
definition PROTO_DISCOVERY :: byte where "PROTO_DISCOVERY = 0x02"
definition PROTO_SIGNAL :: byte where "PROTO_SIGNAL = 0x03"

record ClosestPeersRequest =
  cpr_address :: "byte list"

record PeerConnectInfo =
  pci_peer_id :: "byte list"
  pci_ip :: string
  pci_port :: u16
  pci_cert_hash :: "byte list"

record ClosestPeersResponse =
  cpr_peers :: "PeerConnectInfo list"

datatype DiscoveryBody =
    ClosestRequest ClosestPeersRequest
  | ClosestResponse ClosestPeersResponse
  | DiscoveryError string

record DiscoveryMessage =
  dm_request_id :: u64
  dm_body :: DiscoveryBody

record SignalRelayRequest =
  target_peer_id :: "byte list"
  sdp_offer :: string

record SignalRelayResponse =
  sdp_answer :: string

datatype SignalRelayBody =
    SignalRequest SignalRelayRequest
  | SignalResponse SignalRelayResponse
  | SignalError string

record SignalRelayMessage =
  sm_request_id :: u64
  sm_body :: SignalRelayBody

section \<open>Derived serialization\<close>

definition sv_ClosestPeersRequest :: "ClosestPeersRequest \<Rightarrow> sval" where
  "sv_ClosestPeersRequest r = SStruct [sv_array (cpr_address r)]"

definition sv_PeerConnectInfo :: "PeerConnectInfo \<Rightarrow> sval" where
  "sv_PeerConnectInfo p =
     SStruct [sv_array (pci_peer_id p), SStr (pci_ip p), SU16 (pci_port p), sv_array (pci_cert_hash p)]"

definition sv_ClosestPeersResponse :: "ClosestPeersResponse \<Rightarrow> sval" where
  "sv_ClosestPeersResponse r = SStruct [sv_list sv_PeerConnectInfo (cpr_peers r)]"

fun sv_DiscoveryBody :: "DiscoveryBody \<Rightarrow> sval" where
  "sv_DiscoveryBody (ClosestRequest r) = SVariant 0 (SNewtype (sv_ClosestPeersRequest r))"
| "sv_DiscoveryBody (ClosestResponse r) = SVariant 1 (SNewtype (sv_ClosestPeersResponse r))"
| "sv_DiscoveryBody (DiscoveryError e) = SVariant 2 (SNewtype (SStr e))"

definition sv_DiscoveryMessage :: "DiscoveryMessage \<Rightarrow> sval" where
  "sv_DiscoveryMessage m = SStruct [SU64 (dm_request_id m), sv_DiscoveryBody (dm_body m)]"

definition sv_SignalRelayRequest :: "SignalRelayRequest \<Rightarrow> sval" where
  "sv_SignalRelayRequest r = SStruct [sv_array (target_peer_id r), SStr (sdp_offer r)]"

definition sv_SignalRelayResponse :: "SignalRelayResponse \<Rightarrow> sval" where
  "sv_SignalRelayResponse r = SStruct [SStr (sdp_answer r)]"

fun sv_SignalRelayBody :: "SignalRelayBody \<Rightarrow> sval" where
  "sv_SignalRelayBody (SignalRequest r) = SVariant 0 (SNewtype (sv_SignalRelayRequest r))"
| "sv_SignalRelayBody (SignalResponse r) = SVariant 1 (SNewtype (sv_SignalRelayResponse r))"
| "sv_SignalRelayBody (SignalError e) = SVariant 2 (SNewtype (SStr e))"

definition sv_SignalRelayMessage :: "SignalRelayMessage \<Rightarrow> sval" where
  "sv_SignalRelayMessage m = SStruct [SU64 (sm_request_id m), sv_SignalRelayBody (sm_body m)]"

definition ty_ClosestPeersRequest :: sty where
  "ty_ClosestPeersRequest = TStruct [array_ty 32]"

definition ty_PeerConnectInfo :: sty where
  "ty_PeerConnectInfo = TStruct [array_ty 32, TStr, TU16, array_ty 32]"

definition ty_ClosestPeersResponse :: sty where
  "ty_ClosestPeersResponse = TStruct [TSeq ty_PeerConnectInfo]"

definition ty_DiscoveryBody :: sty where
  "ty_DiscoveryBody =
     TEnum [TNewtype ty_ClosestPeersRequest, TNewtype ty_ClosestPeersResponse, TNewtype TStr]"

definition ty_DiscoveryMessage :: sty where
  "ty_DiscoveryMessage = TStruct [TU64, ty_DiscoveryBody]"

definition ty_SignalRelayRequest :: sty where
  "ty_SignalRelayRequest = TStruct [array_ty 32, TStr]"

definition ty_SignalRelayResponse :: sty where
  "ty_SignalRelayResponse = TStruct [TStr]"

definition ty_SignalRelayBody :: sty where
  "ty_SignalRelayBody =
     TEnum [TNewtype ty_SignalRelayRequest, TNewtype ty_SignalRelayResponse, TNewtype TStr]"

definition ty_SignalRelayMessage :: sty where
  "ty_SignalRelayMessage = TStruct [TU64, ty_SignalRelayBody]"

fun un_ClosestPeersRequest :: "sval \<Rightarrow> ClosestPeersRequest option" where
  "un_ClosestPeersRequest (SStruct [a]) = map_option ClosestPeersRequest.make (un_array a)"
| "un_ClosestPeersRequest _ = None"

fun un_PeerConnectInfo :: "sval \<Rightarrow> PeerConnectInfo option" where
  "un_PeerConnectInfo (SStruct [p, i, q, c]) =
     ap (ap (ap (ap (Some PeerConnectInfo.make) (un_array p)) (un_str i)) (un_u16 q)) (un_array c)"
| "un_PeerConnectInfo _ = None"

fun un_ClosestPeersResponse :: "sval \<Rightarrow> ClosestPeersResponse option" where
  "un_ClosestPeersResponse (SStruct [ps]) =
     map_option ClosestPeersResponse.make (un_list un_PeerConnectInfo ps)"
| "un_ClosestPeersResponse _ = None"

fun un_DiscoveryBody :: "sval \<Rightarrow> DiscoveryBody option" where
  "un_DiscoveryBody (SVariant i (SNewtype v)) =
     (if i = 0 then map_option ClosestRequest (un_ClosestPeersRequest v)
      else if i = 1 then map_option ClosestResponse (un_ClosestPeersResponse v)
      else if i = 2 then map_option DiscoveryError (un_str v)
      else None)"
| "un_DiscoveryBody _ = None"

fun un_DiscoveryMessage :: "sval \<Rightarrow> DiscoveryMessage option" where
  "un_DiscoveryMessage (SStruct [i, b]) =
     ap (ap (Some DiscoveryMessage.make) (un_u64 i)) (un_DiscoveryBody b)"
| "un_DiscoveryMessage _ = None"

fun un_SignalRelayRequest :: "sval \<Rightarrow> SignalRelayRequest option" where
  "un_SignalRelayRequest (SStruct [p, s]) =
     ap (ap (Some SignalRelayRequest.make) (un_array p)) (un_str s)"
| "un_SignalRelayRequest _ = None"

fun un_SignalRelayResponse :: "sval \<Rightarrow> SignalRelayResponse option" where
  "un_SignalRelayResponse (SStruct [s]) = map_option SignalRelayResponse.make (un_str s)"
| "un_SignalRelayResponse _ = None"

fun un_SignalRelayBody :: "sval \<Rightarrow> SignalRelayBody option" where
  "un_SignalRelayBody (SVariant i (SNewtype v)) =
     (if i = 0 then map_option SignalRequest (un_SignalRelayRequest v)
      else if i = 1 then map_option SignalResponse (un_SignalRelayResponse v)
      else if i = 2 then map_option SignalError (un_str v)
      else None)"
| "un_SignalRelayBody _ = None"

fun un_SignalRelayMessage :: "sval \<Rightarrow> SignalRelayMessage option" where
  "un_SignalRelayMessage (SStruct [i, b]) =
     ap (ap (Some SignalRelayMessage.make) (un_u64 i)) (un_SignalRelayBody b)"
| "un_SignalRelayMessage _ = None"

definition wf_PeerConnectInfo :: "PeerConnectInfo \<Rightarrow> bool" where
  "wf_PeerConnectInfo p \<longleftrightarrow> length (pci_peer_id p) = 32 \<and> is_utf8 (pci_ip p) \<and> length (pci_cert_hash p) = 32"

fun wf_DiscoveryBody :: "DiscoveryBody \<Rightarrow> bool" where
  "wf_DiscoveryBody (ClosestRequest r) = (length (cpr_address r) = 32)"
| "wf_DiscoveryBody (ClosestResponse r) = list_all wf_PeerConnectInfo (cpr_peers r)"
| "wf_DiscoveryBody (DiscoveryError e) = is_utf8 e"

definition wf_DiscoveryMessage :: "DiscoveryMessage \<Rightarrow> bool" where
  "wf_DiscoveryMessage m \<longleftrightarrow> wf_DiscoveryBody (dm_body m)"

fun wf_SignalRelayBody :: "SignalRelayBody \<Rightarrow> bool" where
  "wf_SignalRelayBody (SignalRequest r) = (length (target_peer_id r) = 32 \<and> is_utf8 (sdp_offer r))"
| "wf_SignalRelayBody (SignalResponse r) = is_utf8 (sdp_answer r)"
| "wf_SignalRelayBody (SignalError e) = is_utf8 e"

definition wf_SignalRelayMessage :: "SignalRelayMessage \<Rightarrow> bool" where
  "wf_SignalRelayMessage m \<longleftrightarrow> wf_SignalRelayBody (sm_body m)"

section \<open>Operations\<close>

definition discovery_encode :: "(sval \<Rightarrow> byte list result) \<Rightarrow> DiscoveryMessage \<Rightarrow> byte list result" where
  "discovery_encode to_bytes m = map_err (\<lambda>e. ''discovery encode: '' @ e) (to_bytes (sv_DiscoveryMessage m))"

definition discovery_decode :: "(sty \<Rightarrow> byte list \<Rightarrow> sval result) \<Rightarrow> byte list \<Rightarrow> DiscoveryMessage result" where
  "discovery_decode from_bytes data =
     map_err (\<lambda>e. ''discovery decode: '' @ e)
       (read_value from_bytes ty_DiscoveryMessage un_DiscoveryMessage data)"

definition signal_encode :: "(sval \<Rightarrow> byte list result) \<Rightarrow> SignalRelayMessage \<Rightarrow> byte list result" where
  "signal_encode to_bytes m = map_err (\<lambda>e. ''signal-relay encode: '' @ e) (to_bytes (sv_SignalRelayMessage m))"

definition signal_decode :: "(sty \<Rightarrow> byte list \<Rightarrow> sval result) \<Rightarrow> byte list \<Rightarrow> SignalRelayMessage result" where
  "signal_decode from_bytes data =
     map_err (\<lambda>e. ''signal-relay decode: '' @ e)
       (read_value from_bytes ty_SignalRelayMessage un_SignalRelayMessage data)"

section \<open>Wire types\<close>

interpretation wpci: wire_type ty_PeerConnectInfo sv_PeerConnectInfo un_PeerConnectInfo wf_PeerConnectInfo
proof
  fix v assume "conforms ty_PeerConnectInfo v"
  then obtain p i q c where "v = SStruct [sv_array p, SStr i, SU16 q, sv_array c]"
      "length p = 32" "is_utf8 i" "length c = 32"
    by (auto simp: ty_PeerConnectInfo_def serde_simps dest!: wire_images)
  then show "\<exists>p. v = sv_PeerConnectInfo p \<and> wf_PeerConnectInfo p"
    by (intro exI [of _ "PeerConnectInfo.make p i q c"])
      (simp add: sv_PeerConnectInfo_def PeerConnectInfo.defs wf_PeerConnectInfo_def)
qed (auto simp: ty_PeerConnectInfo_def sv_PeerConnectInfo_def wf_PeerConnectInfo_def serde_simps
    wire_writes wire_reads PeerConnectInfo.defs)

interpretation wpcis: wire_type "TSeq ty_PeerConnectInfo" "sv_list sv_PeerConnectInfo"
    "un_list un_PeerConnectInfo" "list_all wf_PeerConnectInfo"
  by (rule wire_list [OF wpci.wire_type_axioms])

lemmas discovery_structs = ty_ClosestPeersRequest_def ty_ClosestPeersResponse_def ty_DiscoveryBody_def
  ty_SignalRelayRequest_def ty_SignalRelayResponse_def ty_SignalRelayBody_def
  sv_ClosestPeersRequest_def sv_ClosestPeersResponse_def sv_SignalRelayRequest_def sv_SignalRelayResponse_def
  ClosestPeersRequest.defs ClosestPeersResponse.defs SignalRelayRequest.defs SignalRelayResponse.defs

lemma ex_ClosestPeersRequest: "(\<exists>r. P r) \<longleftrightarrow> (\<exists>a. P \<lparr>cpr_address = a\<rparr>)"
  by (metis ClosestPeersRequest.cases)

lemma ex_ClosestPeersResponse: "(\<exists>r. P r) \<longleftrightarrow> (\<exists>a. P \<lparr>cpr_peers = a\<rparr>)"
  by (metis ClosestPeersResponse.cases)

lemma ex_SignalRelayRequest: "(\<exists>r. P r) \<longleftrightarrow> (\<exists>a s. P \<lparr>target_peer_id = a, sdp_offer = s\<rparr>)"
  by (metis SignalRelayRequest.cases)

lemma ex_SignalRelayResponse: "(\<exists>r. P r) \<longleftrightarrow> (\<exists>s. P \<lparr>sdp_answer = s\<rparr>)"
  by (metis SignalRelayResponse.cases)

lemma ex_DiscoveryBody:
  "(\<exists>b. P b) \<longleftrightarrow> (\<exists>r. P (ClosestRequest r)) \<or> (\<exists>r. P (ClosestResponse r)) \<or> (\<exists>e. P (DiscoveryError e))"
  by (metis DiscoveryBody.exhaust)

lemma ex_SignalRelayBody:
  "(\<exists>b. P b) \<longleftrightarrow> (\<exists>r. P (SignalRequest r)) \<or> (\<exists>r. P (SignalResponse r)) \<or> (\<exists>e. P (SignalError e))"
  by (metis SignalRelayBody.exhaust)

interpretation wdb: wire_type ty_DiscoveryBody sv_DiscoveryBody un_DiscoveryBody wf_DiscoveryBody
proof
  fix b assume "wf_DiscoveryBody b"
  then show "conforms ty_DiscoveryBody (sv_DiscoveryBody b)"
    by (cases b) (auto simp: discovery_structs serde_simps wire_writes wpcis.sv_conforms)
  show "un_DiscoveryBody (sv_DiscoveryBody b) = Some b"
    using \<open>wf_DiscoveryBody b\<close> by (cases b) (auto simp: discovery_structs wire_reads wpcis.un_sv)
next
  fix v assume "conforms ty_DiscoveryBody v"
  then show "\<exists>b. v = sv_DiscoveryBody b \<and> wf_DiscoveryBody b"
    unfolding ex_DiscoveryBody ex_ClosestPeersRequest ex_ClosestPeersResponse
    by (auto simp: discovery_structs serde_simps dest!: wire_images wpcis.conforms_image)
qed

interpretation wdm: wire_type ty_DiscoveryMessage sv_DiscoveryMessage un_DiscoveryMessage wf_DiscoveryMessage
proof
  fix v assume "conforms ty_DiscoveryMessage v"
  then obtain i b where "v = SStruct [SU64 i, sv_DiscoveryBody b]" "wf_DiscoveryBody b"
    by (auto simp: ty_DiscoveryMessage_def serde_simps dest!: wu64.conforms_image wdb.conforms_image)
  then show "\<exists>m. v = sv_DiscoveryMessage m \<and> wf_DiscoveryMessage m"
    by (intro exI [of _ "DiscoveryMessage.make i b"])
      (simp add: sv_DiscoveryMessage_def DiscoveryMessage.defs wf_DiscoveryMessage_def)
qed (auto simp: ty_DiscoveryMessage_def sv_DiscoveryMessage_def wf_DiscoveryMessage_def serde_simps
    wire_writes wdb.sv_conforms wdb.un_sv DiscoveryMessage.defs)

interpretation wsb: wire_type ty_SignalRelayBody sv_SignalRelayBody un_SignalRelayBody wf_SignalRelayBody
proof
  fix b assume "wf_SignalRelayBody b"
  then show "conforms ty_SignalRelayBody (sv_SignalRelayBody b)"
    by (cases b) (auto simp: discovery_structs serde_simps wire_writes)
  show "un_SignalRelayBody (sv_SignalRelayBody b) = Some b"
    using \<open>wf_SignalRelayBody b\<close> by (cases b) (auto simp: discovery_structs wire_reads)
next
  fix v assume "conforms ty_SignalRelayBody v"
  then show "\<exists>b. v = sv_SignalRelayBody b \<and> wf_SignalRelayBody b"
    unfolding ex_SignalRelayBody ex_SignalRelayRequest ex_SignalRelayResponse
    by (auto simp: discovery_structs serde_simps dest!: wire_images)
qed

interpretation wsm: wire_type ty_SignalRelayMessage sv_SignalRelayMessage un_SignalRelayMessage wf_SignalRelayMessage
proof
  fix v assume "conforms ty_SignalRelayMessage v"
  then obtain i b where "v = SStruct [SU64 i, sv_SignalRelayBody b]" "wf_SignalRelayBody b"
    by (auto simp: ty_SignalRelayMessage_def serde_simps dest!: wu64.conforms_image wsb.conforms_image)
  then show "\<exists>m. v = sv_SignalRelayMessage m \<and> wf_SignalRelayMessage m"
    by (intro exI [of _ "SignalRelayMessage.make i b"])
      (simp add: sv_SignalRelayMessage_def SignalRelayMessage.defs wf_SignalRelayMessage_def)
qed (auto simp: ty_SignalRelayMessage_def sv_SignalRelayMessage_def wf_SignalRelayMessage_def serde_simps
    wire_writes wsb.sv_conforms wsb.un_sv SignalRelayMessage.defs)

section \<open>Round trips\<close>

lemma discovery_shapes: "codec_ty ty_DiscoveryMessage" "codec_ty ty_SignalRelayMessage"
  by (simp_all add: ty_DiscoveryMessage_def ty_SignalRelayMessage_def ty_PeerConnectInfo_def discovery_structs)

lemma discovery_codec:
  "serde_codec tb fb \<Longrightarrow> wire_codec tb fb ty_DiscoveryMessage sv_DiscoveryMessage un_DiscoveryMessage wf_DiscoveryMessage"
  by (intro wire_codec.intro wire_codec_axioms.intro wdm.wire_type_axioms discovery_shapes)

lemma signal_codec:
  "serde_codec tb fb \<Longrightarrow> wire_codec tb fb ty_SignalRelayMessage sv_SignalRelayMessage un_SignalRelayMessage wf_SignalRelayMessage"
  by (intro wire_codec.intro wire_codec_axioms.intro wsm.wire_type_axioms discovery_shapes)

interpretation pc_discovery: wire_codec "fmt_to_bytes postcard_fmt" "fmt_from_bytes postcard_fmt"
    ty_DiscoveryMessage sv_DiscoveryMessage un_DiscoveryMessage wf_DiscoveryMessage
  by (rule discovery_codec) unfold_locales

interpretation pc_signal: wire_codec "fmt_to_bytes postcard_fmt" "fmt_from_bytes postcard_fmt"
    ty_SignalRelayMessage sv_SignalRelayMessage un_SignalRelayMessage wf_SignalRelayMessage
  by (rule signal_codec) unfold_locales

lemma discovery_decode_encode:
  assumes "serde_codec to_bytes from_bytes" and "wf_DiscoveryMessage m" and "discovery_encode to_bytes m = Inr bs"
  shows "discovery_decode from_bytes bs = Inr m"
  using assms(3) wire_codec.read_written [OF discovery_codec [OF assms(1)] assms(2)]
  by (auto simp: discovery_encode_def discovery_decode_def map_err_def split: sum.splits)

lemma discovery_decode_wf:
  assumes "serde_codec to_bytes from_bytes" and "discovery_decode from_bytes bs = Inr m"
  shows "wf_DiscoveryMessage m"
  using assms(2) wire_codec.read_wf [OF discovery_codec [OF assms(1)]]
  by (auto simp: discovery_decode_def map_err_def split: sum.splits)

lemma signal_decode_encode:
  assumes "serde_codec to_bytes from_bytes" and "wf_SignalRelayMessage m" and "signal_encode to_bytes m = Inr bs"
  shows "signal_decode from_bytes bs = Inr m"
  using assms(3) wire_codec.read_written [OF signal_codec [OF assms(1)] assms(2)]
  by (auto simp: signal_encode_def signal_decode_def map_err_def split: sum.splits)

lemma signal_decode_wf:
  assumes "serde_codec to_bytes from_bytes" and "signal_decode from_bytes bs = Inr m"
  shows "wf_SignalRelayMessage m"
  using assms(2) wire_codec.read_wf [OF signal_codec [OF assms(1)]]
  by (auto simp: signal_decode_def map_err_def split: sum.splits)


definition test_peer :: PeerConnectInfo where
  "test_peer = \<lparr>pci_peer_id = replicate 32 1, pci_ip = ''10.0.0.7'', pci_port = 443, pci_cert_hash = replicate 32 2\<rparr>"


end
