(* ===== verification/Conn.thy ===== *)
theory Conn
  imports Transport Tunnel Discovery
begin

text \<open>
  \<open>src/conn.rs\<close>: one authenticated session with one node. Every operation is an asynchronous step on
  the connection's state; the request lock is part of that state, so a request that never gets its
  answer keeps the connection locked, as the guard held across the await does.
\<close>

section \<open>State\<close>

text \<open>The two serde formats: \<open>postcard\<close> and \<open>rmp_serde\<close>.\<close>

record serde_crates =
  postcard_to_bytes :: "sval \<Rightarrow> byte list result"
  postcard_from_bytes :: "sty \<Rightarrow> byte list \<Rightarrow> sval result"
  rmp_to_vec :: "sval \<Rightarrow> byte list result"
  rmp_from_slice :: "sty \<Rightarrow> byte list \<Rightarrow> sval result"

definition codecs :: "serde_crates \<Rightarrow> bool" where
  "codecs sc \<longleftrightarrow> serde_codec (postcard_to_bytes sc) (postcard_from_bytes sc)
     \<and> serde_codec (rmp_to_vec sc) (rmp_from_slice sc)"

definition test_serde :: serde_crates where
  "test_serde = \<lparr>postcard_to_bytes = fmt_to_bytes postcard_fmt, postcard_from_bytes = fmt_from_bytes postcard_fmt,
     rmp_to_vec = fmt_to_bytes msgpack_fmt, rmp_from_slice = fmt_from_bytes msgpack_fmt\<rparr>"

lemma test_serde_sel [simp]:
  "postcard_to_bytes test_serde = fmt_to_bytes postcard_fmt" "postcard_from_bytes test_serde = fmt_from_bytes postcard_fmt"
  "rmp_to_vec test_serde = fmt_to_bytes msgpack_fmt" "rmp_from_slice test_serde = fmt_from_bytes msgpack_fmt"
  by (simp_all add: test_serde_def)

lemma test_serde_codecs: "codecs test_serde"
  by (simp add: codecs_def postcard.serde_codec_axioms msgpack.serde_codec_axioms)

record NodeConnection =
  transport :: Transport
  cipher :: SessionCipher
  peer_id :: "byte list"
  next_seq :: u32
  request_lock :: bool

definition on_transport :: "(Transport, 'a) async \<Rightarrow> (NodeConnection, 'a) async" where
  "on_transport f c = (case f (transport c) of (r, t) \<Rightarrow> (r, c\<lparr>transport := t\<rparr>))"

section \<open>Operations\<close>

definition establish ::
    "crates \<Rightarrow> nat \<Rightarrow> byte list option \<Rightarrow> Transport \<Rightarrow> NodeConnection result poll" where
  "establish cr draw expected t =
     (case handshake_start cr draw of
        Inl e \<Rightarrow> Ready (Inl e)
      | Inr (hs, hello) \<Rightarrow>
          (case await (send_frame hello) (\<lambda>_. recv_frame) t of
             (Pending, t1) \<Rightarrow> Pending
           | (Ready (Inl e), t1) \<Rightarrow> Ready (Inl e)
           | (Ready (Inr accept), t1) \<Rightarrow>
               (case handshake_finish cr hs accept expected of
                  Inl e \<Rightarrow> Ready (Inl e)
                | Inr est \<Rightarrow> Ready (Inr \<lparr>transport = t1, cipher = est_cipher est, peer_id = est_peer_id est,
                    next_seq = 1, request_lock = False\<rparr>))))"

definition conn_next_seq :: "(NodeConnection, u32) async" where
  "conn_next_seq c =
     (let seq = next_seq c in
      if seq \<ge> MAX_SEQ then fail ''session sequence space exhausted; reconnect'' c
      else ok seq (c\<lparr>next_seq := seq + 1\<rparr>))"

definition exchange :: "crates \<Rightarrow> byte \<Rightarrow> byte list \<Rightarrow> (NodeConnection, byte list) async" where
  "exchange cr tag payload =
     await conn_next_seq (\<lambda>seq.
     let tagged = [tag] @ payload in
     await (\<lambda>c. lift_res (seal_request cr (cipher c) seq tagged) c) (\<lambda>envelope.
     await (on_transport (send_frame envelope)) (\<lambda>_.
     await (on_transport recv_frame) (\<lambda>frame.
     await (\<lambda>c. lift_res (open_response cr (cipher c) frame) c) (\<lambda>(resp_seq, plaintext).
       if resp_seq \<noteq> seq
       then fail (''response seq '' @ show_nat (unat resp_seq) @ '' does not match request '' @ show_nat (unat seq))
       else if (case plaintext of [] \<Rightarrow> True | first # _ \<Rightarrow> first \<noteq> tag)
       then fail ''unexpected response protocol tag''
       else ok (tl plaintext))))))"

text \<open>The whole of \<open>round_trip\<close>: take the lock or wait for it, exchange, and release it on return.\<close>

definition round_trip :: "crates \<Rightarrow> byte \<Rightarrow> byte list \<Rightarrow> (NodeConnection, byte list) async" where
  "round_trip cr tag payload c =
     (if request_lock c then (Pending, c)
      else
        (case exchange cr tag payload (c\<lparr>request_lock := True\<rparr>) of
           (Pending, c1) \<Rightarrow> (Pending, c1)
         | (Ready r, c1) \<Rightarrow> (Ready r, c1\<lparr>request_lock := False\<rparr>)))"

text \<open>
  A typed request is built before the lock is awaited, under the number the counter shows then: \<open>_as\<close> is
  the rest of the function, for whatever number was read. Another request may take that number first; the
  answer is matched by the sequence number sealed under the lock, not by this one.
\<close>

definition get_verified_as ::
    "crates \<Rightarrow> serde_crates \<Rightarrow> u64 \<Rightarrow> byte list \<Rightarrow> (NodeConnection, byte list) async" where
  "get_verified_as cr sc i address =
     (let request = \<lparr>request_id = i, body = GetRequest \<lparr>get_address = address\<rparr>\<rparr> in
      await (lift_res (chunk_encode (postcard_to_bytes sc) request)) (\<lambda>bytes.
      await (round_trip cr PROTO_CHUNK bytes) (\<lambda>plaintext.
      await (lift_res (chunk_decode (postcard_from_bytes sc) plaintext)) (\<lambda>response.
        case body response of
          GetResponse (GetSuccess resp_address content) \<Rightarrow>
            if resp_address \<noteq> address then fail ''response address mismatch''
            else if blake3_hash cr content \<noteq> address
            then fail (''chunk '' @ hex_encode cr address @ '' failed BLAKE3 verification'')
            else ok content
        | GetResponse (GetNotFound _) \<Rightarrow> fail (''not found: '' @ hex_encode cr address)
        | GetResponse (GetError e) \<Rightarrow> fail (''node error: '' @ display_protocol_error e)
        | _ \<Rightarrow> fail ''unexpected response type''))))"

definition get_verified :: "crates \<Rightarrow> serde_crates \<Rightarrow> byte list \<Rightarrow> (NodeConnection, byte list) async" where
  "get_verified cr sc address c = get_verified_as cr sc (ucast (next_seq c)) address c"

definition closest_peers_as ::
    "crates \<Rightarrow> serde_crates \<Rightarrow> u64 \<Rightarrow> byte list \<Rightarrow> (NodeConnection, PeerConnectInfo list) async" where
  "closest_peers_as cr sc i address =
     (let request = \<lparr>dm_request_id = i, dm_body = ClosestRequest \<lparr>cpr_address = address\<rparr>\<rparr> in
      await (lift_res (discovery_encode (postcard_to_bytes sc) request)) (\<lambda>bytes.
      await (round_trip cr PROTO_DISCOVERY bytes) (\<lambda>plaintext.
      await (lift_res (discovery_decode (postcard_from_bytes sc) plaintext)) (\<lambda>response.
        case dm_body response of
          ClosestResponse r \<Rightarrow> ok (cpr_peers r)
        | DiscoveryError e \<Rightarrow> fail (''discovery error: '' @ e)
        | ClosestRequest _ \<Rightarrow> fail ''unexpected discovery response''))))"

definition closest_peers :: "crates \<Rightarrow> serde_crates \<Rightarrow> byte list \<Rightarrow> (NodeConnection, PeerConnectInfo list) async" where
  "closest_peers cr sc address c = closest_peers_as cr sc (ucast (next_seq c)) address c"

definition signal_relay_as ::
    "crates \<Rightarrow> serde_crates \<Rightarrow> u64 \<Rightarrow> byte list \<Rightarrow> string \<Rightarrow> (NodeConnection, string) async" where
  "signal_relay_as cr sc i target sdp =
     (let request = \<lparr>sm_request_id = i, sm_body = SignalRequest \<lparr>target_peer_id = target, sdp_offer = sdp\<rparr>\<rparr> in
      await (lift_res (signal_encode (postcard_to_bytes sc) request)) (\<lambda>bytes.
      await (round_trip cr PROTO_SIGNAL bytes) (\<lambda>plaintext.
      await (lift_res (signal_decode (postcard_from_bytes sc) plaintext)) (\<lambda>response.
        case sm_body response of
          SignalResponse r \<Rightarrow> ok (sdp_answer r)
        | SignalError e \<Rightarrow> fail (''signal relay error: '' @ e)
        | SignalRequest _ \<Rightarrow> fail ''unexpected signal-relay response''))))"

definition signal_relay :: "crates \<Rightarrow> serde_crates \<Rightarrow> byte list \<Rightarrow> string \<Rightarrow> (NodeConnection, string) async" where
  "signal_relay cr sc target sdp c = signal_relay_as cr sc (ucast (next_seq c)) target sdp c"

definition chunk_round_trip :: "crates \<Rightarrow> serde_crates \<Rightarrow> ChunkMessage \<Rightarrow> (NodeConnection, ChunkMessage) async" where
  "chunk_round_trip cr sc request =
     await (lift_res (chunk_encode (postcard_to_bytes sc) request)) (\<lambda>bytes.
     await (round_trip cr PROTO_CHUNK bytes) (\<lambda>plaintext.
     lift_res (chunk_decode (postcard_from_bytes sc) plaintext)))"

text \<open>
  \<open>NodeConnection::connect\<close> and \<open>connect_via_relay\<close>, given the peer connection the browser makes and the
  number of the key draw.
\<close>

definition conn_connect ::
    "crates \<Rightarrow> peer_connection \<Rightarrow> nat \<Rightarrow> string \<Rightarrow> u16 \<Rightarrow> string \<Rightarrow> byte list option
      \<Rightarrow> NodeConnection result poll" where
  "conn_connect cr pc draw ip port cert_hash_hex expected =
     (case transport_connect cr pc ip port cert_hash_hex () of
        (Pending, _) \<Rightarrow> Pending
      | (Ready (Inl e), _) \<Rightarrow> Ready (Inl e)
      | (Ready (Inr t), _) \<Rightarrow> establish cr draw expected t)"

definition conn_connect_relayed ::
    "crates \<Rightarrow> (string \<Rightarrow> (NodeConnection, string) async) \<Rightarrow> peer_connection \<Rightarrow> nat \<Rightarrow> string \<Rightarrow> byte list
      \<Rightarrow> (NodeConnection, NodeConnection) async" where
  "conn_connect_relayed cr relay_offer pc draw stun target =
     await (transport_connect_via_relay pc stun relay_offer) (\<lambda>t relay.
       (establish cr draw (Some target) t, relay))"

definition conn_connect_via_relay ::
    "crates \<Rightarrow> serde_crates \<Rightarrow> peer_connection \<Rightarrow> nat \<Rightarrow> string \<Rightarrow> byte list
      \<Rightarrow> (NodeConnection, NodeConnection) async" where
  "conn_connect_via_relay cr sc pc draw stun target =
     conn_connect_relayed cr (signal_relay cr sc target) pc draw stun target"


section \<open>One exchange\<close>

lemma on_transport_Inr [res_iff]:
  "on_transport f c = (Ready (Inr x), c') \<longleftrightarrow>
     (\<exists>t. f (transport c) = (Ready (Inr x), t) \<and> c' = c\<lparr>transport := t\<rparr>)"
  by (auto simp: on_transport_def split: prod.splits)

lemma conn_next_seq_Inr [res_iff]:
  "conn_next_seq c = (Ready (Inr s), c') \<longleftrightarrow> s = next_seq c \<and> next_seq c < MAX_SEQ \<and> c' = c\<lparr>next_seq := s + 1\<rparr>"
  by (auto simp: conn_next_seq_def ok_def fail_def Let_def not_le)

lemma exchange_Inr:
  "exchange cr tag payload c = (Ready (Inr resp), c') \<longleftrightarrow> next_seq c < MAX_SEQ \<and>
     (\<exists>envelope t1 frame t2.
        seal_request cr (cipher c) (next_seq c) (tag # payload) = Inr envelope
        \<and> send_frame envelope (transport c) = (Ready (Inr ()), t1)
        \<and> recv_frame t1 = (Ready (Inr frame), t2)
        \<and> open_response cr (cipher c) frame = Inr (next_seq c, tag # resp)
        \<and> c' = c\<lparr>transport := t2, next_seq := next_seq c + 1\<rparr>)"
  by (fastforce simp: exchange_def Let_def res_iff ok_def fail_def split: if_splits list.splits)

lemma round_trip_Inr:
  "round_trip cr tag payload c = (Ready (Inr resp), c') \<longleftrightarrow> \<not> request_lock c \<and> next_seq c < MAX_SEQ \<and>
     (\<exists>envelope t1 frame t2.
        seal_request cr (cipher c) (next_seq c) (tag # payload) = Inr envelope
        \<and> send_frame envelope (transport c) = (Ready (Inr ()), t1)
        \<and> recv_frame t1 = (Ready (Inr frame), t2)
        \<and> open_response cr (cipher c) frame = Inr (next_seq c, tag # resp)
        \<and> c' = c\<lparr>transport := t2, next_seq := next_seq c + 1\<rparr>)"
proof -
  have "round_trip cr tag payload c = (Ready (Inr resp), c') \<longleftrightarrow> \<not> request_lock c \<and>
      (\<exists>c1. exchange cr tag payload (c\<lparr>request_lock := True\<rparr>) = (Ready (Inr resp), c1) \<and> c' = c1\<lparr>request_lock := False\<rparr>)"
    by (auto simp: round_trip_def split: prod.splits poll.splits)
  then show ?thesis
    unfolding exchange_Inr by auto
qed

text \<open>Whatever happens on the wire, an exchange leaves the identity and the key of the session alone.\<close>

definition same_session :: "NodeConnection \<Rightarrow> NodeConnection \<Rightarrow> bool" where
  "same_session c c' \<longleftrightarrow> cipher c' = cipher c \<and> peer_id c' = peer_id c
     \<and> next_seq c' = next_seq c \<and> request_lock c' = request_lock c"

interpretation session: state_relation same_session
  by unfold_locales (simp_all add: same_session_def)

lemma steps_on_transport: "steps same_session (on_transport f)"
  by (rule stepsI) (auto simp: on_transport_def same_session_def split: prod.splits)

lemma exchange_state:
  assumes "exchange cr tag payload c = (r, c')"
  shows "cipher c' = cipher c \<and> peer_id c' = peer_id c \<and> request_lock c' = request_lock c
     \<and> next_seq c' = (if next_seq c < MAX_SEQ then next_seq c + 1 else next_seq c)"
proof (cases "next_seq c < MAX_SEQ")
  case True
  define c1 where "c1 = c\<lparr>next_seq := next_seq c + 1\<rparr>"
  have n: "conn_next_seq c = (Ready (Inr (next_seq c)), c1)"
    using True by (auto simp: conn_next_seq_def ok_def c1_def Let_def dest: leD)
  let ?rest = "\<lambda>seq. await (\<lambda>c. lift_res (seal_request cr (cipher c) seq ([tag] @ payload)) c) (\<lambda>envelope.
     await (on_transport (send_frame envelope)) (\<lambda>_.
     await (on_transport recv_frame) (\<lambda>frame.
     await (\<lambda>c. lift_res (open_response cr (cipher c) frame) c) (\<lambda>(resp_seq, plaintext).
       if resp_seq \<noteq> seq
       then fail (''response seq '' @ show_nat (unat resp_seq) @ '' does not match request '' @ show_nat (unat seq))
       else if (case plaintext of [] \<Rightarrow> True | first # _ \<Rightarrow> first \<noteq> tag)
       then fail ''unexpected response protocol tag''
       else ok (tl plaintext)))))"
  have "steps same_session (?rest seq)" for seq
    by (intro session.steps_await steps_on_transport session.steps_lift) auto
  moreover have "?rest (next_seq c) c1 = (r, c')"
    using assms n by (simp add: exchange_def Let_def)
  ultimately have "same_session c1 c'" by (rule stepsD)
  with True show ?thesis by (simp add: same_session_def c1_def)
next
  case False
  with assms show ?thesis by (auto simp: exchange_def conn_next_seq_def fail_def not_less Let_def await_def)
qed

lemma round_trip_state:
  assumes "round_trip cr tag payload c = (r, c')"
  shows "cipher c' = cipher c \<and> peer_id c' = peer_id c \<and> (request_lock c' \<longleftrightarrow> r = Pending)
     \<and> next_seq c' = (if \<not> request_lock c \<and> next_seq c < MAX_SEQ then next_seq c + 1 else next_seq c)"
proof (cases "request_lock c")
  case False
  obtain r1 c1 where e: "exchange cr tag payload (c\<lparr>request_lock := True\<rparr>) = (r1, c1)" by force
  from exchange_state [OF e] assms False e show ?thesis
    by (auto simp: round_trip_def split: poll.splits)
qed (use assms in \<open>simp add: round_trip_def\<close>)

section \<open>Sequence numbers\<close>

text \<open>The sequence number a \<open>round_trip\<close> seals its request under, if it comes to that.\<close>

definition sealed_by :: "NodeConnection \<Rightarrow> u32 list" where
  "sealed_by c = (if request_lock c \<or> next_seq c \<ge> MAX_SEQ then [] else [next_seq c])"

text \<open>
  The life of a connection: any sequence of requests, whatever their tags, payloads and outcomes,
  with the sequence numbers their requests were sealed under.
\<close>

inductive session_run :: "crates \<Rightarrow> NodeConnection \<Rightarrow> u32 list \<Rightarrow> NodeConnection \<Rightarrow> bool" for cr c0 where
  start: "session_run cr c0 [] c0"
| request: "session_run cr c0 seqs c \<Longrightarrow> round_trip cr tag payload c = (r, c') \<Longrightarrow>
     session_run cr c0 (seqs @ sealed_by c) c'"

lemma u32_less_add1: "(s :: u32) < MAX_SEQ \<Longrightarrow> unat (s + 1) = Suc (unat s)"
  by (simp add: MAX_SEQ_def word_less_nat_alt unat_word_ariths)

lemma session_run_seqs:
  assumes "session_run cr c0 seqs c" and "next_seq c0 = 1"
  shows "map unat seqs = [1..<Suc (length seqs)] \<and> unat (next_seq c) = Suc (length seqs)
     \<and> unat (next_seq c) \<le> unat MAX_SEQ \<and> cipher c = cipher c0 \<and> peer_id c = peer_id c0"
  using assms
proof induction
  case start
  then show ?case by (simp add: MAX_SEQ_def)
next
  case (request seqs c tag payload r c')
  note st = round_trip_state [OF request.hyps(2)]
  show ?case
  proof (cases "request_lock c \<or> next_seq c \<ge> MAX_SEQ")
    case True
    with st request.IH [OF request.prems] show ?thesis by (auto simp: sealed_by_def)
  next
    case False
    then have l: "next_seq c < MAX_SEQ" by (simp add: not_le)
    with st False have n: "next_seq c' = next_seq c + 1" by simp
    have "unat (next_seq c') \<le> unat MAX_SEQ"
      using l unfolding n u32_less_add1 [OF l] by (simp add: word_less_nat_alt)
    with st request.IH [OF request.prems] n u32_less_add1 [OF l] False show ?thesis
      by (simp add: sealed_by_def)
  qed
qed


section \<open>Sessions\<close>

text \<open>A channel whose \<open>send\<close> never throws, and the transport after a frame has gone out on it.\<close>

definition faultless :: "Transport \<Rightarrow> bool" where
  "faultless t \<longleftrightarrow> send_fault (link t) = (\<lambda>_. None)"

definition after_send :: "byte list \<Rightarrow> Transport \<Rightarrow> Transport" where
  "after_send p t = (let ms = split_messages (encode_frame p) in
     t\<lparr>sent := sent t @ ms, sends := sends t + length ms\<rparr>)"

lemma send_messages_ok:
  "faultless t \<Longrightarrow> send_messages ms t = (Ready (Inr ()), t\<lparr>sent := sent t @ ms, sends := sends t + length ms\<rparr>)"
  by (induction ms arbitrary: t) (auto simp: faultless_def ok_def)

lemma send_frame_ok: "faultless t \<Longrightarrow> send_frame p t = (Ready (Inr ()), after_send p t)"
  by (simp add: send_frame_def send_messages_ok after_send_def Let_def)

lemma establish_Inr:
  "establish cr draw expected t = Ready (Inr c) \<longleftrightarrow>
     (\<exists>hs hello t1 accept est t2.
        handshake_start cr draw = Inr (hs, hello) \<and> send_frame hello t = (Ready (Inr ()), t1)
        \<and> recv_frame t1 = (Ready (Inr accept), t2) \<and> handshake_finish cr hs accept expected = Inr est
        \<and> c = \<lparr>transport = t2, cipher = est_cipher est, peer_id = est_peer_id est, next_seq = 1,
            request_lock = False\<rparr>)"
  by (auto simp: establish_def await_def split: sum.splits prod.splits poll.splits)

lemma start_Inr:
  "handshake_start cr draw = Inr (hs, hello) \<longleftrightarrow>
     (\<exists>ek dk. kem_try_keygen cr draw = Inr (ek, dk) \<and> hs = \<lparr>hs_dk = dk, hs_ek_bytes = ek\<rparr>
        \<and> hello = [1] @ u16_to_be PQC_VERSION @ ek)"
  by (auto simp: handshake_start_def split: sum.splits prod.splits)

lemma establish_peer:
  assumes "establish cr draw expected t = Ready (Inr c)"
  shows "next_seq c = 1 \<and> \<not> request_lock c \<and> expected \<in> {None, Some (peer_id c)}"
proof -
  obtain hs accept est t2 where "handshake_finish cr hs accept expected = Inr est"
    "c = \<lparr>transport = t2, cipher = est_cipher est, peer_id = est_peer_id est, next_seq = 1, request_lock = False\<rparr>"
    using assms unfolding establish_Inr by blast
  then show ?thesis by (auto simp: finish_iff)
qed

text \<open> C8. A session comes into being exactly when the node answers our hello with a \<open>ServerAccept\<close> in
  which its key signed our encapsulation key and its ciphertext. The session then belongs to the
  digest of that key, which is the expected peer if one was named, is keyed by the decapsulated
  secret, and starts at sequence number 1, unlocked.\<close>
theorem establish_iff:
  "establish cr draw expected t = Ready (Inr c) \<longleftrightarrow>
     (\<exists>ek dk t1 ct pk sig rest ss.
        kem_try_keygen cr draw = Inr (ek, dk)
        \<and> send_frame ([1] @ u16_to_be PQC_VERSION @ ek) t = (Ready (Inr ()), t1)
        \<and> recv_frame t1 = (Ready (Inr (server_accept ct pk sig @ rest)), transport c) \<and> accept_sizes ct pk sig
        \<and> dsa_pk_ok cr pk \<and> dsa_verify cr pk (auth_message ek ct) sig []
        \<and> expected \<in> {None, Some (peer_id c)} \<and> peer_id c = blake3_hash cr pk
        \<and> kem_ct_ok cr ct \<and> kem_try_decaps cr dk ct = Some ss \<and> cipher c = from_shared_secret cr ss
        \<and> next_seq c = 1 \<and> \<not> request_lock c)" (is "?L \<longleftrightarrow> ?R")
proof
  assume ?L
  then show ?R unfolding establish_Inr start_Inr finish_iff by force
next
  assume ?R
  then obtain ek dk t1 ct pk sig rest ss where r:
    "kem_try_keygen cr draw = Inr (ek, dk)"
    "send_frame ([1] @ u16_to_be PQC_VERSION @ ek) t = (Ready (Inr ()), t1)"
    "recv_frame t1 = (Ready (Inr (server_accept ct pk sig @ rest)), transport c)" and acc: "accept_sizes ct pk sig"
    "dsa_pk_ok cr pk" "dsa_verify cr pk (auth_message ek ct) sig []" "expected \<in> {None, Some (peer_id c)}"
    "peer_id c = blake3_hash cr pk" "kem_ct_ok cr ct" "kem_try_decaps cr dk ct = Some ss"
    and c: "cipher c = from_shared_secret cr ss" "next_seq c = 1" "\<not> request_lock c"
    by blast
  let ?est = "\<lparr>est_cipher = cipher c, est_peer_id = peer_id c\<rparr>"
  have "handshake_finish cr \<lparr>hs_dk = dk, hs_ek_bytes = ek\<rparr> (server_accept ct pk sig @ rest) expected = Inr ?est"
    unfolding finish_iff using acc c(1) by (intro exI conjI) auto
  moreover have "handshake_start cr draw = Inr (\<lparr>hs_dk = dk, hs_ek_bytes = ek\<rparr>, [1] @ u16_to_be PQC_VERSION @ ek)"
    unfolding start_Inr using r(1) by blast
  moreover have "c = \<lparr>transport = transport c, cipher = est_cipher ?est, peer_id = est_peer_id ?est, next_seq = 1,
      request_lock = False\<rparr>" using c by simp
  ultimately show ?L unfolding establish_Inr using r(2,3) by blast
qed

section \<open>Requests\<close>

text \<open> C12. An answer is accepted only if it is authentic and current: \<open>round_trip\<close> returns \<open>resp\<close> exactly
  when the lock is free and sequence space is left, the sealed request went out, the next frame of the
  channel is an envelope that carries this request's sequence number and decrypts, under the session
  key and the node-to-client nonce of that number, to the request's own tag followed by \<open>resp\<close>; and
  then the next sequence number is one higher and the lock is free again.\<close>
theorem round_trip_authentic:
  "round_trip cr tag payload c = (Ready (Inr resp), c') \<longleftrightarrow> \<not> request_lock c \<and> next_seq c < MAX_SEQ \<and>
     (\<exists>sealed t1 ct t2.
        aead_encrypt cr (cipher_key (cipher c)) (build_nonce (next_seq c) ClientToServer) (tag # payload) = Some sealed
        \<and> send_frame ([3] @ u32_to_be (next_seq c) @ sealed) (transport c) = (Ready (Inr ()), t1)
        \<and> recv_frame t1 = (Ready (Inr (node_envelope (next_seq c) ct)), t2)
        \<and> aead_decrypt cr (cipher_key (cipher c)) (build_nonce (next_seq c) ServerToClient) ct = Some (tag # resp)
        \<and> c' = c\<lparr>transport := t2, next_seq := next_seq c + 1\<rparr>)"
  unfolding round_trip_Inr open_iff
  by (fastforce simp: seal_request_def split: option.splits)

text \<open>The steps of the typed requests.\<close>

lemma get_verified_as_Inr:
  "get_verified_as cr sc i address c = (Ready (Inr content), c') \<longleftrightarrow> blake3_hash cr content = address \<and>
     (\<exists>req resp j.
        chunk_encode (postcard_to_bytes sc)
          \<lparr>request_id = i, body = GetRequest \<lparr>get_address = address\<rparr>\<rparr> = Inr req
        \<and> round_trip cr PROTO_CHUNK req c = (Ready (Inr resp), c')
        \<and> chunk_decode (postcard_from_bytes sc) resp =
            Inr \<lparr>request_id = j, body = GetResponse (GetSuccess address content)\<rparr>)"
proof -
  have "(case body m of
          GetResponse (GetSuccess resp_address content) \<Rightarrow>
            if resp_address \<noteq> address then fail ''response address mismatch''
            else if blake3_hash cr content \<noteq> address
            then fail (''chunk '' @ hex_encode cr address @ '' failed BLAKE3 verification'')
            else ok content
        | GetResponse (GetNotFound _) \<Rightarrow> fail (''not found: '' @ hex_encode cr address)
        | GetResponse (GetError e) \<Rightarrow> fail (''node error: '' @ display_protocol_error e)
        | _ \<Rightarrow> fail ''unexpected response type'') w = (Ready (Inr content), w') \<longleftrightarrow>
      blake3_hash cr content = address \<and> w' = w
      \<and> (\<exists>i. m = \<lparr>request_id = i, body = GetResponse (GetSuccess address content)\<rparr>)"
    for m :: ChunkMessage and w w' :: NodeConnection
    by (cases m) (auto simp: ok_def fail_def split: ChunkMessageBody.splits ChunkGetResponse.splits)
  then show ?thesis by (auto simp: get_verified_as_def Let_def res_iff)
qed

lemmas get_verified_Inr = get_verified_as_Inr [where i = "ucast (next_seq c)" and c = c for c, folded get_verified_def]

text \<open>A node that answers: what the channel holds after the request went out is one frame, its envelope
  encrypting the given plaintext for this session and sequence number, and then whatever else.\<close>

definition node_answers ::
    "crates \<Rightarrow> NodeConnection \<Rightarrow> byte \<Rightarrow> byte list \<Rightarrow> byte list \<Rightarrow> bool" where
  "node_answers cr c tag req resp \<longleftrightarrow>
     (\<exists>sealed ct rest.
        aead_encrypt cr (cipher_key (cipher c)) (build_nonce (next_seq c) ClientToServer) (tag # req) = Some sealed
        \<and> aead_encrypt cr (cipher_key (cipher c)) (build_nonce (next_seq c) ServerToClient) (tag # resp) = Some ct
        \<and> frame_payload (node_envelope (next_seq c) ct)
        \<and> pending_bytes (after_send ([3] @ u32_to_be (next_seq c) @ sealed) (transport c))
            = encode_frame (node_envelope (next_seq c) ct) @ rest)"

definition ready :: "NodeConnection \<Rightarrow> bool" where
  "ready c \<longleftrightarrow> \<not> request_lock c \<and> next_seq c < MAX_SEQ \<and> faultless (transport c)"

lemma round_trip_envelope:
  assumes "aead_correct cr" and "ready c"
    and "aead_encrypt cr (cipher_key (cipher c)) (build_nonce (next_seq c) ClientToServer) (tag # req) = Some sealed"
    and "aead_encrypt cr (cipher_key (cipher c)) (build_nonce (next_seq c) ServerToClient) (tag # resp) = Some ct"
    and "frame_payload (node_envelope (next_seq c) ct)"
    and "pending_bytes (after_send ([3] @ u32_to_be (next_seq c) @ sealed) (transport c))
       = encode_frame (node_envelope (next_seq c) ct) @ rest"
  shows "\<exists>t2. round_trip cr tag req c = (Ready (Inr resp), c\<lparr>transport := t2, next_seq := next_seq c + 1\<rparr>)
     \<and> pending_bytes t2 = rest \<and> link t2 = link (transport c)"
proof -
  let ?env = "[3] @ u32_to_be (next_seq c) @ sealed"
  obtain t2 where t2: "recv_frame (after_send ?env (transport c)) = (Ready (Inr (node_envelope (next_seq c) ct)), t2)"
    "pending_bytes t2 = rest"
    using recv_frame_iff(2) [OF assms(5,6)] by blast
  have "aead_decrypt cr (cipher_key (cipher c)) (build_nonce (next_seq c) ServerToClient) ct = Some (tag # resp)"
    using assms(1,4) by (auto simp: aead_correct_def)
  then have "open_response cr (cipher c) (node_envelope (next_seq c) ct) = Inr (next_seq c, tag # resp)"
    unfolding open_iff by blast
  moreover have "seal_request cr (cipher c) (next_seq c) (tag # req) = Inr ?env"
    using assms(3) by (simp add: seal_request_def)
  moreover have "send_frame ?env (transport c) = (Ready (Inr ()), after_send ?env (transport c))"
    using assms(2) by (intro send_frame_ok) (simp add: ready_def)
  ultimately have "round_trip cr tag req c = (Ready (Inr resp), c\<lparr>transport := t2, next_seq := next_seq c + 1\<rparr>)"
    unfolding round_trip_Inr using assms(2) t2 by (auto simp: ready_def)
  moreover have "link t2 = link (transport c)"
    using recv_frame_parse(2) [OF t2(1)] by (simp add: after_send_def Let_def)
  ultimately show ?thesis using t2(2) by blast
qed

lemma round_trip_answered:
  assumes "aead_correct cr" and "ready c" and "node_answers cr c tag req resp"
  shows "\<exists>t2. round_trip cr tag req c = (Ready (Inr resp), c\<lparr>transport := t2, next_seq := next_seq c + 1\<rparr>)"
  using assms(3) round_trip_envelope [OF assms(1,2)] unfolding node_answers_def by blast

text \<open>An honest node is enough: on a ready connection, if the node answers the GET of an address with
  the bytes stored there, cut into messages any way it likes, \<open>get_verified\<close> returns those bytes and
  the connection is free for the next request.\<close>
lemma get_verified_honest:
  assumes "aead_correct cr" and "codecs sc" and "ready c"
    and "blake3_hash cr content = address" and "length address = 32"
    and "chunk_encode (postcard_to_bytes sc)
        \<lparr>request_id = ucast (next_seq c), body = GetRequest \<lparr>get_address = address\<rparr>\<rparr> = Inr req"
    and "chunk_encode (postcard_to_bytes sc)
        \<lparr>request_id = i, body = GetResponse (GetSuccess address content)\<rparr> = Inr resp"
    and "length resp \<le> MAX_WIRE_MESSAGE_SIZE"
    and "node_answers cr c PROTO_CHUNK req resp"
  shows "\<exists>c'. get_verified cr sc address c = (Ready (Inr content), c') \<and> \<not> request_lock c'
     \<and> next_seq c' = next_seq c + 1"
proof -
  obtain t2 where t2: "round_trip cr PROTO_CHUNK req c = (Ready (Inr resp), c\<lparr>transport := t2, next_seq := next_seq c + 1\<rparr>)"
    using round_trip_answered [OF assms(1,3,9)] by blast
  have "chunk_decode (postcard_from_bytes sc) resp =
      Inr \<lparr>request_id = i, body = GetResponse (GetSuccess address content)\<rparr>"
    using assms(2,5) by (intro chunk_decode_encode [OF _ _ assms(7,8)])
      (simp_all add: codecs_def wf_ChunkMessage_def)
  with t2 assms(4,6) have "get_verified cr sc address c =
      (Ready (Inr content), c\<lparr>transport := t2, next_seq := next_seq c + 1\<rparr>)"
    unfolding get_verified_Inr by blast
  with assms(3) show ?thesis by (simp add: ready_def)
qed

text \<open>A connection to such a node, for the witnesses.\<close>

definition answering :: "byte list \<Rightarrow> NodeConnection" where
  "answering frame = \<lparr>transport = from_open
       \<lparr>delivers = (\<lambda>_. map ArrayBuffer (chunks 3 (encode_frame frame))), hangs_up = (\<lambda>_. False), send_fault = (\<lambda>_. None)\<rparr>,
     cipher = \<lparr>cipher_key = [7]\<rparr>, peer_id = replicate 32 1, next_seq = 1, request_lock = False\<rparr>"

lemma answering_sel [simp]:
  "next_seq (answering f) = 1" "request_lock (answering f) = False" "peer_id (answering f) = replicate 32 1"
  by (simp_all add: answering_def)

lemma answering_ready: "ready (answering f)"
  by (simp add: answering_def ready_def MAX_SEQ_def faultless_def from_open_def)

lemma pending_answering: "pending_bytes (after_send p (transport (answering f))) = encode_frame f"
proof -
  have "List.map_filter on_message (map ArrayBuffer ms) = ms" for ms
    by (induction ms) simp_all
  then show ?thesis
    by (simp add: answering_def after_send_def from_open_def pending_bytes_def untaken_def receiver_def
        FrameBuf_new_def Let_def concat_chunks)
qed

lemma answering_answers:
  assumes "frame_payload (node_envelope 1 (build_nonce 1 ServerToClient @ tag # resp))"
  shows "node_answers test_crates (answering (node_envelope 1 (build_nonce 1 ServerToClient @ tag # resp))) tag req resp"
  using assms by (simp add: node_answers_def pending_answering)

definition stored_block :: "byte list" where "stored_block = replicate 32 5"

lemma stored_block_hash: "blake3_hash test_crates stored_block = stored_block" "length stored_block = 32"
  using be_bytes_val [of stored_block] by (simp_all add: stored_block_def)

lemma stored_block_messages:
  "\<exists>req. chunk_encode (postcard_to_bytes test_serde)
        \<lparr>request_id = 1, body = GetRequest \<lparr>get_address = stored_block\<rparr>\<rparr> = Inr req"
  "\<exists>resp. chunk_encode (postcard_to_bytes test_serde)
        \<lparr>request_id = 9, body = GetResponse (GetSuccess stored_block stored_block)\<rparr> = Inr resp \<and> length resp = 68"
  by (simp_all add: chunk_encode_def fmt_to_bytes_def sv_ChunkMessage_def sv_ChunkGetRequest_def sv_array_def
      sv_list_def stored_block_def res_iff byte_simps length_concat sum_list_replicate split: option.splits)

lemma get_verified_honest_witness:
  "\<exists>c c'. get_verified test_crates test_serde stored_block c = (Ready (Inr stored_block), c') \<and> next_seq c' = 2"
proof -
  obtain req resp where m:
    "chunk_encode (postcard_to_bytes test_serde)
        \<lparr>request_id = 1, body = GetRequest \<lparr>get_address = stored_block\<rparr>\<rparr> = Inr req"
    "chunk_encode (postcard_to_bytes test_serde)
        \<lparr>request_id = 9, body = GetResponse (GetSuccess stored_block stored_block)\<rparr> = Inr resp" "length resp = 68"
    using stored_block_messages by blast
  let ?f = "node_envelope 1 (build_nonce 1 ServerToClient @ PROTO_CHUNK # resp)"
  have "frame_payload ?f"
    by (simp add: frame_payload_def node_envelope_def length_build_nonce m(3) MAX_FRAME_SIZE_def MAX_WIRE_MESSAGE_SIZE_def)
  from answering_answers [OF this, of req] m(1)
    get_verified_honest [OF test_crates_aead test_serde_codecs answering_ready [of ?f] stored_block_hash _ m(2)]
  have "\<exists>c'. get_verified test_crates test_serde stored_block (answering ?f) = (Ready (Inr stored_block), c')
      \<and> next_seq c' = 2"
    by (auto simp: m(3) MAX_WIRE_MESSAGE_SIZE_def)
  then show ?thesis by blast
qed

section \<open>All requests\<close>

text \<open>What every request keeps: the identity, the key, and the order of sequence numbers.\<close>

definition conn_step :: "NodeConnection \<Rightarrow> NodeConnection \<Rightarrow> bool" where
  "conn_step c c' \<longleftrightarrow> cipher c' = cipher c \<and> peer_id c' = peer_id c \<and> next_seq c \<le> next_seq c'"

interpretation conn: state_relation conn_step
  by unfold_locales (auto simp: conn_step_def)

lemma steps_round_trip [simp]: "steps conn_step (round_trip cr tag payload)"
proof (rule stepsI)
  fix c r c' assume "round_trip cr tag payload c = (r, c')"
  from round_trip_state [OF this] u32_less_add1 [of "next_seq c"] show "conn_step c c'"
    by (auto simp: conn_step_def word_le_nat_alt)
qed

lemma steps_requests_as [simp]:
  "steps conn_step (get_verified_as cr sc i address)"
  "steps conn_step (closest_peers_as cr sc i address)"
  "steps conn_step (signal_relay_as cr sc i target sdp)"
proof -
  show "steps conn_step (get_verified_as cr sc i address)"
    unfolding get_verified_as_def Let_def
    by (intro conn.steps_await conn.steps_pure steps_round_trip)
      (auto split: ChunkMessageBody.splits ChunkGetResponse.splits)
  show "steps conn_step (closest_peers_as cr sc i address)"
    unfolding closest_peers_as_def Let_def
    by (intro conn.steps_await conn.steps_pure steps_round_trip) (simp split: DiscoveryBody.split)
  show "steps conn_step (signal_relay_as cr sc i target sdp)"
    unfolding signal_relay_as_def Let_def
    by (intro conn.steps_await conn.steps_pure steps_round_trip) (simp split: SignalRelayBody.split)
qed

lemma steps_requests [simp]:
  "steps conn_step (get_verified cr sc address)"
  "steps conn_step (closest_peers cr sc address)"
  "steps conn_step (signal_relay cr sc target sdp)"
  "steps conn_step (chunk_round_trip cr sc request)"
proof -
  show "steps conn_step (get_verified cr sc address)" "steps conn_step (closest_peers cr sc address)"
    "steps conn_step (signal_relay cr sc target sdp)"
    using steps_requests_as unfolding steps_def get_verified_def closest_peers_def signal_relay_def by blast+
  show "steps conn_step (chunk_round_trip cr sc request)"
    unfolding chunk_round_trip_def
    by (intro conn.steps_await conn.steps_pure steps_round_trip)
qed

text \<open> C15. No node can make the client accept wrong bytes, or turn a session into another: whatever arrives
  on the wire, what \<open>get_verified\<close> returns hashes to the address that was asked for, and identity and
  key of the connection stay what they were.\<close>
theorem get_verified_sound:
  assumes "get_verified cr sc address c = (r, c')"
  shows "(\<forall>content. r = Ready (Inr content) \<longrightarrow> blake3_hash cr content = address)
     \<and> peer_id c' = peer_id c \<and> cipher c' = cipher c"
  using stepsD [OF steps_requests(1) assms] assms by (auto simp: get_verified_Inr conn_step_def)

lemma get_verified_sound_witness:
  "\<exists>r c'. get_verified test_crates test_serde stored_block (answering [1]) = (r, c') \<and> peer_id c' = replicate 32 1"
proof -
  obtain r c' where "get_verified test_crates test_serde stored_block (answering [1]) = (r, c')" by force
  with get_verified_sound [OF this] show ?thesis by simp
qed

text \<open> C28. A node that goes silent blocks its connection for good: nothing bounds the wait for a frame, so
  if the channel stays open and no complete frame ever arrives, the request never returns, and neither
  does any later request on the connection, which waits for the lock the first one holds.\<close>
theorem silent_node_blocks:
  assumes "ready c"
    and "aead_encrypt cr (cipher_key (cipher c)) (build_nonce (next_seq c) ClientToServer) (tag # req) = Some sealed"
    and "t1 = after_send ([3] @ u32_to_be (next_seq c) @ sealed) (transport c)"
    and "fst (parse_frame (pending_bytes t1)) = Inr None" and "\<not> hangs_up (link t1) (sent t1)"
  shows "\<exists>c'. round_trip cr tag req c = (Pending, c') \<and> (\<forall>tag' req'. round_trip cr tag' req' c' = (Pending, c'))"
proof -
  let ?c = "c\<lparr>request_lock := True\<rparr>" and ?env = "[3] @ u32_to_be (next_seq c) @ sealed"
  let ?c1 = "?c\<lparr>next_seq := next_seq c + 1\<rparr>"
  have n: "conn_next_seq ?c = (Ready (Inr (next_seq c)), ?c1)"
    using assms(1) by (auto simp: conn_next_seq_Inr ready_def)
  have s: "seal_request cr (cipher c) (next_seq c) ([tag] @ req) = Inr ?env"
    using assms(2) by (simp add: seal_request_def)
  have "send_frame ?env (transport c) = (Ready (Inr ()), t1)"
    using assms(1) unfolding assms(3) by (intro send_frame_ok) (simp add: ready_def)
  then have o: "on_transport (send_frame ?env) ?c1 = (Ready (Inr ()), ?c1\<lparr>transport := t1\<rparr>)"
    by (simp add: on_transport_def)
  obtain r t2 where r: "recv_frame t1 = (r, t2)" by force
  have "r = Pending"
    using recv_frame_parse(1) [OF r] assms(4,5) by (auto split: prod.splits)
  then have p: "on_transport recv_frame (?c1\<lparr>transport := t1\<rparr>) = (Pending, ?c1\<lparr>transport := t2\<rparr>)"
    by (simp add: on_transport_def r)
  have "exchange cr tag req ?c = (Pending, ?c1\<lparr>transport := t2\<rparr>)"
    using n s o p by (simp add: exchange_def Let_def lift_res_def await_def)
  then have "round_trip cr tag req c = (Pending, ?c1\<lparr>transport := t2\<rparr>)"
    using assms(1) by (simp add: round_trip_def ready_def)
  then show ?thesis by (intro exI [of _ "?c1\<lparr>transport := t2\<rparr>"]) (simp add: round_trip_def)
qed

lemma silent_node_blocks_witness:
  "\<exists>c'. round_trip test_crates 1 [2] (answering [3, 4] \<lparr>transport := from_open
         \<lparr>delivers = (\<lambda>_. [OtherData]), hangs_up = (\<lambda>_. False), send_fault = (\<lambda>_. None)\<rparr>\<rparr>) = (Pending, c')
     \<and> (\<forall>tag' req'. round_trip test_crates tag' req' c' = (Pending, c'))"
  by (rule silent_node_blocks [OF _ _ refl])
    (simp_all add: answering_def ready_def MAX_SEQ_def faultless_def from_open_def after_send_def Let_def
      pending_bytes_def untaken_def receiver_def FrameBuf_new_def parse_frame_def List.map_filter_def)


end
