(* ===== verification/Payment.thy ===== *)
theory Payment
  imports Formats Crates
begin

text \<open>
  \<open>src/payment.rs\<close>: the payment types in their wire order, the payload a node signs, the check of a
  quote's signature, the quote hash, and the tagged single-node payment proof. \<open>to_vec\<close> and
  \<open>from_slice\<close> are the two functions of \<open>rmp_serde\<close>.
\<close>

section \<open>Data\<close>

definition PROOF_TAG_SINGLE_NODE :: byte where "PROOF_TAG_SINGLE_NODE = 0x01"

record Timestamp =
  secs :: u64
  nanos :: u32

definition from_secs :: "u64 \<Rightarrow> Timestamp" where
  "from_secs s = \<lparr>secs = s, nanos = 0\<rparr>"

record Quote =
  content :: "byte list"
  timestamp :: Timestamp
  price :: "byte list"
  rewards_address :: "byte list"
  pub_key :: "byte list"
  signature :: "byte list"
  committed_key_count :: u32
  commitment_pin :: "byte list option"

type_synonym PeerId = "byte list"
type_synonym TxHash = "byte list"

record ProofOfPayment =
  peer_quotes :: "(PeerId \<times> Quote) list"

record PaymentProof =
  proof_of_payment :: ProofOfPayment
  tx_hashes :: "TxHash list"
  commitment_sidecars :: "byte list list"

datatype PaymentError =
    Decode string
  | Encode string
  | BadProofTag "byte option"

fun display_payment_error :: "PaymentError \<Rightarrow> string" where
  "display_payment_error (Decode e) = ''payment decode failed: '' @ e"
| "display_payment_error (Encode e) = ''payment encode failed: '' @ e"
| "display_payment_error (BadProofTag (Some tag)) = ''unexpected proof tag byte 0x'' @ show_byte_hex tag"
| "display_payment_error (BadProofTag None) = ''empty proof bytes''"

section \<open>Serialization of byte arrays\<close>

text \<open>
  The modules \<open>bin_bytes_32\<close> and \<open>bin_bytes_20\<close>: an array as a byte buffer, read back by a visitor that is
  shown a buffer or a sequence, whichever the format has found. The elements of a sequence are what
  \<open>next_element\<close> returns, one after the other; that a value is of another kind is the format's error. Then \<open>seq_bytes_32\<close>: an array as a sequence.
\<close>

definition bin_bytes_serialize :: "byte list \<Rightarrow> sval" where
  "bin_bytes_serialize bytes = SBytes bytes"

definition visit_bytes :: "nat \<Rightarrow> byte list \<Rightarrow> byte list result" where
  "visit_bytes n v =
     (if length v = n then Inr v
      else Inl (''expected '' @ show_nat n @ '' bytes, got '' @ show_nat (length v)))"

text \<open>The loop over the slots from the \<open>i\<close>-th on.\<close>

fun visit_seq :: "nat \<Rightarrow> nat \<Rightarrow> byte result list \<Rightarrow> byte list result" where
  "visit_seq 0 i seq = Inr []"
| "visit_seq (Suc slots) i [] =
     Inl (''invalid length '' @ show_nat i @ '', expected exactly '' @ show_nat (i + Suc slots) @ '' bytes'')"
| "visit_seq (Suc slots) i (element # seq) =
     res_bind element (\<lambda>b. res_bind (visit_seq slots (Suc i) seq) (\<lambda>out. Inr (b # out)))"

definition next_u8 :: "sval \<Rightarrow> byte result" where
  "next_u8 v = (case un_u8 v of Some b \<Rightarrow> Inr b | None \<Rightarrow> Inl ''invalid type'')"

fun bin_bytes_deserialize :: "nat \<Rightarrow> sval \<Rightarrow> byte list result" where
  "bin_bytes_deserialize n (SBytes v) = visit_bytes n v"
| "bin_bytes_deserialize n (SSeq vs) = visit_seq n 0 (map next_u8 vs)"
| "bin_bytes_deserialize n _ = Inl ''invalid type''"

definition seq_bytes_serialize :: "byte list \<Rightarrow> sval" where
  "seq_bytes_serialize bytes = sv_list SU8 bytes"

definition seq_bytes_deserialize :: "sval \<Rightarrow> byte list result" where
  "seq_bytes_deserialize v =
     (case un_list un_u8 v of
        None \<Rightarrow> Inl ''invalid type''
      | Some bytes \<Rightarrow> if length bytes = 32 then Inr bytes
          else Inl (''Expected 32 bytes, got '' @ show_nat (length bytes)))"

definition ok_option :: "'a result \<Rightarrow> 'a option" where
  "ok_option r = (case r of Inr x \<Rightarrow> Some x | Inl _ \<Rightarrow> None)"

lemma ok_option_simps [simp]: "ok_option (Inr x) = Some x" "ok_option (Inl e) = None"
  by (simp_all add: ok_option_def)

lemma bin_bytes_sized [simp]: "length bs = n \<Longrightarrow> bin_bytes_deserialize n (SBytes bs) = Inr bs"
  by (simp add: visit_bytes_def)

lemma seq_bytes_sized [simp]: "length bs = 32 \<Longrightarrow> seq_bytes_deserialize (sv_list SU8 bs) = Inr bs"
  using those_map_SU8 [of bs] by (simp add: seq_bytes_deserialize_def sv_list_def)

text \<open>
  A sequence is read up to the length of the array: what follows is not asked for. So a sequence that is
  too long is accepted, although a buffer that is too long is not.
\<close>

lemma visit_seq_Inr: "visit_seq n i seq = Inr out \<longleftrightarrow> length out = n \<and> take n seq = map Inr out"
proof (induction n i seq arbitrary: out rule: visit_seq.induct)
  case (3 slots i element seq)
  then show ?case by (cases out) (auto simp: res_iff)
qed auto

lemma bin_bytes_surplus:
  assumes "length bs = n"
  shows "bin_bytes_deserialize n (SSeq (map SU8 (bs @ extra))) = Inr bs"
    and "extra \<noteq> [] \<Longrightarrow> \<exists>e. bin_bytes_deserialize n (SBytes (bs @ extra)) = Inl e"
  using assms by (auto simp: visit_seq_Inr visit_bytes_def next_u8_def)

section \<open>Derived serialization\<close>

definition sv_Timestamp :: "Timestamp \<Rightarrow> sval" where
  "sv_Timestamp t = SStruct [SU64 (secs t), SU32 (nanos t)]"

definition sv_Quote :: "Quote \<Rightarrow> sval" where
  "sv_Quote q = SStruct [sv_array (content q), sv_Timestamp (timestamp q), bin_bytes_serialize (price q),
     bin_bytes_serialize (rewards_address q), sv_list SU8 (pub_key q), sv_list SU8 (signature q),
     SU32 (committed_key_count q), sv_opt sv_array (commitment_pin q)]"

text \<open>\<open>PeerId\<close> and \<open>TxHash\<close> are newtype structs over a sequence and a byte buffer of 32.\<close>

definition sv_PeerId :: "PeerId \<Rightarrow> sval" where
  "sv_PeerId p = SNewtype (seq_bytes_serialize p)"

definition sv_TxHash :: "TxHash \<Rightarrow> sval" where
  "sv_TxHash h = SNewtype (bin_bytes_serialize h)"

definition sv_ProofOfPayment :: "ProofOfPayment \<Rightarrow> sval" where
  "sv_ProofOfPayment p = SStruct [sv_list (\<lambda>(i, q). STuple [sv_PeerId i, sv_Quote q]) (peer_quotes p)]"

definition sv_PaymentProof :: "PaymentProof \<Rightarrow> sval" where
  "sv_PaymentProof p = SStruct [sv_ProofOfPayment (proof_of_payment p), sv_list sv_TxHash (tx_hashes p),
     sv_list (sv_list SU8) (commitment_sidecars p)]"

definition ty_Timestamp :: sty where
  "ty_Timestamp = TStruct [TU64, TU32]"

definition ty_Quote :: sty where
  "ty_Quote = TStruct [array_ty 32, ty_Timestamp, TBytes 32, TBytes 20, TSeq TU8, TSeq TU8,
     TDefault (SU32 0) TU32, TDefault SNone (TOption (array_ty 32))]"

definition ty_PeerId :: sty where "ty_PeerId = TNewtype (TSeqN 32 TU8)"

definition ty_TxHash :: sty where "ty_TxHash = TNewtype (TBytes 32)"

definition ty_ProofOfPayment :: sty where
  "ty_ProofOfPayment = TStruct [TSeq (TTuple [ty_PeerId, ty_Quote])]"

definition ty_PaymentProof :: sty where
  "ty_PaymentProof = TStruct [ty_ProofOfPayment, TSeq ty_TxHash, TDefault (SSeq []) (TSeq (TSeq TU8))]"

fun un_Timestamp :: "sval \<Rightarrow> Timestamp option" where
  "un_Timestamp (SStruct [s, n]) = ap (ap (Some Timestamp.make) (un_u64 s)) (un_u32 n)"
| "un_Timestamp _ = None"

fun un_Quote :: "sval \<Rightarrow> Quote option" where
  "un_Quote (SStruct (c # t # p # r # vs)) =
     (case vs of [k, s, n, m] \<Rightarrow>
        ap (ap (ap (ap (ap (ap (ap (ap (Some Quote.make) (un_array c)) (un_Timestamp t)) (ok_option (bin_bytes_deserialize 32 p)))
          (ok_option (bin_bytes_deserialize 20 r))) (un_list un_u8 k)) (un_list un_u8 s)) (un_u32 n)) (un_opt un_array m)
      | _ \<Rightarrow> None)"
| "un_Quote _ = None"

fun un_PeerId :: "sval \<Rightarrow> PeerId option" where
  "un_PeerId (SNewtype v) = ok_option (seq_bytes_deserialize v)" | "un_PeerId _ = None"

fun un_TxHash :: "sval \<Rightarrow> TxHash option" where
  "un_TxHash (SNewtype v) = ok_option (bin_bytes_deserialize 32 v)" | "un_TxHash _ = None"

fun un_ProofOfPayment :: "sval \<Rightarrow> ProofOfPayment option" where
  "un_ProofOfPayment (SStruct [qs]) =
     map_option ProofOfPayment.make (un_list (un_pair un_PeerId un_Quote) qs)"
| "un_ProofOfPayment _ = None"

fun un_PaymentProof :: "sval \<Rightarrow> PaymentProof option" where
  "un_PaymentProof (SStruct [p, h, s]) =
     ap (ap (ap (Some PaymentProof.make) (un_ProofOfPayment p)) (un_list un_TxHash h))
       (un_list (un_list un_u8) s)"
| "un_PaymentProof _ = None"

declare bin_bytes_serialize_def [simp] seq_bytes_serialize_def [simp] bin_bytes_deserialize.simps(1) [simp del]

text \<open>The array lengths of the Rust types.\<close>

definition wf_Quote :: "Quote \<Rightarrow> bool" where
  "wf_Quote q \<longleftrightarrow> length (content q) = 32 \<and> length (price q) = 32 \<and> length (rewards_address q) = 20
     \<and> pred_option (\<lambda>p. length p = 32) (commitment_pin q)"

definition wf_ProofOfPayment :: "ProofOfPayment \<Rightarrow> bool" where
  "wf_ProofOfPayment p \<longleftrightarrow> list_all (\<lambda>(i, q). length i = 32 \<and> wf_Quote q) (peer_quotes p)"

definition wf_PaymentProof :: "PaymentProof \<Rightarrow> bool" where
  "wf_PaymentProof p \<longleftrightarrow> wf_ProofOfPayment (proof_of_payment p) \<and> list_all (\<lambda>h. length h = 32) (tx_hashes p)"

section \<open>Operations\<close>

definition parse_quote :: "(sty \<Rightarrow> byte list \<Rightarrow> sval result) \<Rightarrow> byte list \<Rightarrow> PaymentError + Quote" where
  "parse_quote from_slice bytes = map_err Decode (read_value from_slice ty_Quote un_Quote bytes)"

definition encode_quote :: "(sval \<Rightarrow> byte list result) \<Rightarrow> Quote \<Rightarrow> PaymentError + byte list" where
  "encode_quote to_vec q = map_err Encode (to_vec (sv_Quote q))"

definition bytes_for_sig :: "Quote \<Rightarrow> byte list" where
  "bytes_for_sig q =
     (let bytes = content q @ u64_to_le (secs (timestamp q)) @ rev (price q) @ rewards_address q
        @ u32_to_le (committed_key_count q) in
      case commitment_pin q of
        Some pin \<Rightarrow> bytes @ [1] @ pin
      | None \<Rightarrow> bytes @ [0])"

definition PK_LEN :: nat where "PK_LEN = 1952"
definition SIG_LEN :: nat where "SIG_LEN = 3309"

definition verify_quote :: "crates \<Rightarrow> Quote \<Rightarrow> bool" where
  "verify_quote cr q =
     (if length (pub_key q) \<noteq> PK_LEN then False
      else if length (signature q) \<noteq> SIG_LEN then False
      else if \<not> dsa_pk_ok cr (pub_key q) then False
      else dsa_verify cr (pub_key q) (bytes_for_sig q) (signature q) [])"

text \<open>What \<open>quote_hash\<close> feeds to the hasher, and the hash.\<close>

definition quote_preimage :: "Quote \<Rightarrow> byte list" where
  "quote_preimage q = bytes_for_sig q @ pub_key q @ signature q"

definition quote_hash :: "crates \<Rightarrow> Quote \<Rightarrow> byte list" where
  "quote_hash cr q = keccak256 cr (quote_preimage q)"

definition encode_proof :: "(sval \<Rightarrow> byte list result) \<Rightarrow> PaymentProof \<Rightarrow> PaymentError + byte list" where
  "encode_proof to_vec proof =
     res_bind (map_err Encode (to_vec (sv_PaymentProof proof)))
       (\<lambda>body. Inr ([PROOF_TAG_SINGLE_NODE] @ body))"

definition serialize_single_node_proof ::
    "(sval \<Rightarrow> byte list result) \<Rightarrow> (byte list \<times> Quote) list \<Rightarrow> byte list \<Rightarrow> byte list list
      \<Rightarrow> PaymentError + byte list" where
  "serialize_single_node_proof to_vec pqs tx_hash sidecars =
     encode_proof to_vec
       \<lparr>proof_of_payment = \<lparr>peer_quotes = pqs\<rparr>, tx_hashes = [tx_hash], commitment_sidecars = sidecars\<rparr>"

definition parse_single_node_proof ::
    "(sty \<Rightarrow> byte list \<Rightarrow> sval result) \<Rightarrow> byte list \<Rightarrow> PaymentError + PaymentProof" where
  "parse_single_node_proof from_slice bytes =
     (case bytes of
        [] \<Rightarrow> Inl (BadProofTag None)
      | tag # rest \<Rightarrow>
          if tag = PROOF_TAG_SINGLE_NODE
          then map_err Decode (read_value from_slice ty_PaymentProof un_PaymentProof rest)
          else Inl (BadProofTag (Some tag)))"

section \<open>Wire types\<close>

interpretation wts: wire_type ty_Timestamp sv_Timestamp un_Timestamp "\<lambda>_. True"
proof
  fix v assume "conforms ty_Timestamp v"
  then obtain s n where "v = SStruct [SU64 s, SU32 n]"
    by (auto simp: ty_Timestamp_def serde_simps dest!: wire_images)
  then show "\<exists>t. v = sv_Timestamp t \<and> True"
    by (intro exI [of _ "Timestamp.make s n"]) (simp add: sv_Timestamp_def Timestamp.defs)
qed (auto simp: ty_Timestamp_def sv_Timestamp_def serde_simps wire_writes wire_reads Timestamp.defs)

interpretation wq: wire_type ty_Quote sv_Quote un_Quote wf_Quote
proof
  fix v assume "conforms ty_Quote v"
  then obtain c t p r k s n m where
    "v = SStruct [sv_array c, sv_Timestamp t, SBytes p, SBytes r, sv_list SU8 k, sv_list SU8 s, SU32 n,
       sv_opt sv_array m]" "length c = 32" "length p = 32" "length r = 20" "pred_option (\<lambda>p. length p = 32) m"
    by (auto simp: ty_Quote_def serde_simps dest!: wire_images wts.conforms_image)
  then show "\<exists>q. v = sv_Quote q \<and> wf_Quote q"
    by (intro exI [of _ "Quote.make c t p r k s n m"]) (simp add: sv_Quote_def Quote.defs wf_Quote_def)
qed (auto simp: ty_Quote_def sv_Quote_def wf_Quote_def serde_simps wire_writes wire_reads Quote.defs
    wts.sv_conforms wts.un_sv list.pred_True)

interpretation wpid: wire_type ty_PeerId sv_PeerId un_PeerId "\<lambda>p. length p = 32"
  by unfold_locales (auto simp: ty_PeerId_def sv_PeerId_def serde_simps wire_writes wire_reads
      list.pred_True dest!: wire_images)

interpretation wtx: wire_type ty_TxHash sv_TxHash un_TxHash "\<lambda>h. length h = 32"
  by unfold_locales (auto simp: ty_TxHash_def sv_TxHash_def serde_simps wire_writes wire_reads
      dest!: wire_images)

lemmas wpair = wire_pair [OF wpid.wire_type_axioms wq.wire_type_axioms]

interpretation wpqs: wire_type "TSeq (TTuple [ty_PeerId, ty_Quote])"
    "sv_list (\<lambda>(i, q). STuple [sv_PeerId i, sv_Quote q])" "un_list (un_pair un_PeerId un_Quote)"
    "list_all (\<lambda>(i, q). length i = 32 \<and> wf_Quote q)"
  by (rule wire_list [OF wpair])

interpretation wtxs: wire_type "TSeq ty_TxHash" "sv_list sv_TxHash" "un_list un_TxHash"
    "list_all (\<lambda>h. length h = 32)"
  by (rule wire_list [OF wtx.wire_type_axioms])

interpretation wpop: wire_type ty_ProofOfPayment sv_ProofOfPayment un_ProofOfPayment wf_ProofOfPayment
proof
  fix v assume "conforms ty_ProofOfPayment v"
  then obtain qs where "v = SStruct [sv_list (\<lambda>(i, q). STuple [sv_PeerId i, sv_Quote q]) qs]"
      "list_all (\<lambda>(i, q). length i = 32 \<and> wf_Quote q) qs"
    by (auto simp: ty_ProofOfPayment_def conforms_struct conforms_all_Cons conforms_all_Nil
        dest!: wpqs.conforms_image)
  then show "\<exists>p. v = sv_ProofOfPayment p \<and> wf_ProofOfPayment p"
    by (intro exI [of _ "ProofOfPayment.make qs"])
      (simp add: sv_ProofOfPayment_def ProofOfPayment.defs wf_ProofOfPayment_def)
qed (auto simp: ty_ProofOfPayment_def sv_ProofOfPayment_def wf_ProofOfPayment_def conforms_struct
    conforms_all_Cons conforms_all_Nil wpqs.sv_conforms wpqs.un_sv ProofOfPayment.defs)

interpretation wpp: wire_type ty_PaymentProof sv_PaymentProof un_PaymentProof wf_PaymentProof
proof
  fix v assume "conforms ty_PaymentProof v"
  then obtain p h s where "v = SStruct [sv_ProofOfPayment p, sv_list sv_TxHash h, sv_list (sv_list SU8) s]"
      "wf_ProofOfPayment p" "list_all (\<lambda>h. length h = 32) h"
    by (auto simp: ty_PaymentProof_def serde_simps
        dest!: wvecs.conforms_image wpop.conforms_image wtxs.conforms_image)
  then show "\<exists>p. v = sv_PaymentProof p \<and> wf_PaymentProof p"
    by (intro exI [of _ "PaymentProof.make p h s"])
      (simp add: sv_PaymentProof_def PaymentProof.defs wf_PaymentProof_def)
qed (auto simp: ty_PaymentProof_def sv_PaymentProof_def wf_PaymentProof_def serde_simps
    wpop.sv_conforms wpop.un_sv wtxs.sv_conforms wtxs.un_sv wvecs.sv_conforms wvecs.un_sv
    PaymentProof.defs list.pred_True)


text \<open>Both payloads are codecs over any format that is one, and over the MessagePack instance.\<close>

lemma payment_shapes: "codec_ty ty_Quote" "codec_ty ty_PaymentProof"
  by (simp_all add: ty_Quote_def ty_PaymentProof_def ty_Timestamp_def ty_ProofOfPayment_def ty_PeerId_def
      ty_TxHash_def conforms_basic conforms_seq conforms_option)

lemma quote_codec: "serde_codec tb fb \<Longrightarrow> wire_codec tb fb ty_Quote sv_Quote un_Quote wf_Quote"
  by (intro wire_codec.intro wire_codec_axioms.intro wq.wire_type_axioms payment_shapes)

lemma proof_codec:
  "serde_codec tb fb \<Longrightarrow> wire_codec tb fb ty_PaymentProof sv_PaymentProof un_PaymentProof wf_PaymentProof"
  by (intro wire_codec.intro wire_codec_axioms.intro wpp.wire_type_axioms payment_shapes)

interpretation mp_quote: wire_codec "fmt_to_bytes msgpack_fmt" "fmt_from_bytes msgpack_fmt"
    ty_Quote sv_Quote un_Quote wf_Quote
  by (rule quote_codec) unfold_locales

interpretation mp_proof: wire_codec "fmt_to_bytes msgpack_fmt" "fmt_from_bytes msgpack_fmt"
    ty_PaymentProof sv_PaymentProof un_PaymentProof wf_PaymentProof
  by (rule proof_codec) unfold_locales

section \<open>What a signature and a quote hash bind\<close>

text \<open>The fields the node signs: every field of the quote but the sub-second part of its time.\<close>

definition signed_fields :: "Quote \<Rightarrow> byte list \<times> u64 \<times> byte list \<times> byte list \<times> u32 \<times> byte list option" where
  "signed_fields q = (content q, secs (timestamp q), price q, rewards_address q, committed_key_count q,
     commitment_pin q)"

definition pin_bytes :: "byte list option \<Rightarrow> byte list" where
  "pin_bytes p = (case p of None \<Rightarrow> [0] | Some pin \<Rightarrow> 1 # pin)"

lemma bytes_for_sig_eq:
  "bytes_for_sig q = content q @ u64_to_le (secs (timestamp q)) @ rev (price q) @ rewards_address q
     @ u32_to_le (committed_key_count q) @ pin_bytes (commitment_pin q)"
  by (simp add: bytes_for_sig_def pin_bytes_def Let_def split: option.splits)

lemma pin_bytes_inj: "pin_bytes p = pin_bytes p' \<longleftrightarrow> p = p'"
  by (simp add: pin_bytes_def split: option.splits)

lemma length_bytes_for_sig:
  "wf_Quote q \<Longrightarrow> length (bytes_for_sig q) = (if commitment_pin q = None then 97 else 129)"
  by (auto simp: bytes_for_sig_eq pin_bytes_def wf_Quote_def split: option.splits)

lemma bytes_for_sig_append:
  assumes "wf_Quote q" and "wf_Quote q'"
    and "bytes_for_sig q @ x = bytes_for_sig q' @ y" and "length x = length y"
  shows "signed_fields q = signed_fields q' \<and> x = y"
proof -
  have xy: "x = y" and eq: "bytes_for_sig q = bytes_for_sig q'"
    using assms(3,4) by simp_all
  with assms show ?thesis
    by (auto simp: bytes_for_sig_eq signed_fields_def wf_Quote_def pin_bytes_inj)
qed

text \<open>The payload a node signs identifies the quote's contents: two quotes of the wire shape have
  the same payload exactly when they agree on the address, the time in whole seconds, the price, the
  rewards account, the committed key count and the commitment pin. A pin of 32 bytes and an absent
  pin never produce the same payload.\<close>
lemma bytes_for_sig_injective:
  "wf_Quote q \<and> wf_Quote q' \<Longrightarrow> bytes_for_sig q = bytes_for_sig q' \<longleftrightarrow> signed_fields q = signed_fields q'"
  using bytes_for_sig_append [of q q' "[]" "[]"]
  by (auto simp: bytes_for_sig_eq signed_fields_def)

text \<open>A small quote, for the witnesses.\<close>

definition test_quote :: "byte list option \<Rightarrow> Quote" where
  "test_quote pin = \<lparr>content = replicate 32 3, timestamp = \<lparr>secs = 5, nanos = 6\<rparr>, price = replicate 32 1,
     rewards_address = replicate 20 2, pub_key = [4, 5], signature = [6], committed_key_count = 7,
     commitment_pin = pin\<rparr>"

lemma test_quote_wf: "wf_Quote (test_quote None)" "wf_Quote (test_quote (Some (replicate 32 0)))"
  by (simp_all add: test_quote_def wf_Quote_def)

lemma bytes_for_sig_injective_witness:
  "bytes_for_sig (test_quote None) \<noteq> bytes_for_sig (test_quote (Some (replicate 32 0)))
   \<and> bytes_for_sig (test_quote None) = bytes_for_sig (test_quote None \<lparr>timestamp := \<lparr>secs = 5, nanos = 0\<rparr>\<rparr>)"
  using bytes_for_sig_injective [of "test_quote None" "test_quote (Some (replicate 32 0))"]
    bytes_for_sig_injective [of "test_quote None" "test_quote None \<lparr>timestamp := \<lparr>secs = 5, nanos = 0\<rparr>\<rparr>"]
    test_quote_wf
  by (simp add: wf_Quote_def signed_fields_def) (simp add: test_quote_def)

text \<open> C35. The quote hash commits to the whole verified quote: for two quotes of the wire shape that
  \<open>verify_quote\<close> accepts, equal hash preimages mean equal signed fields, equal keys and equal
  signatures. Without the key and signature lengths that \<open>verify_quote\<close> enforces this fails, since
  the preimage is a plain concatenation.\<close>
theorem quote_preimage_binds:
  assumes "wf_Quote q" and "wf_Quote q'" and "verify_quote cr q" and "verify_quote cr q'"
    and "quote_preimage q = quote_preimage q'"
  shows "q' = q \<lparr>timestamp := \<lparr>secs = secs (timestamp q), nanos = nanos (timestamp q')\<rparr>\<rparr>"
proof -
  have len: "length (pub_key q) = length (pub_key q')" "length (signature q) = length (signature q')"
    using assms(3,4) by (auto simp: verify_quote_def split: if_splits)
  then have "signed_fields q = signed_fields q' \<and> pub_key q @ signature q = pub_key q' @ signature q'"
    using assms(5) by (intro bytes_for_sig_append [OF assms(1,2)]) (simp_all add: quote_preimage_def)
  with len show ?thesis
    by (simp add: signed_fields_def Quote.equality Timestamp.equality)
qed

definition signed_quote :: Quote where
  "signed_quote = test_quote None \<lparr>pub_key := replicate 1952 1, signature := replicate 3309 2\<rparr>"

lemma quote_preimage_binds_witness:
  "verify_quote test_crates signed_quote
   \<and> signed_quote = signed_quote \<lparr>timestamp := \<lparr>secs = 5, nanos = 6\<rparr>\<rparr>"
  using quote_preimage_binds [of signed_quote signed_quote test_crates]
  by (simp add: signed_quote_def test_quote_def wf_Quote_def verify_quote_def PK_LEN_def SIG_LEN_def)

text \<open>A quote is accepted exactly when its key and signature have the ML-DSA-65 lengths, the key
  is well formed, and the signature over the signed payload verifies under the empty context; on
  every other quote the answer is \<open>False\<close>, never a panic.\<close>
lemma verify_quote_iff:
  "verify_quote cr q \<longleftrightarrow> length (pub_key q) = 1952 \<and> length (signature q) = 3309 \<and> dsa_pk_ok cr (pub_key q)
     \<and> dsa_verify cr (pub_key q) (bytes_for_sig q) (signature q) []"
  by (simp add: verify_quote_def PK_LEN_def SIG_LEN_def)

text \<open>Without those lengths, the concatenation does not separate the key from the signature.\<close>

lemma quote_preimage_ambiguous:
  "quote_preimage (test_quote None) =
     quote_preimage (test_quote None \<lparr>pub_key := [4], signature := [5, 6]\<rparr>)"
  by (simp add: quote_preimage_def bytes_for_sig_eq test_quote_def)

section \<open>The single-node proof\<close>

text \<open> C36. Over any serde codec, the proof the client builds for a PUT parses back to exactly the
  quotes, the payment transaction and the sidecars it was built from, behind the single-node tag.\<close>
theorem single_node_proof_roundtrip:
  assumes "serde_codec to_vec from_slice"
    and "\<forall>(i, q) \<in> set pqs. length i = 32 \<and> wf_Quote q" and "length tx_hash = 32"
    and "serialize_single_node_proof to_vec pqs tx_hash sidecars = Inr bs"
  shows "parse_single_node_proof from_slice bs =
     Inr \<lparr>proof_of_payment = \<lparr>peer_quotes = pqs\<rparr>, tx_hashes = [tx_hash], commitment_sidecars = sidecars\<rparr>"
proof -
  let ?p = "\<lparr>proof_of_payment = \<lparr>peer_quotes = pqs\<rparr>, tx_hashes = [tx_hash], commitment_sidecars = sidecars\<rparr>"
  have "wf_PaymentProof ?p"
    using assms(2,3) by (simp add: wf_PaymentProof_def wf_ProofOfPayment_def list_all_iff)
  moreover obtain body where "to_vec (sv_PaymentProof ?p) = Inr body" "bs = PROOF_TAG_SINGLE_NODE # body"
    using assms(4)
    by (auto simp: serialize_single_node_proof_def encode_proof_def map_err_def res_bind_def split: sum.splits)
  ultimately show ?thesis
    using wire_codec.read_written [OF proof_codec [OF assms(1)]] by (simp add: parse_single_node_proof_def map_err_def)
qed

lemma single_node_proof_roundtrip_witness:
  "\<exists>bs. serialize_single_node_proof (fmt_to_bytes msgpack_fmt) [(replicate 32 9, test_quote None)]
       (replicate 32 8) [[1, 2]] = Inr bs
     \<and> parse_single_node_proof (fmt_from_bytes msgpack_fmt) bs =
         Inr \<lparr>proof_of_payment = \<lparr>peer_quotes = [(replicate 32 9, test_quote None)]\<rparr>,
              tx_hashes = [replicate 32 8], commitment_sidecars = [[1, 2]]\<rparr>"
proof -
  have "\<exists>bs. serialize_single_node_proof (fmt_to_bytes msgpack_fmt) [(replicate 32 9, test_quote None)]
       (replicate 32 8) [[1, 2]] = Inr bs"
    by (simp add: serialize_single_node_proof_def encode_proof_def fmt_to_bytes_def sv_PaymentProof_def
        sv_ProofOfPayment_def sv_list_def sv_PeerId_def sv_TxHash_def sv_Quote_def sv_Timestamp_def
        test_quote_def sv_array_def sv_opt_def mp_len_def res_iff split: option.splits)
  then show ?thesis
    using single_node_proof_roundtrip [OF msgpack.serde_codec_axioms, of "[(replicate 32 9, test_quote None)]"]
    by (auto simp: test_quote_wf)
qed

text \<open>Parsing a proof tells an empty buffer from a foreign tag and never looks past a tag it does
  not know; a result is of the wire shape.\<close>
lemma parse_single_node_proof_cases:
  assumes "serde_codec to_vec from_slice"
  shows "case parse_single_node_proof from_slice bs of
     Inr p \<Rightarrow> wf_PaymentProof p \<and> (\<exists>body. bs = 1 # body)
   | Inl (BadProofTag None) \<Rightarrow> bs = []
   | Inl (BadProofTag (Some tag)) \<Rightarrow> tag \<noteq> 1 \<and> (\<exists>body. bs = tag # body)
   | Inl (Decode e) \<Rightarrow> (\<exists>body. bs = 1 # body \<and> from_slice ty_PaymentProof body = Inl e)
   | Inl (Encode e) \<Rightarrow> False"
proof (cases bs)
  case (Cons tag body)
  show ?thesis
  proof (cases "read_value from_slice ty_PaymentProof un_PaymentProof body")
    case (Inl e)
    with Cons wire_codec.read_error [OF proof_codec [OF assms] Inl] show ?thesis
      by (simp add: parse_single_node_proof_def map_err_def PROOF_TAG_SINGLE_NODE_def)
  next
    case (Inr p)
    with Cons wire_codec.read_wf [OF proof_codec [OF assms] Inr] show ?thesis
      by (simp add: parse_single_node_proof_def map_err_def PROOF_TAG_SINGLE_NODE_def)
  qed
qed (simp add: parse_single_node_proof_def)

lemma parse_single_node_proof_cases_witness:
  "case parse_single_node_proof (fmt_from_bytes msgpack_fmt) [2, 0x93] of
     Inl (BadProofTag (Some tag)) \<Rightarrow> tag = 2 | _ \<Rightarrow> False"
  using parse_single_node_proof_cases [OF msgpack.serde_codec_axioms, of "[2, 0x93]"]
  by (simp add: parse_single_node_proof_def PROOF_TAG_SINGLE_NODE_def)

end
