(* ===== verification/Evm.thy ===== *)
theory Evm
  imports Payment "HOL-Library.Multiset" "HOL-Library.Product_Lexorder"
begin

text \<open>
  \<open>src/evm.rs\<close>: ABI calldata for the two contract calls, big-endian 256-bit arithmetic with its
  fixed-width carries, and the single-node payment split. A \<open>[u8; 32]\<close> is a byte list; the lengths the
  Rust types guarantee are hypotheses of the lemmas that need them.
\<close>

unbundle bit_operations_syntax

section \<open>Operations\<close>

type_synonym DataPayment = "byte list \<times> byte list \<times> byte list"

definition ERC20_APPROVE_SELECTOR :: "byte list" where
  "ERC20_APPROVE_SELECTOR = [0x09, 0x5e, 0xa7, 0xb3]"

definition CLOSE_GROUP_SIZE :: nat where "CLOSE_GROUP_SIZE = 7"

definition word_from_address :: "byte list \<Rightarrow> byte list" where
  "word_from_address addr = take 12 (replicate 32 0) @ addr"

definition approve_calldata :: "byte list \<Rightarrow> byte list \<Rightarrow> byte list" where
  "approve_calldata spender amount = ERC20_APPROVE_SELECTOR @ word_from_address spender @ amount"

definition pay_for_quotes_selector :: "crates \<Rightarrow> byte list" where
  "pay_for_quotes_selector cr =
     (let digest = keccak256 cr (str_bytes ''payForQuotes((address,uint256,bytes32)[])'') in
      [digest ! 0, digest ! 1, digest ! 2, digest ! 3])"

definition pay_for_quotes_calldata :: "crates \<Rightarrow> DataPayment list \<Rightarrow> byte list" where
  "pay_for_quotes_calldata cr payments =
     (let offset = (replicate 32 0)[31 := 0x20];
          len_word = take 24 (replicate 32 0) @ u64_to_be (of_nat (length payments)) in
      pay_for_quotes_selector cr @ offset @ len_word @
      concat (map (\<lambda>(rewards, amount, quote_hash). word_from_address rewards @ amount @ quote_hash) payments))"

text \<open>
  The loop both arithmetic routines run: from the last byte to the first, a sum at the carry's width,
  its low byte stored and the rest carried.
\<close>

definition carry_step :: "(nat \<Rightarrow> 'c :: len word \<Rightarrow> 'c word) \<Rightarrow> nat \<Rightarrow> byte list \<times> 'c word \<Rightarrow> byte list \<times> 'c word" where
  "carry_step sum_at i s =
     (let sum = sum_at i (snd s) in ((fst s)[i := ucast (sum AND 0xff)], drop_bit 8 sum))"

definition carry_loop :: "(nat \<Rightarrow> 'c :: len word \<Rightarrow> 'c word) \<Rightarrow> byte list" where
  "carry_loop sum_at = fst (fold (carry_step sum_at) (rev [0..<32]) (replicate 32 0, 0))"

definition u256_add :: "byte list \<Rightarrow> byte list \<Rightarrow> byte list" where
  "u256_add a b = carry_loop (\<lambda>i (carry :: u16). ucast (a ! i) + ucast (b ! i) + carry)"

definition u256_mul_u64 :: "byte list \<Rightarrow> u64 \<Rightarrow> byte list" where
  "u256_mul_u64 a m = carry_loop (\<lambda>i (carry :: 128 word). ucast (a ! i) * ucast m + carry)"

text \<open>\<open>core::cmp::Ordering\<close>, and the lexicographic order of arrays.\<close>

datatype Ordering = Less | Equal | Greater

fun u256_cmp :: "byte list \<Rightarrow> byte list \<Rightarrow> Ordering" where
  "u256_cmp [] [] = Equal"
| "u256_cmp [] (b # bs) = Less"
| "u256_cmp (a # as) [] = Greater"
| "u256_cmp (a # as) (b # bs) = (if a < b then Less else if b < a then Greater else u256_cmp as bs)"

definition total_amount :: "DataPayment list \<Rightarrow> byte list" where
  "total_amount payments = foldl (\<lambda>acc (_, amount, _). u256_add acc amount) (replicate 32 0) payments"

text \<open>\<open>slice::sort_by\<close>, which is stable: an element goes before the first that is not smaller.\<close>

primrec insert_by :: "('a \<Rightarrow> 'a \<Rightarrow> Ordering) \<Rightarrow> 'a \<Rightarrow> 'a list \<Rightarrow> 'a list" where
  "insert_by cmp x [] = [x]"
| "insert_by cmp x (y # ys) = (if cmp x y = Greater then y # insert_by cmp x ys else x # y # ys)"

definition sort_by :: "('a \<Rightarrow> 'a \<Rightarrow> Ordering) \<Rightarrow> 'a list \<Rightarrow> 'a list" where
  "sort_by cmp xs = foldr (insert_by cmp) xs []"

definition ranked :: "Quote list \<Rightarrow> nat list" where
  "ranked quotes = sort_by (\<lambda>i j. u256_cmp (price (quotes ! i)) (price (quotes ! j))) [0..<length quotes]"

definition payment_split :: "crates \<Rightarrow> Quote list \<Rightarrow> DataPayment list result" where
  "payment_split cr quotes =
     (if length quotes \<noteq> CLOSE_GROUP_SIZE
      then Inl (''payment split needs exactly 7 quotes, got '' @ show_nat (length quotes))
      else
        let median_idx = ranked quotes ! 3;
            median_price_x3 = u256_mul_u64 (price (quotes ! median_idx)) 3 in
        Inr (map (\<lambda>(i, q).
               let amount = (if i = median_idx then median_price_x3 else replicate 32 0) in
               (rewards_address q, amount, quote_hash cr q))
             (enumerate 0 quotes)))"

section \<open>Carry loops\<close>

lemma be_val_sum: "be_val bs = (\<Sum>i<length bs. unat (bs ! i) * 256 ^ (length bs - Suc i))"
proof (induction bs)
  case (Cons b bs)
  then show ?case by (simp add: be_val_Cons sum.lessThan_Suc_shift del: sum.lessThan_Suc)
qed (simp add: be_val_def)

lemma be_bytes_mod: "be_bytes n (x mod 256 ^ n) = be_bytes n x"
  using be_bytes_val [of "be_bytes n x"] by (simp add: be_val_bytes)

lemma Suc_diff_31: "32 - Suc i = 31 - i"
  by simp

lemma lead_digit: "x < y \<Longrightarrow> v < p \<Longrightarrow> x * p + v < y * p + (w :: nat)"
proof -
  assume "x < y" "v < p"
  then have "x * p + v < Suc x * p" by simp
  also have "\<dots> \<le> y * p" using \<open>x < y\<close> by (intro mult_le_mono1) simp
  finally show ?thesis by simp
qed

lemma digit_split: "t mod 256 * 256 ^ n + t div 256 * 256 ^ Suc n = t * (256 :: nat) ^ n"
proof -
  have "(t mod 256 + 256 * (t div 256)) * 256 ^ n = t * 256 ^ n" by simp
  then show ?thesis by (simp only: distrib_left distrib_right mult_ac power_Suc)
qed

lemma unat_drop_byte: "unat (drop_bit 8 (w :: 'c :: len word)) = unat w div 256"
  by (subst unsigned_drop_bit_eq)
    (simp add: drop_bit_eq_div take_bit_nat_eq_self [OF unsigned_less [where ?'a = nat]])

text \<open>
  What the two routines share: the total at position \<open>i\<close> is a digit plus the carry and never
  overflows the carry's type, and the carry stays below a bound.
\<close>

locale carry_chain =
  fixes sum_at :: "nat \<Rightarrow> 'c :: len word \<Rightarrow> 'c word"
    and digit :: "nat \<Rightarrow> nat"
    and bound :: nat
  assumes sum_at: "i < 32 \<Longrightarrow> unat c \<le> bound \<Longrightarrow> unat (sum_at i c) = digit i + unat c"
    and carried: "i < 32 \<Longrightarrow> k \<le> bound \<Longrightarrow> (digit i + k) div 256 \<le> bound"
begin

definition state_ok :: "nat \<Rightarrow> byte list \<times> 'c word \<Rightarrow> bool" where
  "state_ok n s \<longleftrightarrow> length (fst s) = 32 \<and> unat (snd s) \<le> bound
     \<and> (\<Sum>i = 32 - n..<32. unat (fst s ! i) * 256 ^ (31 - i)) + unat (snd s) * 256 ^ n
        = (\<Sum>i = 32 - n..<32. digit i * 256 ^ (31 - i))"

lemma low_byte: "unat (ucast ((w :: 'c word) AND 0xff) :: byte) = unat w mod 256"
proof -
  have "(0xff :: 'c word) = mask 8" by (simp add: mask_eq_exp_minus_1)
  then have "unat (ucast (w AND 0xff) :: byte) = unat (ucast (take_bit 8 w) :: byte)"
    by (simp add: take_bit_eq_mask)
  also have "\<dots> = take_bit 8 (unat w)" by (simp add: unsigned_ucast_eq unsigned_take_bit_eq)
  finally show ?thesis by (simp add: take_bit_eq_mod)
qed

lemma step_ok:
  assumes "state_ok n s" and "n < 32"
  shows "state_ok (Suc n) (carry_step sum_at (31 - n) s)"
proof -
  obtain out c where s: "s = (out, c)" by force
  let ?i = "31 - n" and ?t = "digit (31 - n) + unat c"
  have i: "32 - n = Suc ?i" "?i < 32" "32 - Suc n = ?i" using assms(2) by simp_all
  have c: "length out = 32" "unat c \<le> bound" using assms(1) by (simp_all add: s state_ok_def)
  have t: "unat (sum_at ?i c) = ?t" using sum_at [OF i(2) c(2)] .
  have same: "(\<Sum>j = 32 - n..<32. unat (out[?i := x] ! j) * 256 ^ (31 - j))
      = (\<Sum>j = 32 - n..<32. unat (out ! j) * 256 ^ (31 - j))" for x
    by (rule sum.cong) (use i in auto)
  have split: "(\<Sum>j = ?i..<32. g j) = g ?i + (\<Sum>j = 32 - n..<32. g j)" for g :: "nat \<Rightarrow> nat"
    using i by (simp add: sum.atLeast_Suc_lessThan)
  have dm: "?t mod 256 * 256 ^ n + ?t div 256 * 256 ^ Suc n = ?t * 256 ^ n"
    by (rule digit_split)
  have n: "31 - ?i = n" using assms(2) by simp
  let ?S = "\<Sum>j = 32 - n..<32. unat (out ! j) * 256 ^ (31 - j)"
  let ?D = "\<Sum>j = 32 - n..<32. digit j * 256 ^ (31 - j)"
  have inv: "?S + unat c * 256 ^ n = ?D" using assms(1) by (simp add: s state_ok_def)
  have "?t mod 256 * 256 ^ n + ?S + ?t div 256 * 256 ^ Suc n = digit ?i * 256 ^ n + ?D"
    using dm inv by (simp only: add.commute add.left_commute distrib_right)
  moreover have "unat (drop_bit 8 (sum_at ?i c)) = ?t div 256"
    by (simp only: unat_drop_byte t)
  ultimately show ?thesis
    using c carried [OF i(2) c(2)] i(2)
    unfolding state_ok_def carry_step_def Let_def s fst_conv snd_conv i(3) split same n
    by (simp add: low_byte t n)
qed

lemma loop_ok: "n \<le> 32 \<Longrightarrow> state_ok n (fold (carry_step sum_at) (rev [32 - n..<32]) (replicate 32 0, 0))"
proof (induction n)
  case 0
  then show ?case by (simp add: state_ok_def)
next
  case (Suc n)
  then have "32 - n = Suc (31 - n)" by simp
  with Suc.prems have "[32 - Suc n..<32] = (31 - n) # [32 - n..<32]" by (simp add: upt_conv_Cons)
  with Suc step_ok show ?case by simp
qed

lemma length_loop: "length (carry_loop sum_at) = 32"
  using loop_ok [of 32] by (simp add: carry_loop_def state_ok_def)

theorem loop_val: "be_val (carry_loop sum_at) = (\<Sum>i<32. digit i * 256 ^ (31 - i)) mod 2 ^ 256"
proof -
  let ?s = "fold (carry_step sum_at) (rev [0..<32]) (replicate 32 0, 0)"
  have ok: "length (fst ?s) = 32"
    "(\<Sum>i = 0..<32. unat (fst ?s ! i) * 256 ^ (31 - i)) + unat (snd ?s) * 256 ^ 32
       = (\<Sum>i = 0..<32. digit i * 256 ^ (31 - i))"
    using loop_ok [of 32] unfolding state_ok_def by simp_all
  have "be_val (fst ?s) = (\<Sum>i = 0..<32. unat (fst ?s ! i) * 256 ^ (31 - i))"
    using be_val_sum [of "fst ?s"] by (simp add: ok(1) lessThan_atLeast0)
  with ok(2) have "be_val (fst ?s) + unat (snd ?s) * 256 ^ 32 = (\<Sum>i = 0..<32. digit i * 256 ^ (31 - i))"
    by simp
  moreover have "be_val (fst ?s) < 2 ^ 256" using be_val_bound [of "fst ?s"] by (simp add: ok(1))
  ultimately show ?thesis
    by (simp add: carry_loop_def lessThan_atLeast0 flip: \<open>be_val _ + _ = _\<close>)
qed

end


lemma byte_at_lt: "unat ((bs ! i) :: byte) \<le> 255"
  by (rule less_Suc_eq_le [THEN iffD1]) simp

interpretation add: carry_chain "\<lambda>i (carry :: u16). ucast (a ! i) + ucast (b ! i) + carry"
    "\<lambda>i. unat (a ! i) + unat (b ! i)" 1 for a b :: "byte list"
proof
  fix i and c :: u16 assume c: "unat c \<le> 1"
  have "unat (ucast (a ! i) + ucast (b ! i) + c) = (unat (a ! i) + unat (b ! i) + unat c) mod 2 ^ 16"
    by (simp add: unat_word_ariths unsigned_ucast_eq take_bit_eq_mod mod_simps)
  then show "unat (ucast (a ! i) + ucast (b ! i) + c) = unat (a ! i) + unat (b ! i) + unat c"
    using c byte_at_lt [of a i] byte_at_lt [of b i] by simp
next
  fix i k :: nat assume "k \<le> 1"
  then have "unat (a ! i) + unat (b ! i) + k < 2 * 256"
    using byte_at_lt [of a i] byte_at_lt [of b i] by linarith
  then show "(unat (a ! i) + unat (b ! i) + k) div 256 \<le> 1"
    using less_mult_imp_div_less by fastforce
qed

interpretation mul: carry_chain "\<lambda>i (carry :: 128 word). ucast (a ! i) * ucast m + carry"
    "\<lambda>i. unat (a ! i) * unat m" "2 ^ 64 - 1" for a :: "byte list" and m :: u64
proof
  have digit: "unat (a ! i) * unat m \<le> 255 * (2 ^ 64 - 1)" for i
    using byte_at_lt [of a i] unat_u64_lt [of m] by (intro mult_le_mono) simp_all
  {
    fix i and c :: "128 word" assume c: "unat c \<le> 2 ^ 64 - 1"
    have "unat (ucast (a ! i) * ucast m + c) = (unat (a ! i) * unat m + unat c) mod 2 ^ 128"
      by (simp add: unat_word_ariths unsigned_ucast_eq take_bit_eq_mod mod_simps)
    then show "unat (ucast (a ! i) * ucast m + c) = unat (a ! i) * unat m + unat c"
      using c digit [of i] by simp
  }
  fix i k :: nat assume "k \<le> 2 ^ 64 - 1"
  then show "(unat (a ! i) * unat m + k) div 256 \<le> 2 ^ 64 - 1"
    using digit [of i] by simp
qed

lemma length_u256 [simp]: "length (u256_add a b) = 32" "length (u256_mul_u64 a m) = 32"
  unfolding u256_add_def u256_mul_u64_def by (rule add.length_loop mul.length_loop)+

lemma u256_add_mod:
  assumes "length a = 32" and "length b = 32"
  shows "be_val (u256_add a b) = (be_val a + be_val b) mod 2 ^ 256"
proof -
  have "be_val (u256_add a b) = (\<Sum>i<32. (unat (a ! i) + unat (b ! i)) * 256 ^ (31 - i)) mod 2 ^ 256"
    unfolding u256_add_def by (rule add.loop_val)
  then show ?thesis
    by (simp only: be_val_sum assms distrib_right sum.distrib Suc_diff_31)
qed

lemma u256_mul_mod:
  assumes "length a = 32"
  shows "be_val (u256_mul_u64 a m) = (be_val a * unat m) mod 2 ^ 256"
proof -
  have "be_val (u256_mul_u64 a m) = (\<Sum>i<32. unat (a ! i) * unat m * 256 ^ (31 - i)) mod 2 ^ 256"
    unfolding u256_mul_u64_def by (rule mul.loop_val)
  then show ?thesis
    by (simp only: be_val_sum [of a] assms sum_distrib_right Suc_diff_31 mult.assoc mult.commute [of "unat m"])
qed

lemma u256_eq:
  assumes "length u = 32" and "be_val u = x mod 2 ^ 256"
  shows "u = be_bytes 32 x"
proof -
  have "(2 :: nat) ^ 256 = 256 ^ 32" by simp
  then have "be_bytes 32 x = be_bytes (length u) (be_val u)"
    by (simp only: assms be_bytes_mod)
  then show ?thesis by (simp only: be_bytes_val)
qed

text \<open> C32. \<open>u256_add\<close> is addition modulo \<open>2^256\<close> on the numbers the two arrays stand for: the 16-bit
  carry never overflows.\<close>
theorem u256_add_correct:
  assumes "length a = 32" and "length b = 32"
  shows "u256_add a b = be_bytes 32 (be_val a + be_val b)"
  by (rule u256_eq [OF _ u256_add_mod [OF assms]]) simp

text \<open> C33. \<open>u256_mul_u64\<close> is multiplication modulo \<open>2^256\<close>: the 128-bit products and carries never
  overflow, for every factor.\<close>
theorem u256_mul_u64_correct:
  assumes "length a = 32"
  shows "u256_mul_u64 a m = be_bytes 32 (be_val a * unat m)"
  by (rule u256_eq [OF _ u256_mul_mod [OF assms]]) simp

lemma u256_add_correct_witness:
  "u256_add (be_bytes 32 (2 ^ 256 - 1)) (be_bytes 32 5) = be_bytes 32 4"
proof -
  have "u256_add (be_bytes 32 (2 ^ 256 - 1)) (be_bytes 32 5) = be_bytes 32 (2 ^ 256 - 1 + 5)"
    using u256_add_correct [of "be_bytes 32 (2 ^ 256 - 1)" "be_bytes 32 5"] by (simp add: be_val_bytes)
  also have "\<dots> = be_bytes 32 4" using be_bytes_mod [of 32 "2 ^ 256 - 1 + 5"] by simp
  finally show ?thesis .
qed

lemma u256_mul_u64_correct_witness:
  "u256_mul_u64 (be_bytes 32 1000) 18446744073709551615 = be_bytes 32 18446744073709551615000"
  using u256_mul_u64_correct [of "be_bytes 32 1000" 18446744073709551615] by (simp add: be_val_bytes)

section \<open>Ranking\<close>

text \<open>Big-endian byte order is the numeric order.\<close>

lemma u256_cmp_val:
  "length a = length b \<Longrightarrow>
     u256_cmp a b = (if be_val a < be_val b then Less else if be_val b < be_val a then Greater else Equal)"
proof (induction rule: list_induct2)
  case (Cons a as b bs)
  have "be_val as < 256 ^ length bs" "be_val bs < 256 ^ length bs"
    using be_val_bound [of as] be_val_bound [of bs] Cons.hyps by simp_all
  then have lead: "be_val (x # as) < be_val (y # bs)" "be_val (y # bs) > be_val (x # as)"
    if "unat x < unat y" for x y using that Cons.hyps by (simp_all add: be_val_Cons lead_digit)
  have lead': "be_val (y # bs) < be_val (x # as)" if "unat y < unat x" for x y
    using that Cons.hyps \<open>be_val bs < _\<close> by (simp add: be_val_Cons lead_digit)
  show ?case
    using lead [of a b] lead' [of b a] Cons
    by (auto simp: word_less_nat_alt be_val_Cons)
qed simp

lemma sort_by_key:
  "\<forall>x \<in> set xs. \<forall>y \<in> set xs. cmp x y = Greater \<longleftrightarrow> f y < (f x :: 'b :: linorder) \<Longrightarrow>
     sort_by cmp xs = sort_key f xs"
proof (induction xs)
  case (Cons x xs)
  have "insert_by cmp x ys = insort_key f x ys" if "set ys \<subseteq> set xs" for ys
    using that Cons.prems by (induction ys) (auto simp: not_le)
  with Cons show ?case by (simp add: sort_by_def)
qed (simp add: sort_by_def)

text \<open>Stability: sorting indices by a key is sorting them by the key and then the index.\<close>

lemma sort_key_stable: "sort_key f [m..<n] = sort_key (\<lambda>i. (f i :: 'b :: linorder, i)) [m..<n]"
proof (induction "n - m" arbitrary: m)
  case (Suc k)
  have "insort_key f m ys = insort_key (\<lambda>i. (f i, i)) m ys" if "\<forall>y \<in> set ys. m < y" for ys
    using that by (induction ys) (auto simp: less_eq_prod_def)
  with Suc.hyps(1) [of "Suc m"] Suc.hyps(2) show ?case by (simp add: upt_conv_Cons)
qed simp

lemma strictly_ranked:
  assumes "sorted_wrt (<) (map (g :: nat \<Rightarrow> 'b :: linorder) ks)" and "r < length ks"
  shows "card {i \<in> set ks. g i < g (ks ! r)} = r"
proof -
  have lt: "i < j \<Longrightarrow> j < length ks \<Longrightarrow> g (ks ! i) < g (ks ! j)" for i j
    using assms(1) by (simp add: sorted_wrt_iff_nth_less)
  then have "g (ks ! i) < g (ks ! r) \<longleftrightarrow> i < r" if "i < length ks" for i
    using that assms(2) by (metis less_asym linorder_neqE_nat)
  then have "{i \<in> set ks. g i < g (ks ! r)} = (!) ks ` {..<r}"
    using assms(2) by (auto simp: in_set_conv_nth) (metis less_trans)
  moreover have "inj_on ((!) ks) {..<r}"
    using lt assms(2) by (intro linorder_inj_onI) (auto, metis less_irrefl less_trans)
  ultimately show ?thesis by (simp add: card_image)
qed

definition price_of :: "Quote list \<Rightarrow> nat \<Rightarrow> nat" where
  "price_of quotes i = be_val (price (quotes ! i))"

text \<open>How many quotes come before the \<open>m\<close>-th: those that are cheaper, and equally priced earlier ones.\<close>

definition price_rank :: "Quote list \<Rightarrow> nat \<Rightarrow> nat" where
  "price_rank quotes m =
     length (filter (\<lambda>i. price_of quotes i < price_of quotes m
       \<or> price_of quotes i = price_of quotes m \<and> i < m) [0..<length quotes])"

lemma ranked_sort_key:
  assumes "list_all wf_Quote quotes"
  shows "ranked quotes = sort_key (price_of quotes) [0..<length quotes]"
  unfolding ranked_def
proof (rule sort_by_key, intro ballI)
  fix i j assume ij: "i \<in> set [0..<length quotes]" "j \<in> set [0..<length quotes]"
  then have "length (price (quotes ! i)) = length (price (quotes ! j))"
    using assms by (simp add: list_all_length wf_Quote_def)
  then show "u256_cmp (price (quotes ! i)) (price (quotes ! j)) = Greater \<longleftrightarrow>
      price_of quotes j < price_of quotes i"
    by (auto simp: u256_cmp_val price_of_def)
qed

lemma ranked_perm:
  assumes "list_all wf_Quote quotes"
  shows "length (ranked quotes) = length quotes" and "set (ranked quotes) = {..<length quotes}"
    and "map (price_of quotes) (ranked quotes) = sort (map (be_val \<circ> price) quotes)"
proof -
  let ?ks = "sort_key (price_of quotes) [0..<length quotes]"
  have "map (price_of quotes) [0..<length quotes] = map (be_val \<circ> price) quotes"
    by (rule nth_equalityI) (simp_all add: price_of_def)
  then have "mset (map (price_of quotes) ?ks) = mset (map (be_val \<circ> price) quotes)"
    by (metis mset_map mset_sort)
  then have s: "sort (map (be_val \<circ> price) quotes) = map (price_of quotes) ?ks"
    by (intro properties_for_sort) simp_all
  show "map (price_of quotes) (ranked quotes) = sort (map (be_val \<circ> price) quotes)"
    by (simp only: s ranked_sort_key [OF assms])
  show "length (ranked quotes) = length quotes" "set (ranked quotes) = {..<length quotes}"
    by (auto simp: ranked_sort_key [OF assms])
qed

lemma ranked_rank:
  assumes "list_all wf_Quote quotes" and "r < length quotes"
  shows "price_rank quotes (ranked quotes ! r) = r"
proof -
  let ?g = "\<lambda>i. (price_of quotes i, i)"
  let ?ks = "sort_key ?g [0..<length quotes]"
  have ks: "ranked quotes = ?ks" 
    unfolding ranked_sort_key [OF assms(1)] by (rule sort_key_stable)
  have "sorted (map ?g ?ks)" "distinct (map ?g ?ks)"
    by (simp_all add: distinct_map inj_on_def)
  then have "sorted_wrt (<) (map ?g ?ks)" by (simp add: strict_sorted_iff)
  then have "card {i \<in> set ?ks. ?g i < ?g (?ks ! r)} = r"
    using strictly_ranked [of ?g ?ks r] assms(2) by simp
  moreover have "price_rank quotes m = card {i \<in> set ?ks. ?g i < ?g m}" for m
  proof -
    have "price_rank quotes m = card (set (filter (\<lambda>i. ?g i < ?g m) [0..<length quotes]))"
      unfolding price_rank_def
      by (subst distinct_card) (auto simp: le_less intro!: arg_cong [of _ _ length] filter_cong)
    then show ?thesis by (simp only: set_filter set_sort)
  qed
  ultimately show ?thesis by (simp add: ks)
qed

section \<open>The payment split\<close>

lemma u256_mul_be: "length a = 32 \<Longrightarrow> u256_mul_u64 a m = be_bytes 32 (be_val a * unat m)"
  by (rule u256_eq [OF _ u256_mul_mod]) simp_all

lemma wf_price: "list_all wf_Quote quotes \<Longrightarrow> i < length quotes \<Longrightarrow> length (price (quotes ! i)) = 32"
  by (simp add: list_all_length wf_Quote_def)

lemma zero_word: "replicate 32 0 = be_bytes 32 0"
proof -
  have "le_bytes n 0 = replicate n 0" for n by (induction n) simp_all
  then show ?thesis by (simp add: be_bytes_def)
qed

lemma payment_split_seven:
  assumes "list_all wf_Quote quotes" and "length quotes = 7"
  shows "payment_split cr quotes = Inr (map (\<lambda>i. (rewards_address (quotes ! i),
     be_bytes 32 (if i = ranked quotes ! 3 then 3 * price_of quotes i else 0), quote_hash cr (quotes ! i))) [0..<7])"
proof -
  let ?m = "ranked quotes ! 3"
  have "?m \<in> set (ranked quotes)" using ranked_perm(1) [OF assms(1)] assms(2) by (intro nth_mem) simp
  then have m: "?m < length quotes" using ranked_perm(2) [OF assms(1)] by simp
  then have x3: "u256_mul_u64 (price (quotes ! ?m)) 3 = be_bytes 32 (3 * price_of quotes ?m)"
    by (simp add: u256_mul_be wf_price [OF assms(1)] price_of_def mult.commute)
  show ?thesis
    unfolding payment_split_def Let_def x3 zero_word
    by (simp add: assms(2) CLOSE_GROUP_SIZE_def) (rule nth_equalityI, auto simp: assms(2) nth_enumerate_eq)
qed

lemma payment_split_Inr:
  assumes "list_all wf_Quote quotes" and "payment_split cr quotes = Inr ps"
  shows "length quotes = 7" and "ps = map (\<lambda>i. (rewards_address (quotes ! i),
     be_bytes 32 (if i = ranked quotes ! 3 then 3 * price_of quotes i else 0), quote_hash cr (quotes ! i))) [0..<7]"
proof -
  show "length quotes = 7" using assms(2) by (auto simp: payment_split_def CLOSE_GROUP_SIZE_def split: if_splits)
  with payment_split_seven [OF assms(1)] assms(2)
  show "ps = map (\<lambda>i. (rewards_address (quotes ! i),
     be_bytes 32 (if i = ranked quotes ! 3 then 3 * price_of quotes i else 0), quote_hash cr (quotes ! i))) [0..<7]"
    by simp
qed

text \<open>Approving the sum: a fold of wrapping additions is the sum, wrapped once.\<close>

lemma total_amount_fold:
  assumes "list_all (\<lambda>(_, amount, _). length amount = 32) payments" and "length acc = 32"
  shows "foldl (\<lambda>acc (_, amount, _). u256_add acc amount) acc payments
     = be_bytes 32 (be_val acc + sum_list (map (\<lambda>(_, amount, _). be_val amount) payments))"
  using assms
proof (induction payments arbitrary: acc)
  case Nil
  then show ?case using be_bytes_val [of acc] by simp
next
  case (Cons p payments)
  obtain r a h where p: "p = (r, a, h)" by (cases p)
  have s: "u256_add acc a = be_bytes 32 (be_val acc + be_val a)"
    using Cons.prems by (intro u256_eq u256_add_mod) (simp_all add: p)
  have "be_bytes 32 ((be_val acc + be_val a) mod 256 ^ 32 + x) = be_bytes 32 (be_val acc + be_val a + x)" for x
    using be_bytes_mod [of 32 "(be_val acc + be_val a) mod 256 ^ 32 + x"]
      be_bytes_mod [of 32 "be_val acc + be_val a + x"] by (simp only: mod_add_left_eq)
  then show ?case
    using Cons by (simp add: p s be_val_bytes add.assoc)
qed

lemma total_amount_sum:
  assumes "list_all (\<lambda>(_, amount, _). length amount = 32) payments"
  shows "total_amount payments = be_bytes 32 (sum_list (map (\<lambda>(_, amount, _). be_val amount) payments))"
  unfolding total_amount_def
  by (subst total_amount_fold [OF assms]) (simp_all add: zero_word be_val_bytes)

lemma split_total:
  assumes "list_all wf_Quote quotes" and "payment_split cr quotes = Inr ps"
  shows "total_amount ps = be_bytes 32 (3 * sort (map (be_val \<circ> price) quotes) ! 3)"
proof -
  note ps = payment_split_Inr [OF assms]
  let ?m = "ranked quotes ! 3" and ?a = "\<lambda>i. if i = ranked quotes ! 3 then 3 * price_of quotes i else 0"
  have len: "3 < length (ranked quotes)" using ranked_perm(1) [OF assms(1)] ps(1) by simp
  then have "?m \<in> set (ranked quotes)" by (rule nth_mem)
  then have m: "?m < 7" using ranked_perm(2) [OF assms(1)] ps(1) by simp
  have amounts: "map (\<lambda>(_, amount, _). be_val amount) ps = map (\<lambda>i. be_val (be_bytes 32 (?a i))) [0..<7]"
    by (simp add: ps(2) o_def)
  have "sum_list (map (\<lambda>i. be_val (be_bytes 32 (?a i))) [0..<7]) = (\<Sum>i\<in>{..<7}. be_val (be_bytes 32 (?a i)))"
    by (simp add: sum_list_distinct_conv_sum_set lessThan_atLeast0)
  also have "\<dots> = be_val (be_bytes 32 (3 * price_of quotes ?m))"
    by (subst sum.remove [of _ ?m]) (use m in \<open>simp_all add: be_val_bytes\<close>)
  finally have "total_amount ps = be_bytes 32 (be_val (be_bytes 32 (3 * price_of quotes ?m)))"
    using total_amount_sum [of ps] by (simp add: amounts) (simp add: ps(2) list_all_iff)
  also have "\<dots> = be_bytes 32 (3 * price_of quotes ?m)" by (simp only: be_val_bytes be_bytes_mod)
  also have "price_of quotes ?m = sort (map (be_val \<circ> price) quotes) ! 3"
    using ranked_perm(3) [OF assms(1)] len by (metis nth_map)
  finally show ?thesis .
qed

text \<open> C18. The split pays one quote: for seven quotes, the one with exactly three quotes before it when
  ranked by price (ties by position) gets three times its price, modulo \<open>2^256\<close>; every other entry
  gets zero; and the entries stand in the order of the quotes, each with its own account and hash.\<close>
theorem payment_split_median:
  assumes "list_all wf_Quote quotes" and "length quotes = 7"
  shows "\<exists>m < 7. price_rank quotes m = 3 \<and>
     payment_split cr quotes = Inr (map (\<lambda>i. (rewards_address (quotes ! i),
       be_bytes 32 (if i = m then 3 * price_of quotes m else 0), quote_hash cr (quotes ! i))) [0..<7])"
proof (intro exI conjI)
  have "3 < length (ranked quotes)" using ranked_perm(1) [OF assms(1)] assms(2) by simp
  then have "ranked quotes ! 3 \<in> set (ranked quotes)" by (rule nth_mem)
  then show "ranked quotes ! 3 < 7" using ranked_perm(2) [OF assms(1)] assms(2) by simp
  show "price_rank quotes (ranked quotes ! 3) = 3" using ranked_rank [OF assms(1)] assms(2) by simp
qed (use payment_split_seven [OF assms] in \<open>simp cong: if_cong\<close>)

text \<open>Seven quotes whose prices are given, for the witnesses.\<close>

definition quotes_at :: "nat list \<Rightarrow> Quote list" where
  "quotes_at prices = map (\<lambda>p. test_quote None \<lparr>price := be_bytes 32 p\<rparr>) prices"

lemma quotes_at_wf [simp]: "list_all wf_Quote (quotes_at ps)"
  using test_quote_wf(1) by (simp add: quotes_at_def list_all_iff wf_Quote_def)

lemma length_quotes_at [simp]: "length (quotes_at ps) = length ps"
  by (simp add: quotes_at_def)

lemma payment_split_median_witness:
  "\<exists>m < 7. price_rank (quotes_at [5, 9, 1, 7, 7, 3, 8]) m = 3 \<and>
     payment_split test_crates (quotes_at [5, 9, 1, 7, 7, 3, 8]) =
       Inr (map (\<lambda>i. (rewards_address (quotes_at [5, 9, 1, 7, 7, 3, 8] ! i),
         be_bytes 32 (if i = m then 3 * price_of (quotes_at [5, 9, 1, 7, 7, 3, 8]) m else 0),
         quote_hash test_crates (quotes_at [5, 9, 1, 7, 7, 3, 8] ! i))) [0..<7])"
  by (rule payment_split_median) simp_all

text \<open>The amount the vault is approved for covers the payments: the wrapping sum of the split is
  three times the fourth smallest of the seven prices, modulo \<open>2^256\<close>.\<close>
lemma split_total_is_thrice_median:
  assumes "list_all wf_Quote quotes" and "payment_split cr quotes = Inr ps"
  shows "be_val (total_amount ps) = 3 * sort (map (be_val \<circ> price) quotes) ! 3 mod 2 ^ 256"
  by (simp add: split_total [OF assms] be_val_bytes)

lemma split_total_is_thrice_median_witness:
  "\<exists>ps. payment_split test_crates (quotes_at [5, 9, 1, 7, 7, 3, 8]) = Inr ps
     \<and> be_val (total_amount ps) = 21"
proof -
  obtain ps where ps: "payment_split test_crates (quotes_at [5, 9, 1, 7, 7, 3, 8]) = Inr ps"
    using payment_split_seven [of "quotes_at [5, 9, 1, 7, 7, 3, 8]"] by simp
  have "map (be_val \<circ> price) (quotes_at [5, 9, 1, 7, 7, 3, 8]) = [5, 9, 1, 7, 7, 3, 8]"
    by (simp add: quotes_at_def be_val_bytes)
  with split_total_is_thrice_median [OF quotes_at_wf ps] ps show ?thesis by simp
qed

text \<open> C31. The split is not protected against huge prices: nothing bounds a verified quote's price, and
  for seven quotes of price \<open>(2^256 + 2) / 3\<close> the median node is paid, and the vault approved for,
  two units of the token in all.\<close>
theorem payment_split_wraps:
  "\<exists>quotes ps. list_all wf_Quote quotes \<and> payment_split cr quotes = Inr ps
     \<and> map (be_val \<circ> price) quotes = replicate 7 ((2 ^ 256 + 2) div 3) \<and> be_val (total_amount ps) = 2"
proof -
  let ?p = "(2 ^ 256 + 2) div 3 :: nat"
  let ?qs = "quotes_at (replicate 7 ?p)"
  obtain ps where ps: "payment_split cr ?qs = Inr ps" using payment_split_seven [of ?qs] by simp
  have prices: "map (be_val \<circ> price) ?qs = replicate 7 ?p"
    by (simp add: quotes_at_def be_val_bytes)
  have "sorted (replicate 7 ?p)" by (simp only: sorted_replicate)
  then have "total_amount ps = be_bytes 32 (3 * replicate 7 ?p ! 3)"
    by (simp only: split_total [OF quotes_at_wf ps] prices sorted_sort_id)
  then have "be_val (total_amount ps) = 2" by (simp add: be_val_bytes)
  with ps prices show ?thesis by (intro exI [of _ ?qs] exI [of _ ps]) simp
qed

text \<open>The split is refused exactly when there are not seven quotes, with the count in the message.\<close>
lemma payment_split_refuses:
  "payment_split cr quotes = Inl e \<longleftrightarrow>
     length quotes \<noteq> 7 \<and> e = ''payment split needs exactly 7 quotes, got '' @ show_nat (length quotes)"
  by (auto simp: payment_split_def CLOSE_GROUP_SIZE_def Let_def)

section \<open>Calldata\<close>

text \<open>The ABI decoder of \<open>payForQuotes(DataPayment[])\<close>: the contract's view of the calldata.\<close>

fun abi_payments :: "nat \<Rightarrow> byte list \<Rightarrow> DataPayment list option" where
  "abi_payments 0 bs = (if bs = [] then Some [] else None)"
| "abi_payments (Suc n) bs =
     (if length bs < 96 \<or> take 12 bs \<noteq> replicate 12 0 then None
      else map_option (\<lambda>ps. (take 20 (drop 12 bs), take 32 (drop 32 bs), take 32 (drop 64 bs)) # ps)
        (abi_payments n (drop 96 bs)))"

definition abi_pay_for_quotes :: "crates \<Rightarrow> byte list \<Rightarrow> DataPayment list option" where
  "abi_pay_for_quotes cr bs =
     (if take 4 bs \<noteq> pay_for_quotes_selector cr \<or> be_val (take 32 (drop 4 bs)) \<noteq> 32 then None
      else abi_payments (be_val (take 32 (drop 36 bs))) (drop 68 bs))"

definition wf_payment :: "DataPayment \<Rightarrow> bool" where
  "wf_payment p \<longleftrightarrow> length (fst p) = 20 \<and> length (fst (snd p)) = 32 \<and> length (snd (snd p)) = 32"

lemma length_word_from_address [simp]: "length (word_from_address a) = 12 + length a"
  by (simp add: word_from_address_def)

lemma set_last_zero: "(replicate (Suc n) 0)[n := x] = replicate n 0 @ [x]"
  by (induction n) simp_all

lemma abi_payments_items:
  "list_all wf_payment ps \<Longrightarrow>
     abi_payments (length ps) (concat (map (\<lambda>(r, a, h). word_from_address r @ a @ h) ps)) = Some ps"
proof (induction ps)
  case (Cons p ps)
  obtain r a h where p: "p = (r, a, h)" by (cases p)
  with Cons show ?case by (simp add: wf_payment_def word_from_address_def)
qed simp

text \<open> C34. The hand-rolled calldata is the ABI encoding: the contract's decoder reads back the very
  payments, from \<open>4 + 64 + 96 n\<close> bytes.\<close>
theorem pay_for_quotes_abi:
  assumes "list_all wf_payment payments" and "length payments < 2 ^ 64"
  shows "abi_pay_for_quotes cr (pay_for_quotes_calldata cr payments) = Some payments
     \<and> length (pay_for_quotes_calldata cr payments) = 4 + 64 + 96 * length payments"
proof -
  let ?items = "concat (map (\<lambda>(r, a, h). word_from_address r @ a @ h) payments)"
  have sel: "length (pay_for_quotes_selector cr) = 4" by (simp add: pay_for_quotes_selector_def Let_def)
  have pad: "be_val (replicate k 0 @ bs) = be_val bs" for k bs
    by (induction k) (simp_all add: be_val_Cons)
  have "(replicate 32 0)[31 := 0x20] = replicate 31 0 @ [0x20 :: byte]"
    using set_last_zero [of 31 "0x20 :: byte"] by simp
  then have off: "be_val ((replicate 32 0)[31 := 0x20]) = 32"
    by (simp add: pad) (simp add: be_val_def)
  have len: "be_val (u64_to_be (of_nat (length payments))) = length payments"
    using assms(2) by (simp add: u64_to_be_def be_val_bytes unat_of_nat)
  have data: "pay_for_quotes_calldata cr payments = pay_for_quotes_selector cr @ (replicate 32 0)[31 := 0x20]
      @ (replicate 24 0 @ u64_to_be (of_nat (length payments))) @ ?items"
    by (simp add: pay_for_quotes_calldata_def Let_def)
  have "length ?items = 96 * length payments"
    using assms(1) by (induction payments) (auto simp: wf_payment_def)
  then show ?thesis
    using abi_payments_items [OF assms(1)]
    by (simp add: data abi_pay_for_quotes_def sel off pad len)
qed

lemma pay_for_quotes_abi_witness:
  "abi_pay_for_quotes test_crates
     (pay_for_quotes_calldata test_crates [(replicate 20 1, replicate 32 2, replicate 32 3)])
   = Some [(replicate 20 1, replicate 32 2, replicate 32 3)]"
  using pay_for_quotes_abi [of "[(replicate 20 1, replicate 32 2, replicate 32 3)]" test_crates]
  by (simp add: wf_payment_def)

end
