(* ===== verification/Retrieval.thy ===== *)
theory Retrieval
  imports Crates
begin

text \<open>
  \<open>src/retrieval.rs\<close>: the state machine that decides which bytes of a download can be trusted. Data
  maps and the cryptography on them belong to the \<open>self_encryption\<close> crate and are a parameter, a
  record of its functions over an abstract type of data maps.
\<close>

section \<open>The crate\<close>

text \<open>
  A chunk name is a 32-byte \<open>XorName\<close>; an \<open>EncryptedChunk\<close> is its content. \<open>shrink_data_map\<close> gives the
  shrunk map and the wrapper chunks it handed to its callback, in order. Errors are what they print.
\<close>

record 'm self_encryption =
  verify_chunk :: "byte list \<Rightarrow> byte list \<Rightarrow> byte list result"
  data_map_from_slice :: "byte list \<Rightarrow> 'm result"
  data_map_to_vec :: "'m \<Rightarrow> byte list result"
  map_infos :: "'m \<Rightarrow> byte list list"
  map_is_child :: "'m \<Rightarrow> bool"
  get_root_data_map :: "'m \<Rightarrow> (byte list \<Rightarrow> byte list result) \<Rightarrow> 'm result"
  se_decrypt :: "'m \<Rightarrow> byte list list \<Rightarrow> byte list result"
  se_encrypt :: "byte list \<Rightarrow> ('m \<times> byte list list) result"
  shrink_data_map :: "'m \<Rightarrow> ('m \<times> (byte list \<times> byte list) list) result"

text \<open>A chunk verifies only if its bytes hash to the name, and it is then those bytes.\<close>

definition verify_correct :: "crates \<Rightarrow> 'm self_encryption \<Rightarrow> bool" where
  "verify_correct cr se \<longleftrightarrow>
     (\<forall>a bs c. verify_chunk se a bs = Inr c \<longrightarrow> c = bs \<and> blake3_hash cr bs = a)"

text \<open>Bytes that hash to the name do verify.\<close>

definition verify_complete :: "crates \<Rightarrow> 'm self_encryption \<Rightarrow> bool" where
  "verify_complete cr se \<longleftrightarrow> (\<forall>bs. verify_chunk se (blake3_hash cr bs) bs = Inr bs)"

text \<open>The root of a map that is not a child is the map itself; resolving never yields a child.\<close>

definition root_correct :: "'m self_encryption \<Rightarrow> bool" where
  "root_correct se \<longleftrightarrow>
     (\<forall>m f r. get_root_data_map se m f = Inr r \<longrightarrow> \<not> map_is_child se r)"

text \<open>A map that resolves to a root resolves to it when more chunks can be fetched.\<close>

definition root_monotone :: "'m self_encryption \<Rightarrow> bool" where
  "root_monotone se \<longleftrightarrow> (\<forall>m f g r. (\<forall>a bs. f a = Inr bs \<longrightarrow> g a = Inr bs) \<longrightarrow>
     get_root_data_map se m f = Inr r \<longrightarrow> get_root_data_map se m g = Inr r)"

lemma verify_correctD: "verify_correct cr se \<Longrightarrow> verify_chunk se a bs = Inr c \<Longrightarrow> blake3_hash cr c = a"
  by (metis verify_correct_def)

section \<open>State and operations\<close>

record 'm Retrieval =
  r_map :: 'm
  root_resolved :: bool
  cache :: "byte list \<rightharpoonup> byte list"

definition retrieval_begin :: "'m self_encryption \<Rightarrow> byte list \<Rightarrow> byte list \<Rightarrow> 'm Retrieval result" where
  "retrieval_begin se address bytes =
     res_bind (map_err (\<lambda>e. ''data map chunk failed verification: '' @ e) (verify_chunk se address bytes)) (\<lambda>_.
     res_bind (map_err (\<lambda>e. ''address does not hold a data map: '' @ e) (data_map_from_slice se bytes)) (\<lambda>m.
     Inr \<lparr>r_map = m, root_resolved = (\<not> map_is_child se m), cache = Map.empty\<rparr>))"

definition required_addresses :: "'m self_encryption \<Rightarrow> 'm Retrieval \<Rightarrow> byte list list" where
  "required_addresses se r = filter (\<lambda>dst_hash. cache r dst_hash = None) (map_infos se (r_map r))"

definition retrieval_supply :: "crates \<Rightarrow> 'm self_encryption \<Rightarrow> byte list \<Rightarrow> byte list \<Rightarrow> 'm Retrieval \<Rightarrow> 'm Retrieval result" where
  "retrieval_supply cr se address bytes r =
     res_bind (map_err (\<lambda>e. ''chunk '' @ hex_encode cr address @ '' failed verification: '' @ e)
         (verify_chunk se address bytes))
       (\<lambda>chunk. Inr (r\<lparr>cache := (cache r)(address \<mapsto> chunk)\<rparr>))"

text \<open>The closure \<open>fetch\<close> of \<open>advance\<close>: wrapper chunks come out of the cache and nowhere else.\<close>

definition fetch_cached :: "crates \<Rightarrow> 'm Retrieval \<Rightarrow> byte list \<Rightarrow> byte list result" where
  "fetch_cached cr r address =
     (case cache r address of
        Some chunk \<Rightarrow> Inr chunk
      | None \<Rightarrow> Inl (''missing wrapper chunk '' @ hex_encode cr address))"

definition advance :: "crates \<Rightarrow> 'm self_encryption \<Rightarrow> 'm Retrieval \<Rightarrow> 'm Retrieval result" where
  "advance cr se r =
     (if root_resolved r \<or> required_addresses se r \<noteq> [] then Inr r
      else
        res_bind (map_err (\<lambda>e. ''failed to resolve the root data map: '' @ e)
            (get_root_data_map se (r_map r) (fetch_cached cr r)))
          (\<lambda>root. Inr (r\<lparr>r_map := root, root_resolved := True\<rparr>)))"

definition is_complete :: "'m self_encryption \<Rightarrow> 'm Retrieval \<Rightarrow> bool" where
  "is_complete se r \<longleftrightarrow> root_resolved r \<and> required_addresses se r = []"

definition chunk_count :: "'m self_encryption \<Rightarrow> 'm Retrieval \<Rightarrow> nat" where
  "chunk_count se r = length (map_infos se (r_map r))"

text \<open>\<open>collect::<Result<_, _>>\<close>: the values, or the first error.\<close>

fun collect_results :: "('e + 'a) list \<Rightarrow> 'e + 'a list" where
  "collect_results [] = Inr []"
| "collect_results (x # xs) = res_bind x (\<lambda>v. res_bind (collect_results xs) (\<lambda>vs. Inr (v # vs)))"

definition finish :: "crates \<Rightarrow> 'm self_encryption \<Rightarrow> 'm Retrieval \<Rightarrow> byte list result" where
  "finish cr se r =
     (if \<not> is_complete se r then Inl ''cannot finish: chunks missing or root map unresolved''
      else
        res_bind (collect_results
            (map (\<lambda>dst_hash. case cache r dst_hash of
                 Some chunk \<Rightarrow> Inr chunk
               | None \<Rightarrow> Inl (''missing chunk '' @ hex_encode cr dst_hash)) (map_infos se (r_map r))))
          (\<lambda>chunks. map_err (\<lambda>e. ''decryption failed: '' @ e) (se_decrypt se (r_map r) chunks)))"

section \<open>What a retrieval holds\<close>

text \<open>Every retrieval the client can get to: begin, then supplies and advances that succeed.\<close>

inductive retrieving :: "crates \<Rightarrow> 'm self_encryption \<Rightarrow> byte list \<Rightarrow> 'm Retrieval \<Rightarrow> bool" for cr se where
  begins: "retrieval_begin se address bytes = Inr r \<Longrightarrow> retrieving cr se address r"
| supplied: "retrieving cr se address r \<Longrightarrow> retrieval_supply cr se a bytes r = Inr r' \<Longrightarrow> retrieving cr se address r'"
| advanced: "retrieving cr se address r \<Longrightarrow> advance cr se r = Inr r' \<Longrightarrow> retrieving cr se address r'"

definition verified_cache :: "crates \<Rightarrow> 'm Retrieval \<Rightarrow> bool" where
  "verified_cache cr r \<longleftrightarrow> (\<forall>a chunk. cache r a = Some chunk \<longrightarrow> blake3_hash cr chunk = a)"

lemma begin_Inr:
  "retrieval_begin se address bytes = Inr r \<longleftrightarrow>
     (\<exists>c m. verify_chunk se address bytes = Inr c \<and> data_map_from_slice se bytes = Inr m
        \<and> r = \<lparr>r_map = m, root_resolved = (\<not> map_is_child se m), cache = Map.empty\<rparr>)"
  by (auto simp: retrieval_begin_def res_iff)

lemma supply_Inr:
  "retrieval_supply cr se a bytes r = Inr r' \<longleftrightarrow>
     (\<exists>c. verify_chunk se a bytes = Inr c \<and> r' = r\<lparr>cache := (cache r)(a \<mapsto> c)\<rparr>)"
  by (auto simp: retrieval_supply_def res_iff)

lemma advance_Inr:
  "advance cr se r = Inr r' \<longleftrightarrow>
     (if root_resolved r \<or> required_addresses se r \<noteq> [] then r' = r
      else \<exists>root. get_root_data_map se (r_map r) (fetch_cached cr r) = Inr root
             \<and> r' = r\<lparr>r_map := root, root_resolved := True\<rparr>)"
  by (auto simp: advance_def res_iff)

lemma retrieving_verified:
  assumes "retrieving cr se address r" and "verify_correct cr se"
  shows "verified_cache cr r"
  using assms
proof induction
  case (begins address bytes r)
  then show ?case by (auto simp: begin_Inr verified_cache_def)
next
  case (supplied address r a bytes r')
  then obtain c where c: "verify_chunk se a bytes = Inr c" "r' = r\<lparr>cache := (cache r)(a \<mapsto> c)\<rparr>"
    by (auto simp: supply_Inr)
  then have "blake3_hash cr c = a" using supplied.prems verify_correctD by blast
  with supplied.IH [OF supplied.prems] c(2) show ?case by (simp add: verified_cache_def)
next
  case (advanced address r r')
  then show ?case by (auto simp: advance_Inr verified_cache_def split: if_splits)
qed

lemma retrieving_root:
  assumes "retrieving cr se address r" and "root_correct se"
  shows "root_resolved r \<longrightarrow> \<not> map_is_child se (r_map r)"
  using assms
  by induction (auto simp: begin_Inr supply_Inr advance_Inr root_correct_def split: if_splits)

lemma collect_results_Inr: "collect_results xs = Inr vs \<longleftrightarrow> xs = map Inr vs"
proof (induction xs arbitrary: vs)
  case (Cons x xs)
  then show ?case by (cases vs) (auto simp: res_iff)
qed auto

lemma collect_results_monotone:
  "collect_results (map f as) = Inr vs \<Longrightarrow> \<forall>a bs. f a = Inr bs \<longrightarrow> g a = Inr bs \<Longrightarrow> collect_results (map g as) = Inr vs"
  by (induction as arbitrary: vs) (auto simp: res_iff)

lemma finish_Inr:
  "finish cr se r = Inr out \<longleftrightarrow> is_complete se r \<and>
     (\<exists>chunks. map Some chunks = map (cache r) (map_infos se (r_map r))
        \<and> se_decrypt se (r_map r) chunks = Inr out)"
proof -
  have "map (\<lambda>h. case cache r h of Some c \<Rightarrow> Inr c | None \<Rightarrow> Inl (''missing chunk '' @ hex_encode cr h)) hs = map Inr chunks
      \<longleftrightarrow> map Some chunks = map (cache r) hs" for hs chunks
  proof (induction hs arbitrary: chunks)
    case (Cons h hs)
    then show ?case by (cases chunks) (auto split: option.splits)
  qed auto
  then show ?thesis by (auto simp: finish_def res_iff collect_results_Inr)
qed

lemma complete_cached:
  assumes "is_complete se r"
  shows "\<exists>chunks. map Some chunks = map (cache r) (map_infos se (r_map r))"
proof -
  have "\<forall>h \<in> set (map_infos se (r_map r)). \<exists>c. cache r h = Some c"
    using assms by (auto simp: is_complete_def required_addresses_def filter_empty_conv)
  then have "map Some (map (the \<circ> cache r) (map_infos se (r_map r))) = map (cache r) (map_infos se (r_map r))"
    by auto
  then show ?thesis by blast
qed

text \<open>The same with the bytes it was given: those it began from and every chunk that was supplied.\<close>

inductive retrieving_with :: "crates \<Rightarrow> 'm self_encryption \<Rightarrow> byte list \<Rightarrow> byte list set \<Rightarrow> 'm Retrieval \<Rightarrow> bool" for cr se where
  begins: "retrieval_begin se address bytes = Inr r \<Longrightarrow> retrieving_with cr se address {bytes} r"
| supplied: "retrieving_with cr se address B r \<Longrightarrow> retrieval_supply cr se a bytes r = Inr r' \<Longrightarrow>
     retrieving_with cr se address (insert bytes B) r'"
| advanced: "retrieving_with cr se address B r \<Longrightarrow> advance cr se r = Inr r' \<Longrightarrow> retrieving_with cr se address B r'"

lemma retrieving_with_some: "retrieving cr se address r \<Longrightarrow> \<exists>B. retrieving_with cr se address B r"
  by (induction rule: retrieving.induct) (blast intro: retrieving_with.intros)+

lemma retrieving_with_retrieving: "retrieving_with cr se address B r \<Longrightarrow> retrieving cr se address r"
  by (induction rule: retrieving_with.induct) (blast intro: retrieving.intros)+

text \<open>
  Where the map of a retrieval comes from: bytes that verified against the address, and, if that map is a
  child, a resolution that was given verified chunks only.
\<close>

definition fetch_from :: "crates \<Rightarrow> byte list set \<Rightarrow> (byte list \<Rightarrow> byte list result) \<Rightarrow> bool" where
  "fetch_from cr B f \<longleftrightarrow> (\<forall>a bytes. f a = Inr bytes \<longrightarrow> bytes \<in> B \<and> blake3_hash cr bytes = a)"

definition resolves :: "crates \<Rightarrow> 'm self_encryption \<Rightarrow> byte list set \<Rightarrow> 'm \<Rightarrow> 'm \<Rightarrow> bool" where
  "resolves cr se B m root \<longleftrightarrow>
     (if map_is_child se m then \<exists>f. fetch_from cr B f \<and> get_root_data_map se m f = Inr root else root = m)"

lemma resolves_more: "resolves cr se B m root \<Longrightarrow> B \<subseteq> B' \<Longrightarrow> resolves cr se B' m root"
  unfolding resolves_def fetch_from_def by (auto split: if_splits)

lemma retrieving_with_cache:
  assumes "retrieving_with cr se address B r" and "verify_correct cr se"
  shows "cache r a = Some bytes \<Longrightarrow> bytes \<in> B \<and> blake3_hash cr bytes = a"
  using assms
proof (induction arbitrary: a bytes)
  case (supplied address B r a' bytes' r')
  obtain c where c: "verify_chunk se a' bytes' = Inr c" "r' = r\<lparr>cache := (cache r)(a' \<mapsto> c)\<rparr>"
    using supplied.hyps(2) by (auto simp: supply_Inr)
  then have "c = bytes'" "blake3_hash cr bytes' = a'"
    using supplied.prems(2) unfolding verify_correct_def by blast+
  with c(2) supplied.prems supplied.IH [of a bytes] show ?case by (auto split: if_splits)
qed (auto simp: begin_Inr advance_Inr split: if_splits)

lemma retrieving_with_origin:
  assumes "retrieving_with cr se address B r" and "verify_correct cr se"
  shows "\<exists>bytes \<in> B. \<exists>m. blake3_hash cr bytes = address \<and> data_map_from_slice se bytes = Inr m
     \<and> (if root_resolved r then resolves cr se B m (r_map r) else r_map r = m \<and> map_is_child se m)"
  using assms
proof induction
  case (begins address bytes r)
  then show ?case by (auto simp: begin_Inr verify_correct_def resolves_def)
next
  case (supplied address B r a bytes r')
  then show ?case using resolves_more [where B' = "insert bytes B" and B = B] by (fastforce simp: supply_Inr split: if_splits)
next
  case (advanced address B r r')
  have "fetch_from cr B (fetch_cached cr r)"
    using retrieving_with_cache [OF advanced.hyps(1) advanced.prems]
    by (auto simp: fetch_from_def fetch_cached_def split: option.splits)
  with advanced show ?case by (fastforce simp: advance_Inr resolves_def split: if_splits)
qed

text \<open>What the bytes decrypt to.\<close>

definition denoted_by :: "crates \<Rightarrow> 'm self_encryption \<Rightarrow> byte list set \<Rightarrow> byte list \<Rightarrow> byte list \<Rightarrow> bool" where
  "denoted_by cr se B address out \<longleftrightarrow>
     (\<exists>map_bytes \<in> B. \<exists>m root chunks. blake3_hash cr map_bytes = address \<and> data_map_from_slice se map_bytes = Inr m
        \<and> resolves cr se B m root \<and> \<not> map_is_child se root
        \<and> set chunks \<subseteq> B \<and> map (blake3_hash cr) chunks = map_infos se root \<and> se_decrypt se root chunks = Inr out)"

lemma finish_denoted:
  assumes "retrieving_with cr se address B r" and "verify_correct cr se" and "root_correct se" and "finish cr se r = Inr out"
  shows "denoted_by cr se B address out"
proof -
  obtain chunks where c: "is_complete se r" "map Some chunks = map (cache r) (map_infos se (r_map r))"
    "se_decrypt se (r_map r) chunks = Inr out"
    using assms(4) by (auto simp: finish_Inr)
  have "list_all2 (\<lambda>bytes a. cache r a = Some bytes) chunks (map_infos se (r_map r))"
    using c(2) by (simp add: list_eq_iff_nth_eq list_all2_conv_all_nth)
  then have "list_all2 (\<lambda>bytes a. bytes \<in> B \<and> blake3_hash cr bytes = a) chunks (map_infos se (r_map r))"
    by (rule list_all2_mono) (rule retrieving_with_cache [OF assms(1,2)])
  then have "set chunks \<subseteq> B \<and> map (blake3_hash cr) chunks = map_infos se (r_map r)"
    by (induction rule: list_all2_induct) simp_all
  with c(1,3) retrieving_with_origin [OF assms(1,2)] retrieving_root [OF retrieving_with_retrieving [OF assms(1)] assms(3)]
  show ?thesis by (fastforce simp: denoted_by_def is_complete_def)
qed

text \<open>Of two sets of bytes, one of each with the same hash.\<close>

definition colliding :: "crates \<Rightarrow> byte list set \<Rightarrow> byte list set \<Rightarrow> bool" where
  "colliding cr B B' \<longleftrightarrow> (\<exists>b \<in> B. \<exists>b' \<in> B'. b \<noteq> b' \<and> blake3_hash cr b = blake3_hash cr b')"

lemma colliding_iff:
  "\<not> colliding cr B B' \<longleftrightarrow> (\<forall>b \<in> B. \<forall>b' \<in> B'. blake3_hash cr b = blake3_hash cr b' \<longrightarrow> b = b')"
  by (auto simp: colliding_def)

lemma hashes_determine:
  "\<not> colliding cr B B' \<Longrightarrow> map (blake3_hash cr) xs = map (blake3_hash cr) ys \<Longrightarrow> set xs \<subseteq> B \<Longrightarrow> set ys \<subseteq> B' \<Longrightarrow> xs = ys"
proof (induction xs arbitrary: ys)
  case (Cons x xs)
  then show ?case by (cases ys) (auto simp: colliding_iff)
qed simp

lemma root_monotoneD:
  "root_monotone se \<Longrightarrow> get_root_data_map se m f = Inr r \<Longrightarrow> \<forall>a bs. f a = Inr bs \<longrightarrow> g a = Inr bs \<Longrightarrow>
     get_root_data_map se m g = Inr r"
  unfolding root_monotone_def by blast

lemma resolves_unique:
  assumes "root_monotone se" and "\<not> colliding cr B B'" and "resolves cr se B m root" and "resolves cr se B' m root'"
  shows "root = root'"
proof (cases "map_is_child se m")
  case True
  then obtain f f' where f: "fetch_from cr B f" "get_root_data_map se m f = Inr root"
    and f': "fetch_from cr B' f'" "get_root_data_map se m f' = Inr root'"
    using assms(3,4) by (auto simp: resolves_def)
  let ?both = "\<lambda>a. case f a of Inr bytes \<Rightarrow> Inr bytes | Inl e \<Rightarrow> f' a"
  have "\<forall>a bs. f a = Inr bs \<longrightarrow> ?both a = Inr bs" "\<forall>a bs. f' a = Inr bs \<longrightarrow> ?both a = Inr bs"
    using f(1) f'(1) assms(2) by (auto simp: fetch_from_def colliding_iff split: sum.split)
  from root_monotoneD [OF assms(1) f(2) this(1)] root_monotoneD [OF assms(1) f'(2) this(2)] show ?thesis by simp
qed (use assms(3,4) in \<open>simp add: resolves_def\<close>)

lemma denoted_unique:
  assumes "root_monotone se" and "\<not> colliding cr B B'" and "denoted_by cr se B address x" and "denoted_by cr se B' address y"
  shows "x = y"
proof -
  obtain bytes m root chunks where b: "bytes \<in> B" "blake3_hash cr bytes = address" "data_map_from_slice se bytes = Inr m"
    "resolves cr se B m root" "set chunks \<subseteq> B" "map (blake3_hash cr) chunks = map_infos se root" "se_decrypt se root chunks = Inr x"
    using assms(3) unfolding denoted_by_def by blast
  obtain bytes' m' root' chunks' where b': "bytes' \<in> B'" "blake3_hash cr bytes' = address" "data_map_from_slice se bytes' = Inr m'"
    "resolves cr se B' m' root'" "set chunks' \<subseteq> B'" "map (blake3_hash cr) chunks' = map_infos se root'"
    "se_decrypt se root' chunks' = Inr y"
    using assms(4) unfolding denoted_by_def by blast
  have "bytes = bytes'" using assms(2) b(1,2) b'(1,2) by (simp add: colliding_iff)
  then have root: "root = root'" using resolves_unique [OF assms(1,2) b(4)] b(3) b'(3,4) by simp
  have "chunks = chunks'" by (rule hashes_determine [OF assms(2) _ b(5) b'(5)]) (simp add: b(6) b'(6) root)
  with b(7) b'(7) root show ?thesis by simp
qed

text \<open> C20. Downloads agree: take any two retrievals of one address, whatever was supplied to each, in whatever
  order and by whomever. If both finish, they return the same bytes, or else among the byte strings supplied
  to the one and the other there are two different ones with the same BLAKE3 hash.\<close>
theorem retrievals_agree:
  assumes "verify_correct cr se" and "root_correct se" and "root_monotone se"
    and "retrieving_with cr se address B r" and "retrieving_with cr se address B' r'"
    and "finish cr se r = Inr x" and "finish cr se r' = Inr y"
  shows "x = y \<or> colliding cr B B'"
  using denoted_unique [OF assms(3)] finish_denoted [OF assms(4,1,2,6)] finish_denoted [OF assms(5,1,2,7)] by blast

text \<open>Whatever was supplied, what is decrypted are chunks that hash to the entries of a root map.\<close>

lemma finish_verified:
  assumes "retrieving cr se address r" and "verify_correct cr se" and "root_correct se" and "finish cr se r = Inr out"
  shows "\<exists>B. denoted_by cr se B address out"
  using retrieving_with_some [OF assms(1)] finish_denoted [OF _ assms(2-4)] by blast

text \<open>\<open>finish\<close> fails only for a reason: before the retrieval is complete, or when the decryption
  itself fails. Once \<open>is_complete\<close> says so, no chunk is missing.\<close>
lemma finish_complete:
  "finish cr se r = (if is_complete se r
     then map_err (\<lambda>e. ''decryption failed: '' @ e) (se_decrypt se (r_map r) (map (the \<circ> cache r) (map_infos se (r_map r))))
     else Inl ''cannot finish: chunks missing or root map unresolved'')"
proof (cases "is_complete se r")
  case True
  have "\<forall>h \<in> set (map_infos se (r_map r)). \<exists>c. cache r h = Some c"
    using True by (auto simp: is_complete_def required_addresses_def filter_empty_conv)
  then have "map (\<lambda>h. case cache r h of Some c \<Rightarrow> Inr c | None \<Rightarrow> Inl (''missing chunk '' @ hex_encode cr h)) (map_infos se (r_map r))
      = map Inr (map (the \<circ> cache r) (map_infos se (r_map r)))"
    by (auto split: option.splits)
  then have "collect_results (map (\<lambda>h. case cache r h of Some c \<Rightarrow> Inr c | None \<Rightarrow> Inl (''missing chunk '' @ hex_encode cr h)) (map_infos se (r_map r)))
      = Inr (map (the \<circ> cache r) (map_infos se (r_map r)))"
    unfolding collect_results_Inr .
  with True show ?thesis by (simp only: finish_def) simp
qed (simp add: finish_def)

section \<open>Progress\<close>

text \<open>One round: supply every required address, in order.\<close>

fun supply_all :: "crates \<Rightarrow> 'm self_encryption \<Rightarrow> (byte list \<times> byte list) list \<Rightarrow> 'm Retrieval \<Rightarrow> 'm Retrieval result" where
  "supply_all cr se [] r = Inr r"
| "supply_all cr se ((a, bs) # items) r = res_bind (retrieval_supply cr se a bs r) (supply_all cr se items)"

lemma supply_all_Inr:
  "supply_all cr se items r = Inr r' \<Longrightarrow>
     r_map r' = r_map r \<and> root_resolved r' = root_resolved r
     \<and> (\<forall>a. cache r' a = None \<longleftrightarrow> cache r a = None \<and> a \<notin> fst ` set items)"
proof (induction items arbitrary: r)
  case (Cons item items)
  obtain a bs where item: "item = (a, bs)" by force
  with Cons.prems obtain r1 where r1: "retrieval_supply cr se a bs r = Inr r1" "supply_all cr se items r1 = Inr r'"
    by (auto simp: res_iff)
  from Cons.IH [OF r1(2)] r1(1) show ?case
    by (auto simp: item supply_Inr split: if_splits)
qed simp

lemma round_required:
  assumes "supply_all cr se items r = Inr r'" and "map fst items = required_addresses se r"
  shows "required_addresses se r' = []"
proof -
  have "fst ` set items = set (required_addresses se r)" using assms(2) by (metis list.set_map)
  with supply_all_Inr [OF assms(1)] show ?thesis
    by (auto simp: required_addresses_def filter_empty_conv)
qed

text \<open>
  Rounds to go: two while the root map is unresolved (its wrapper chunks, then the content chunks),
  one while chunks are missing.
\<close>

definition rounds_left :: "'m self_encryption \<Rightarrow> 'm Retrieval \<Rightarrow> nat" where
  "rounds_left se r = (if is_complete se r then 0 else if root_resolved r then 1 else 2)"

lemma round_progress:
  assumes "supply_all cr se items r = Inr r1" and "map fst items = required_addresses se r"
    and "advance cr se r1 = Inr r2" and "\<not> is_complete se r"
  shows "rounds_left se r2 < rounds_left se r"
proof -
  note s = supply_all_Inr [OF assms(1)] and q = round_required [OF assms(1,2)]
  show ?thesis
  proof (cases "root_resolved r")
    case True
    with s assms(3) have "r2 = r1" by (simp add: advance_Inr)
    with True s q assms(4) show ?thesis by (simp add: rounds_left_def is_complete_def)
  next
    case False
    with s q assms(3) have "root_resolved r2" by (auto simp: advance_Inr)
    with False assms(4) show ?thesis by (simp add: rounds_left_def)
  qed
qed

text \<open> C22. Every round gets closer to the end: once the addresses a retrieval asked for have all been
  supplied and it has advanced, strictly fewer rounds are left, and never more than two; so the
  download loop ends.\<close>
theorem retrieval_progress:
  assumes "supply_all cr se items r = Inr r1" and "map fst items = required_addresses se r"
    and "advance cr se r1 = Inr r2" and "\<not> is_complete se r"
  shows "rounds_left se r2 < rounds_left se r \<and> rounds_left se r \<le> 2"
  using round_progress [OF assms] by (simp add: rounds_left_def)

text \<open>
  \<open>needs se m a\<close>: resolving \<open>m\<close> consults \<open>a\<close>, so it fails if \<open>a\<close> cannot be fetched.
\<close>

definition needs :: "'m self_encryption \<Rightarrow> 'm \<Rightarrow> byte list \<Rightarrow> bool" where
  "needs se m a \<longleftrightarrow> (\<forall>f e. f a = Inl e \<longrightarrow> (\<exists>e'. get_root_data_map se m f = Inl e'))"


section \<open>An instance\<close>

text \<open>
  For the witnesses: a data map is its levels, each a list of addresses; a level is resolved by
  fetching all of its chunks; the content is the concatenation of the chunks of the last level. A
  serialized map is the list of the bytes its (32 times repeated) addresses are made of, and the
  levels are separated by zero bytes.
\<close>

fun climb :: "byte list list list \<Rightarrow> (byte list \<Rightarrow> byte list result) \<Rightarrow> byte list list list result" where
  "climb [] f = Inl ''empty map''"
| "climb [l] f = Inr [l]"
| "climb (l # ls) f = res_bind (collect_results (map f l)) (\<lambda>_. climb ls f)"

definition test_se :: "byte list list list self_encryption" where
  "test_se = \<lparr>
     verify_chunk = (\<lambda>a bs. if be_bytes 32 (be_val bs) = a then Inr bs else Inl ''hash mismatch''),
     data_map_from_slice = (\<lambda>bs. Inr (map (map (replicate 32)) (split_on 0 bs))),
     data_map_to_vec = (\<lambda>m. Inr (join [0] (map (map hd) m))),
     map_infos = (\<lambda>m. if m = [] then [] else hd m),
     map_is_child = (\<lambda>m. length m \<noteq> 1),
     get_root_data_map = climb,
     se_decrypt = (\<lambda>m cs. Inr (concat cs)),
     se_encrypt = (\<lambda>d. Inr ([[d]], [d])),
     shrink_data_map = (\<lambda>m. Inr (m, []))\<rparr>"

lemma test_se_sel [simp]:
  "verify_chunk test_se a bs = (if be_bytes 32 (be_val bs) = a then Inr bs else Inl ''hash mismatch'')"
  "data_map_from_slice test_se bs = Inr (map (map (replicate 32)) (split_on 0 bs))"
  "map_infos test_se m = (if m = [] then [] else hd m)"
  "map_is_child test_se m \<longleftrightarrow> length m \<noteq> 1"
  "get_root_data_map test_se = climb"
  "se_decrypt test_se m cs = Inr (concat cs)"
  "se_encrypt test_se d = Inr ([[d]], [d])"
  "shrink_data_map test_se m = Inr (m, [])"
  "data_map_to_vec test_se m = Inr (join [0] (map (map hd) m))"
  by (simp_all add: test_se_def)

lemma climb_root: "climb m f = Inr r \<Longrightarrow> length r = 1"
  by (induction m f rule: climb.induct) (auto simp: res_iff)

lemma climb_monotone:
  "climb m f = Inr r \<Longrightarrow> \<forall>a bs. f a = Inr bs \<longrightarrow> g a = Inr bs \<Longrightarrow> climb m g = Inr r"
proof (induction m f rule: climb.induct)
  case (3 l l' ls f)
  obtain vs where vs: "collect_results (map f l) = Inr vs" "climb (l' # ls) f = Inr r"
    using 3(2) unfolding climb.simps(3) by (auto simp only: res_iff)
  show ?case
    unfolding climb.simps(3) collect_results_monotone [OF vs(1) 3(3)] using 3(1) [OF vs(2) 3(3)] by simp
qed auto

lemma test_se_correct:
  "verify_correct test_crates test_se" "verify_complete test_crates test_se" "root_correct test_se" "root_monotone test_se"
proof -
  show "root_monotone test_se" unfolding root_monotone_def test_se_sel using climb_monotone by blast
qed (auto simp: verify_correct_def verify_complete_def root_correct_def climb_root)

text \<open>A file of one chunk: its map names the chunk of 32 sevens, which hashes to itself.\<close>

lemma block_hash: "be_bytes 32 (be_val (replicate 32 b)) = replicate 32 b"
  using be_bytes_val [of "replicate 32 b"] by simp

lemma test_begin:
  "retrieval_begin test_se (be_bytes 32 7) [7] = Inr \<lparr>r_map = [[replicate 32 7]], root_resolved = True, cache = Map.empty\<rparr>"
  by (simp add: retrieval_begin_def be_val_def)

lemma test_supply:
  "retrieval_supply test_crates test_se (replicate 32 7) (replicate 32 7)
     \<lparr>r_map = [[replicate 32 7]], root_resolved = True, cache = Map.empty\<rparr>
   = Inr \<lparr>r_map = [[replicate 32 7]], root_resolved = True, cache = [replicate 32 7 \<mapsto> replicate 32 7]\<rparr>"
  by (simp add: retrieval_supply_def block_hash)

lemma retrievals_agree_witness:
  "\<exists>r B. retrieving_with test_crates test_se (be_bytes 32 7) B r \<and> finish test_crates test_se r = Inr (replicate 32 7)
     \<and> (\<forall>r' B' y. retrieving_with test_crates test_se (be_bytes 32 7) B' r' \<longrightarrow> finish test_crates test_se r' = Inr y \<longrightarrow>
          y = replicate 32 7 \<or> colliding test_crates B B')"
proof -
  let ?r = "\<lparr>r_map = [[replicate 32 7]], root_resolved = True, cache = [replicate 32 7 \<mapsto> replicate 32 7]\<rparr>"
  let ?B = "{replicate 32 7, [7]}"
  have r: "retrieving_with test_crates test_se (be_bytes 32 7) ?B ?r"
    by (rule retrieving_with.supplied [OF retrieving_with.begins [OF test_begin] test_supply])
  have f: "finish test_crates test_se ?r = Inr (replicate 32 7)"
    by (simp add: finish_def is_complete_def required_addresses_def)
  from retrievals_agree [OF test_se_correct(1,3,4) r _ f] r f show ?thesis
    by (intro exI [of _ ?r] exI [of _ ?B]) (auto simp: eq_commute)
qed

lemma retrieval_progress_witness:
  "\<exists>r r2. \<not> is_complete test_se r \<and> rounds_left test_se r2 < rounds_left test_se r"
proof -
  let ?r = "\<lparr>r_map = [[replicate 32 (7 :: byte)]], root_resolved = True, cache = Map.empty\<rparr>"
  let ?r1 = "\<lparr>r_map = [[replicate 32 (7 :: byte)]], root_resolved = True, cache = [replicate 32 7 \<mapsto> replicate 32 7]\<rparr>"
  have "supply_all test_crates test_se [(replicate 32 7, replicate 32 7)] ?r = Inr ?r1"
    by (simp add: test_supply)
  from retrieval_progress [OF this, of ?r1] show ?thesis
    by (intro exI [of _ ?r] exI [of _ ?r1]) (simp add: required_addresses_def is_complete_def advance_def)
qed


end
