(* ===== verification/Client.thy ===== *)
theory Client
  imports Conn Evm Retrieval "HOL-Library.AList"
begin

text \<open>
  \<open>src/lib.rs\<close>: the client itself. Its connections are shared (\<open>Rc\<close>), so they live in a store and are
  named by their position in it; the pool maps peer identities to such handles. Everything outside
  the client is the environment \<open>env\<close>: the crates, the \<open>n\<close>-th peer connection the browser makes and
  the \<open>n\<close>-th reply of the page's \<open>pay\<close> callback.
\<close>

section \<open>State\<close>

text \<open>A JavaScript value as far as the client looks at it: a string, or what \<open>JSON.stringify\<close> makes of it.\<close>

datatype js_value = JsString string | JsOther "string option"

datatype pay_reply = Throws js_value | Rejects js_value | Resolves js_value | NeverSettles

record 'm env =
  e_crates :: crates
  e_serde :: serde_crates
  e_se :: "'m self_encryption"
  e_rtc :: "nat \<Rightarrow> peer_connection"
  e_pay :: "nat \<Rightarrow> pay_reply"

record client =
  conns :: "NodeConnection list"
  bootstrap :: nat
  pool :: "(byte list \<times> nat) list"
  chunks_fetched :: nat
  dials :: nat
  pay_calls :: "(string \<times> string) list"

definition CLOSE_GROUP_MAJORITY :: nat where "CLOSE_GROUP_MAJORITY = 4"
definition DATA_TYPE_CHUNK :: u32 where "DATA_TYPE_CHUNK = 0"
definition QUOTE_ATTEMPTS :: nat where "QUOTE_ATTEMPTS = 3"

definition on_conn :: "nat \<Rightarrow> (NodeConnection, 'a) async \<Rightarrow> (client, 'a) async" where
  "on_conn h f w = (case f (conns w ! h) of (r, c) \<Rightarrow> (r, w\<lparr>conns := (conns w)[h := c]\<rparr>))"

definition on_bootstrap :: "(NodeConnection, 'a) async \<Rightarrow> (client, 'a) async" where
  "on_bootstrap f w = on_conn (bootstrap w) f w"

definition modify :: "('w \<Rightarrow> 'w) \<Rightarrow> ('w, unit) async" where
  "modify f w = ok () (f w)"

section \<open>Text\<close>

definition hex_0x :: "crates \<Rightarrow> byte list \<Rightarrow> string" where
  "hex_0x cr bytes = ''0x'' @ hex_encode cr bytes"

definition to_hex :: "crates \<Rightarrow> byte list \<Rightarrow> string" where
  "to_hex cr addr = hex_0x cr addr"

definition sized :: "nat \<Rightarrow> string \<Rightarrow> byte list \<Rightarrow> byte list result" where
  "sized n msg bytes = (if length bytes = n then Inr bytes else Inl msg)"

definition parse_eth_address :: "crates \<Rightarrow> string \<Rightarrow> byte list result" where
  "parse_eth_address cr text =
     (let trimmed = unwrap_or (strip_prefix ''0x'' (trim text)) (trim text) in
      res_bind (map_err (\<lambda>e. ''address is not hex: '' @ e) (hex_decode cr trimmed))
        (sized 20 ''address must be 20 bytes (40 hex chars)''))"

definition parse_tx_hash :: "crates \<Rightarrow> string \<Rightarrow> byte list result" where
  "parse_tx_hash cr text =
     (let trimmed = unwrap_or (strip_prefix ''0x'' (trim text)) (trim text) in
      res_bind (map_err (\<lambda>e. ''tx hash is not hex: '' @ e) (hex_decode cr trimmed))
        (sized 32 ''tx hash must be 32 bytes (64 hex chars)''))"

definition parse_address :: "crates \<Rightarrow> string \<Rightarrow> byte list result" where
  "parse_address cr text =
     res_bind (map_err (\<lambda>e. ''address is not hex: '' @ e) (hex_decode cr (trim text)))
       (sized 32 ''address must be 64 hex characters'')"

definition parse_opt_peer_id :: "crates \<Rightarrow> string \<Rightarrow> byte list option result" where
  "parse_opt_peer_id cr hex_str =
     (if hex_str = [] then Inr None
      else res_bind (map_err (\<lambda>e. ''peer_id_hex: '' @ e) (hex_decode cr hex_str))
        (\<lambda>bytes. res_bind (sized 32 ''peer_id_hex must be 32 bytes'' bytes) (\<lambda>b. Inr (Some b))))"

definition content_address :: "crates \<Rightarrow> byte list \<Rightarrow> byte list" where
  "content_address cr bytes = blake3_hash cr bytes"

section \<open>Connecting\<close>

definition client_connect ::
    "'m env \<Rightarrow> string \<Rightarrow> u16 \<Rightarrow> string \<Rightarrow> string \<Rightarrow> client result poll" where
  "client_connect env ip port cert_hash_hex peer_id_hex =
     (case parse_opt_peer_id (e_crates env) peer_id_hex of
        Inl e \<Rightarrow> Ready (Inl e)
      | Inr expected \<Rightarrow>
          (case conn_connect (e_crates env) (e_rtc env 0) 0 ip port cert_hash_hex expected of
             Pending \<Rightarrow> Pending
           | Ready (Inl e) \<Rightarrow> Ready (Inl e)
           | Ready (Inr c) \<Rightarrow> Ready (Inr \<lparr>conns = [c], bootstrap = 0, pool = AList.update (peer_id c) 0 [],
               chunks_fetched = 0, dials = 1, pay_calls = []\<rparr>)))"

text \<open>The getters \<open>peer_id\<close>, \<open>connection_count\<close> and \<open>chunk_count\<close>.\<close>

definition client_peer_id :: "crates \<Rightarrow> client \<Rightarrow> string" where
  "client_peer_id cr w = hex_encode cr (peer_id (conns w ! bootstrap w))"

definition connection_count :: "client \<Rightarrow> nat" where
  "connection_count w = length (pool w)"

definition client_chunk_count :: "client \<Rightarrow> nat" where
  "client_chunk_count w = chunks_fetched w"

definition connection_for :: "'m env \<Rightarrow> PeerConnectInfo \<Rightarrow> (client, nat) async" where
  "connection_for env peer w =
     (case map_of (pool w) (pci_peer_id peer) of
        Some h \<Rightarrow> ok h w
      | None \<Rightarrow>
          (let w1 = w\<lparr>dials := Suc (dials w)\<rparr> in
           case conn_connect (e_crates env) (e_rtc env (dials w)) (dials w) (pci_ip peer) (pci_port peer)
                  (hex_encode (e_crates env) (pci_cert_hash peer)) (Some (pci_peer_id peer)) of
             Pending \<Rightarrow> (Pending, w1)
           | Ready (Inl e) \<Rightarrow> fail e w1
           | Ready (Inr c) \<Rightarrow> ok (length (conns w))
               (w1\<lparr>conns := conns w @ [c], pool := AList.update (pci_peer_id peer) (length (conns w)) (pool w)\<rparr>)))"

section \<open>Downloading\<close>

text \<open>The loop of \<open>get_direct\<close> over the discovered peers.\<close>

fun try_peers :: "'m env \<Rightarrow> byte list \<Rightarrow> PeerConnectInfo list \<Rightarrow> string \<Rightarrow> (client, byte list) async" where
  "try_peers env address [] last_err w =
     fail (''no responsible peer served '' @ hex_encode (e_crates env) address @ '': '' @ last_err) w"
| "try_peers env address (peer # peers) last_err w =
     (case connection_for env peer w of
        (Pending, w1) \<Rightarrow> (Pending, w1)
      | (Ready (Inl e), w1) \<Rightarrow> try_peers env address peers e w1
      | (Ready (Inr h), w1) \<Rightarrow>
          (case on_conn h (get_verified (e_crates env) (e_serde env) address) w1 of
             (Pending, w2) \<Rightarrow> (Pending, w2)
           | (Ready (Inr bytes), w2) \<Rightarrow> ok bytes w2
           | (Ready (Inl e), w2) \<Rightarrow> try_peers env address peers e w2))"

definition get_direct :: "'m env \<Rightarrow> byte list \<Rightarrow> (client, byte list) async" where
  "get_direct env address =
     await (on_bootstrap (closest_peers (e_crates env) (e_serde env) address)) (\<lambda>peers.
       if peers = [] then fail ''discovery returned no peers'' else try_peers env address peers [])"

text \<open>
  \<open>join_all\<close>, in the schedule that runs the calls one after the other (\<open>Futures\<close> has all schedules).
  Every call is run, and all of them are awaited: one that never returns keeps the others' results back.
\<close>

fun join_all :: "('w, 'a) async list \<Rightarrow> 'w \<Rightarrow> 'a result list poll \<times> 'w" where
  "join_all [] w = (Ready [], w)"
| "join_all (f # fs) w =
     (case f w of (r, w1) \<Rightarrow>
        (case join_all fs w1 of (rs, w2) \<Rightarrow>
           ((case (r, rs) of (Ready x, Ready xs) \<Rightarrow> Ready (x # xs) | _ \<Rightarrow> Pending), w2)))"

text \<open>The inner loop of a round: each result is unwrapped, supplied and counted.\<close>

fun supply_fetched ::
    "'m env \<Rightarrow> (byte list \<times> byte list result) list \<Rightarrow> 'm Retrieval \<Rightarrow> (client, 'm Retrieval) async" where
  "supply_fetched env [] r w = ok r w"
| "supply_fetched env ((addr, Inl e) # rest) r w = fail e w"
| "supply_fetched env ((addr, Inr bytes) # rest) r w =
     (case retrieval_supply (e_crates env) (e_se env) addr bytes r of
        Inl e \<Rightarrow> fail e w
      | Inr r1 \<Rightarrow> supply_fetched env rest r1 (w\<lparr>chunks_fetched := chunks_fetched w + 1\<rparr>))"

lemma supply_fetched_all:
  "supply_fetched env items r w = (Ready (Inr r'), w') \<Longrightarrow>
     \<exists>got. map fst got = map fst items \<and> supply_all (e_crates env) (e_se env) got r = Inr r'"
proof (induction env items r w rule: supply_fetched.induct)
  case (1 env r w)
  then show ?case by (simp add: ok_def)
next
  case (2 env addr e rest r w)
  then show ?case by (simp add: fail_def)
next
  case (3 env addr bytes rest r w)
  then obtain r1 where r1: "retrieval_supply (e_crates env) (e_se env) addr bytes r = Inr r1"
    by (auto simp: fail_def split: sum.splits)
  with 3 obtain got where "map fst got = map fst rest" "supply_all (e_crates env) (e_se env) got r1 = Inr r'"
    by auto
  with r1 show ?case by (intro exI [of _ "(addr, bytes) # got"]) simp
qed

lemma length_join_all: "join_all fs w = (Ready xs, w') \<Longrightarrow> length xs = length fs"
  by (induction fs arbitrary: w xs) (auto split: prod.splits poll.splits)

lemma fetched_round:
  assumes "join_all (map (get_direct env) (required_addresses (e_se env) r)) w = (Ready fetched, w1)"
    and "supply_fetched env (zip (required_addresses (e_se env) r) fetched) r w1 = (Ready (Inr r1), w2)"
  shows "\<exists>got. map fst got = required_addresses (e_se env) r \<and> supply_all (e_crates env) (e_se env) got r = Inr r1"
  using supply_fetched_all [OF assms(2)] length_join_all [OF assms(1)] by simp

text \<open>The \<open>while\<close> loop of \<open>download\<close>.\<close>

function download_rounds :: "'m env \<Rightarrow> 'm Retrieval \<Rightarrow> (client, 'm Retrieval) async" where
  "download_rounds env r w =
     (if is_complete (e_se env) r then ok r w
      else
        (case join_all (map (get_direct env) (required_addresses (e_se env) r)) w of
           (Pending, w1) \<Rightarrow> (Pending, w1)
         | (Ready fetched, w1) \<Rightarrow>
             (case supply_fetched env (zip (required_addresses (e_se env) r) fetched) r w1 of
                (Pending, w2) \<Rightarrow> (Pending, w2)
              | (Ready (Inl e), w2) \<Rightarrow> (Ready (Inl e), w2)
              | (Ready (Inr r1), w2) \<Rightarrow>
                  (case advance (e_crates env) (e_se env) r1 of
                     Inl e \<Rightarrow> fail e w2
                   | Inr r2 \<Rightarrow> download_rounds env r2 w2))))"
  by pat_completeness auto

termination
proof (relation "measure (\<lambda>(env, r, w). rounds_left (e_se env) r)")
  fix env :: "'m env" and r w x w1 fetched y w2 z r1 r2
  assume "\<not> is_complete (e_se env) r"
    and j: "(x, w1) = join_all (map (get_direct env) (required_addresses (e_se env) r)) w" "x = Ready fetched"
    and s: "(y, w2) = supply_fetched env (zip (required_addresses (e_se env) r) fetched) r w1" "y = Ready z" "z = Inr r1"
    and a: "advance (e_crates env) (e_se env) r1 = Inr r2"
  moreover from fetched_round j s obtain got where
    "map fst got = required_addresses (e_se env) r" "supply_all (e_crates env) (e_se env) got r = Inr r1"
    by metis
  ultimately show "((env, r2, w2), env, r, w) \<in> measure (\<lambda>(env, r, w). rounds_left (e_se env) r)"
    using round_progress by fastforce
qed simp

declare download_rounds.simps [simp del]

definition download :: "'m env \<Rightarrow> string \<Rightarrow> (client, byte list) async" where
  "download env address_hex =
     await (lift_res (parse_address (e_crates env) address_hex)) (\<lambda>address.
     await (modify (\<lambda>w. w\<lparr>chunks_fetched := 0\<rparr>)) (\<lambda>_.
     await (get_direct env address) (\<lambda>map_bytes.
     await (modify (\<lambda>w. w\<lparr>chunks_fetched := chunks_fetched w + 1\<rparr>)) (\<lambda>_.
     await (lift_res (retrieval_begin (e_se env) address map_bytes)) (\<lambda>retrieval.
     await (download_rounds env retrieval) (\<lambda>retrieval.
     lift_res (finish (e_crates env) (e_se env) retrieval)))))))"

definition fetch_chunk :: "'m env \<Rightarrow> string \<Rightarrow> (client, byte list) async" where
  "fetch_chunk env address_hex =
     await (lift_res (parse_address (e_crates env) address_hex)) (get_direct env)"

section \<open>Diagnostics\<close>

definition relayed_fetch :: "'m env \<Rightarrow> string \<Rightarrow> string \<Rightarrow> string \<Rightarrow> (client, nat) async" where
  "relayed_fetch env target_peer_id_hex stun_addr address_hex =
     await (lift_res (parse_address (e_crates env) target_peer_id_hex)) (\<lambda>target.
     await (lift_res (parse_address (e_crates env) address_hex)) (\<lambda>address w.
       let w1 = w\<lparr>dials := Suc (dials w)\<rparr> in
       await (on_bootstrap (conn_connect_via_relay (e_crates env) (e_serde env) (e_rtc env (dials w)) (dials w)
                stun_addr target))
         (\<lambda>conn w2.
            (case get_verified (e_crates env) (e_serde env) address conn of
               (Pending, _) \<Rightarrow> (Pending, w2)
             | (Ready (Inl e), _) \<Rightarrow> fail e w2
             | (Ready (Inr bytes), _) \<Rightarrow> ok (length bytes) w2)) w1))"

definition peers_json :: "crates \<Rightarrow> PeerConnectInfo list \<Rightarrow> string" where
  "peers_json cr peers =
     (let q = [CHR 0x22];
          items = map (\<lambda>p.
            ''{'' @ q @ ''peer_id'' @ q @ '':'' @ q @ hex_encode cr (pci_peer_id p) @ q @ '',''
            @ q @ ''ip'' @ q @ '':'' @ q @ pci_ip p @ q @ '',''
            @ q @ ''port'' @ q @ '':'' @ show_nat (unat (pci_port p)) @ '',''
            @ q @ ''cert_hash'' @ q @ '':'' @ q @ hex_encode cr (pci_cert_hash p) @ q @ ''}'') peers in
      ''['' @ join '','' items @ '']'')"

definition closest_peers_json :: "'m env \<Rightarrow> string \<Rightarrow> (client, string) async" where
  "closest_peers_json env address_hex =
     await (lift_res (parse_address (e_crates env) address_hex)) (\<lambda>address.
     await (on_bootstrap (closest_peers (e_crates env) (e_serde env) address)) (\<lambda>peers.
     ok (peers_json (e_crates env) peers)))"

section \<open>Uploading\<close>

record QuotedPeer =
  qp_peer_id :: "byte list"
  qp_conn :: nat
  qp_quote :: Quote
  qp_commitment :: "byte list option"

definition request_quote ::
    "crates \<Rightarrow> serde_crates \<Rightarrow> byte list \<Rightarrow> nat \<Rightarrow> (NodeConnection, byte list \<times> bool \<times> byte list option) async" where
  "request_quote cr sc address data_size =
     (let request = \<lparr>request_id = 1, body = QuoteRequest
            \<lparr>quote_address = address, quote_data_size = of_nat data_size, quote_data_type = DATA_TYPE_CHUNK\<rparr>\<rparr> in
      await (chunk_round_trip cr sc request) (\<lambda>response.
        case body response of
          QuoteResponse (QuoteSuccess quote already_stored commitment) \<Rightarrow> ok (quote, already_stored, commitment)
        | QuoteResponse (QuoteError e) \<Rightarrow> fail (''quote error: '' @ display_protocol_error e)
        | _ \<Rightarrow> fail ''unexpected response to quote request''))"

definition put_chunk ::
    "crates \<Rightarrow> serde_crates \<Rightarrow> byte list \<Rightarrow> byte list \<Rightarrow> byte list \<Rightarrow> (NodeConnection, bool) async" where
  "put_chunk cr sc address data proof_bytes =
     (let request = \<lparr>request_id = 1, body = PutRequest
            \<lparr>put_address = address, put_content = data, payment_proof = Some proof_bytes\<rparr>\<rparr> in
      await (chunk_round_trip cr sc request) (\<lambda>response.
        case body response of
          PutResponse (PutSuccess _) \<Rightarrow> ok True
        | PutResponse (PutAlreadyExists _) \<Rightarrow> ok True
        | PutResponse (PutPaymentRequired message) \<Rightarrow> fail (''payment required: '' @ message)
        | PutResponse (PutError e) \<Rightarrow> fail (''put error: '' @ display_protocol_error e)
        | _ \<Rightarrow> fail ''unexpected response to put request''))"

fun js_display :: "js_value \<Rightarrow> string" where
  "js_display (JsString s) = s"
| "js_display (JsOther (Some json)) = json"
| "js_display (JsOther None) = ''<non-string JS error>''"

definition call_pay :: "'m env \<Rightarrow> string \<Rightarrow> string \<Rightarrow> (client, string) async" where
  "call_pay env to calldata w =
     (let w1 = w\<lparr>pay_calls := pay_calls w @ [(to, calldata)]\<rparr> in
      case e_pay env (length (pay_calls w)) of
        Throws e \<Rightarrow> fail (''pay callback threw: '' @ js_display e) w1
      | Rejects e \<Rightarrow> fail (''pay callback rejected: '' @ js_display e) w1
      | NeverSettles \<Rightarrow> (Pending, w1)
      | Resolves (JsString s) \<Rightarrow> ok s w1
      | Resolves (JsOther _) \<Rightarrow> fail ''pay callback did not resolve to a string tx hash'' w1)"

definition try_quote ::
    "'m env \<Rightarrow> PeerConnectInfo \<Rightarrow> byte list \<Rightarrow> nat \<Rightarrow> (client, Quote \<times> bool \<times> byte list option) async" where
  "try_quote env peer address data_size =
     await (connection_for env peer) (\<lambda>h.
     await (on_conn h (request_quote (e_crates env) (e_serde env) address data_size))
       (\<lambda>(quote_bytes, already_stored, commitment).
     await (lift_res (map_err (\<lambda>e. ''quote parse: '' @ display_payment_error e)
              (parse_quote (rmp_from_slice (e_serde env)) quote_bytes))) (\<lambda>quote.
       if content quote \<noteq> address then fail ''quote is for a different address''
       else if blake3_hash (e_crates env) (pub_key quote) \<noteq> pci_peer_id peer
       then fail ''quote public key does not match the peer id''
       else if \<not> verify_quote (e_crates env) quote then fail ''quote signature verification failed''
       else ok (quote, already_stored, commitment))))"

text \<open>
  The attempts on one peer, \<open>k\<close> of them left: after a failure the cached connection is dropped, unless
  it was the last attempt.
\<close>

fun quote_attempts ::
    "'m env \<Rightarrow> PeerConnectInfo \<Rightarrow> byte list \<Rightarrow> nat \<Rightarrow> nat \<Rightarrow> string
      \<Rightarrow> (client, Quote \<times> bool \<times> byte list option) async" where
  "quote_attempts env peer address data_size 0 last_err w = fail last_err w"
| "quote_attempts env peer address data_size (Suc k) last_err w =
     (case try_quote env peer address data_size w of
        (Pending, w1) \<Rightarrow> (Pending, w1)
      | (Ready (Inr q), w1) \<Rightarrow> ok q w1
      | (Ready (Inl e), w1) \<Rightarrow> quote_attempts env peer address data_size k e
          (if k = 0 then w1 else w1\<lparr>pool := AList.delete (pci_peer_id peer) (pool w1)\<rparr>))"

text \<open>
  The quote phase of \<open>store_one\<close>. \<open>None\<close> is the early return once a majority already stores the chunk.
\<close>

fun collect_quotes ::
    "'m env \<Rightarrow> byte list \<Rightarrow> nat \<Rightarrow> PeerConnectInfo list \<Rightarrow> QuotedPeer list \<Rightarrow> nat
      \<Rightarrow> (client, QuotedPeer list option) async" where
  "collect_quotes env address data_size [] quoted already_stored_count w = ok (Some quoted) w"
| "collect_quotes env address data_size (peer # peers) quoted already_stored_count w =
     (case quote_attempts env peer address data_size QUOTE_ATTEMPTS ''no attempt'' w of
        (Pending, w1) \<Rightarrow> (Pending, w1)
      | (Ready (Inl last_err), w1) \<Rightarrow>
          fail (''close-group peer '' @ hex_encode (e_crates env) (pci_peer_id peer)
            @ '' did not give a valid quote for '' @ hex_encode (e_crates env) address
            @ '' after 3 tries: '' @ last_err) w1
      | (Ready (Inr (quote, already_stored, commitment)), w1) \<Rightarrow>
          (if already_stored \<and> already_stored_count + 1 \<ge> CLOSE_GROUP_MAJORITY then ok None w1
           else
             (case connection_for env peer w1 of
                (Pending, w2) \<Rightarrow> (Pending, w2)
              | (Ready (Inl e), w2) \<Rightarrow> fail e w2
              | (Ready (Inr h), w2) \<Rightarrow>
                  collect_quotes env address data_size peers
                    (quoted @ [\<lparr>qp_peer_id = pci_peer_id peer, qp_conn = h, qp_quote = quote,
                                qp_commitment = commitment\<rparr>])
                    (already_stored_count + (if already_stored then 1 else 0)) w2)))"

text \<open>The attempts to PUT at one peer: whether it accepted, and the last error seen.\<close>

fun put_attempts ::
    "'m env \<Rightarrow> nat \<Rightarrow> byte list \<Rightarrow> byte list \<Rightarrow> byte list \<Rightarrow> nat \<Rightarrow> string \<Rightarrow> (client, bool \<times> string) async" where
  "put_attempts env h address data proof_bytes 0 last_err w = ok (False, last_err) w"
| "put_attempts env h address data proof_bytes (Suc k) last_err w =
     (case on_conn h (put_chunk (e_crates env) (e_serde env) address data proof_bytes) w of
        (Pending, w1) \<Rightarrow> (Pending, w1)
      | (Ready (Inr accepted), w1) \<Rightarrow> ok (accepted, last_err) w1
      | (Ready (Inl e), w1) \<Rightarrow> put_attempts env h address data proof_bytes k e w1)"

fun put_all ::
    "'m env \<Rightarrow> byte list \<Rightarrow> byte list \<Rightarrow> byte list \<Rightarrow> QuotedPeer list \<Rightarrow> nat \<Rightarrow> string
      \<Rightarrow> (client, nat \<times> string) async" where
  "put_all env address data proof_bytes [] accepted last_err w = ok (accepted, last_err) w"
| "put_all env address data proof_bytes (peer # peers) accepted last_err w =
     (case put_attempts env (qp_conn peer) address data proof_bytes QUOTE_ATTEMPTS last_err w of
        (Pending, w1) \<Rightarrow> (Pending, w1)
      | (Ready (Inl e), w1) \<Rightarrow> fail e w1
      | (Ready (Inr (yes, last1)), w1) \<Rightarrow>
          put_all env address data proof_bytes peers (accepted + (if yes then 1 else 0)) last1 w1)"

text \<open>What is paid and proved for the quotes of a full close group.\<close>

definition pay_quotes ::
    "'m env \<Rightarrow> byte list \<Rightarrow> byte list \<Rightarrow> QuotedPeer list \<Rightarrow> (client, byte list) async" where
  "pay_quotes env token vault quoted =
     (let cr = e_crates env; quotes = map qp_quote quoted in
      await (lift_res (payment_split cr quotes)) (\<lambda>payments.
      let total = total_amount payments; approve = approve_calldata vault total in
      await (call_pay env (to_hex cr token) (hex_0x cr approve)) (\<lambda>_.
      await (call_pay env (to_hex cr vault) (hex_0x cr (pay_for_quotes_calldata cr payments))) (\<lambda>tx_hex.
      await (lift_res (parse_tx_hash cr tx_hex)) (\<lambda>tx_hash.
      let peer_quotes = map (\<lambda>q. (qp_peer_id q, qp_quote q)) quoted;
          sidecars = List.map_filter qp_commitment quoted in
      lift_res (map_err (\<lambda>e. ''proof serialize failed: '' @ display_payment_error e)
        (serialize_single_node_proof (rmp_to_vec (e_serde env)) peer_quotes tx_hash sidecars)))))))"

definition store_one ::
    "'m env \<Rightarrow> byte list \<Rightarrow> byte list \<Rightarrow> byte list \<Rightarrow> byte list \<Rightarrow> (client, unit) async" where
  "store_one env address data token vault =
     await (on_bootstrap (closest_peers (e_crates env) (e_serde env) address)) (\<lambda>peers.
     if length peers < CLOSE_GROUP_SIZE
     then fail (''need at least 7 responsible peers for '' @ hex_encode (e_crates env) address
            @ '', discovery returned '' @ show_nat (length peers))
     else
       await (collect_quotes env address (length data) (take CLOSE_GROUP_SIZE peers) [] 0) (\<lambda>found.
       case found of
         None \<Rightarrow> ok ()
       | Some quoted \<Rightarrow>
           await (pay_quotes env token vault quoted) (\<lambda>proof_bytes.
           await (put_all env address data proof_bytes quoted 0 []) (\<lambda>(accepted, last_err).
             if accepted < CLOSE_GROUP_MAJORITY
             then fail (''chunk '' @ hex_encode (e_crates env) address @ '' accepted by only ''
                    @ show_nat accepted @ '' of 7 peers: '' @ last_err)
             else ok ()))))"

fun store_items ::
    "'m env \<Rightarrow> byte list \<Rightarrow> byte list \<Rightarrow> (byte list \<times> byte list) list \<Rightarrow> (client, unit) async" where
  "store_items env token vault [] w = ok () w"
| "store_items env token vault ((address, data) # items) w =
     await (store_one env address data token vault) (\<lambda>_. store_items env token vault items) w"

text \<open>What \<open>upload\<close> stores, in order: content chunks, wrapper chunks, the data map; and its address.\<close>

definition upload_items :: "'m env \<Rightarrow> byte list \<Rightarrow> ((byte list \<times> byte list) list \<times> byte list) result" where
  "upload_items env data =
     (let cr = e_crates env; se = e_se env in
      res_bind (map_err (\<lambda>e. ''self-encryption failed: '' @ e) (se_encrypt se data)) (\<lambda>(data_map, chunks).
      let items = map (\<lambda>c. (blake3_hash cr c, c)) chunks in
      res_bind (map_err (\<lambda>e. ''data map shrink failed: '' @ e) (shrink_data_map se data_map)) (\<lambda>(shrunk, wrappers).
      res_bind (map_err (\<lambda>e. ''data map serialize failed: '' @ e) (data_map_to_vec se shrunk)) (\<lambda>map_bytes.
      let map_address = blake3_hash cr map_bytes in
      Inr (items @ wrappers @ [(map_address, map_bytes)], map_address)))))"

definition upload :: "'m env \<Rightarrow> byte list \<Rightarrow> string \<Rightarrow> string \<Rightarrow> (client, string) async" where
  "upload env data token_addr_hex vault_addr_hex =
     await (lift_res (parse_eth_address (e_crates env) token_addr_hex)) (\<lambda>token.
     await (lift_res (parse_eth_address (e_crates env) vault_addr_hex)) (\<lambda>vault.
     await (lift_res (upload_items env data)) (\<lambda>(items, map_address).
     await (store_items env token vault items) (\<lambda>_.
     ok (hex_encode (e_crates env) map_address)))))"

end
