(* ===== verification/Futures.thy ===== *)
theory Futures
  imports Client
begin

text \<open>
  The interleaving of the futures of \<open>join_all\<close> in \<open>download\<close> of \<open>src/lib.rs\<close>. Each future is a run of
  \<open>get_direct\<close>; it gives up control only where it awaits, so it is a machine with one state per await:
  discovery, the dial of a peer, a request. The request number is read before the lock of the connection is
  awaited, so another future may send under the same one. From the moment it has the lock to its release a
  request is one step: nobody else uses the connection meanwhile, and the counter is advanced at once. The
  look-up in the pool and the insertion after a dial are two steps, between which another future may dial
  the same peer. \<open>fetch_any\<close> lets any future take its next step; \<open>join_all\<close> of \<open>Client\<close> is the schedule that
  runs them in turn.
\<close>

section \<open>Futures\<close>

datatype fetching =
    Discovering
  | Asking u64
  | Trying "PeerConnectInfo list" string
  | Dialing nat PeerConnectInfo "PeerConnectInfo list"
  | Requesting nat "PeerConnectInfo list"
  | Getting nat u64 "PeerConnectInfo list"
  | Fetched "byte list result"
  | Hung

fun active :: "fetching \<Rightarrow> bool" where
  "active (Fetched x) \<longleftrightarrow> False" | "active Hung \<longleftrightarrow> False" | "active _ \<longleftrightarrow> True"

text \<open>The number a request on a connection is built under.\<close>

definition request_number :: "nat \<Rightarrow> client \<Rightarrow> u64" where
  "request_number h w = ucast (next_seq (conns w ! h))"

fun fetch_step :: "'m env \<Rightarrow> byte list \<Rightarrow> fetching \<Rightarrow> client \<Rightarrow> fetching \<times> client" where
  "fetch_step env address Discovering w = (Asking (request_number (bootstrap w) w), w)"
| "fetch_step env address (Asking i) w =
     (case on_bootstrap (closest_peers_as (e_crates env) (e_serde env) i address) w of
        (Pending, w1) \<Rightarrow> (Hung, w1)
      | (Ready (Inl e), w1) \<Rightarrow> (Fetched (Inl e), w1)
      | (Ready (Inr peers), w1) \<Rightarrow>
          (if peers = [] then Fetched (Inl ''discovery returned no peers'') else Trying peers [], w1))"
| "fetch_step env address (Trying [] last_err) w =
     (Fetched (Inl (''no responsible peer served '' @ hex_encode (e_crates env) address @ '': '' @ last_err)), w)"
| "fetch_step env address (Trying (peer # peers) last_err) w =
     (case map_of (pool w) (pci_peer_id peer) of
        Some h \<Rightarrow> (Requesting h peers, w)
      | None \<Rightarrow> (Dialing (dials w) peer peers, w\<lparr>dials := Suc (dials w)\<rparr>))"
| "fetch_step env address (Dialing d peer peers) w =
     (case conn_connect (e_crates env) (e_rtc env d) d (pci_ip peer) (pci_port peer)
             (hex_encode (e_crates env) (pci_cert_hash peer)) (Some (pci_peer_id peer)) of
        Pending \<Rightarrow> (Hung, w)
      | Ready (Inl e) \<Rightarrow> (Trying peers e, w)
      | Ready (Inr c) \<Rightarrow> (Requesting (length (conns w)) peers,
          w\<lparr>conns := conns w @ [c], pool := AList.update (pci_peer_id peer) (length (conns w)) (pool w)\<rparr>))"
| "fetch_step env address (Requesting h peers) w = (Getting h (request_number h w) peers, w)"
| "fetch_step env address (Getting h i peers) w =
     (case on_conn h (get_verified_as (e_crates env) (e_serde env) i address) w of
        (Pending, w1) \<Rightarrow> (Hung, w1)
      | (Ready (Inl e), w1) \<Rightarrow> (Trying peers e, w1)
      | (Ready (Inr bytes), w1) \<Rightarrow> (Fetched (Inr bytes), w1))"
| "fetch_step env address f w = (f, w)"

section \<open>Schedules\<close>

inductive fetch_any :: "'m env \<Rightarrow> byte list list \<Rightarrow> fetching list \<times> client \<Rightarrow> fetching list \<times> client \<Rightarrow> bool"
  for env as where
  "i < length fs \<Longrightarrow> active (fs ! i) \<Longrightarrow> fetch_step env (as ! i) (fs ! i) w = (f, w') \<Longrightarrow>
     fetch_any env as (fs, w) (fs[i := f], w')"

inductive_simps fetch_any_iff: "fetch_any env as (fs, w) s"

text \<open>All futures have returned.\<close>

definition joined :: "'m env \<Rightarrow> byte list list \<Rightarrow> client \<Rightarrow> byte list result list \<Rightarrow> client \<Rightarrow> bool" where
  "joined env as w fetched w' \<longleftrightarrow>
     (fetch_any env as)\<^sup>*\<^sup>* (replicate (length as) Discovering, w) (map Fetched fetched, w')"

text \<open>The \<open>while\<close> loop of \<open>download\<close> and \<open>download\<close> itself, with any schedule in every round.\<close>

inductive rounds_any :: "'m env \<Rightarrow> 'm Retrieval \<Rightarrow> client \<Rightarrow> 'm Retrieval result \<Rightarrow> client \<Rightarrow> bool" for env where
  complete: "is_complete (e_se env) r \<Longrightarrow> rounds_any env r w (Inr r) w"
| refused: "\<not> is_complete (e_se env) r \<Longrightarrow> joined env (required_addresses (e_se env) r) w fetched w1 \<Longrightarrow>
     supply_fetched env (zip (required_addresses (e_se env) r) fetched) r w1 = (Ready (Inl e), w2) \<Longrightarrow>
     rounds_any env r w (Inl e) w2"
| unresolved: "\<not> is_complete (e_se env) r \<Longrightarrow> joined env (required_addresses (e_se env) r) w fetched w1 \<Longrightarrow>
     supply_fetched env (zip (required_addresses (e_se env) r) fetched) r w1 = (Ready (Inr r1), w2) \<Longrightarrow>
     advance (e_crates env) (e_se env) r1 = Inl e \<Longrightarrow> rounds_any env r w (Inl e) w2"
| another: "\<not> is_complete (e_se env) r \<Longrightarrow> joined env (required_addresses (e_se env) r) w fetched w1 \<Longrightarrow>
     supply_fetched env (zip (required_addresses (e_se env) r) fetched) r w1 = (Ready (Inr r1), w2) \<Longrightarrow>
     advance (e_crates env) (e_se env) r1 = Inr r2 \<Longrightarrow> rounds_any env r2 w2 x w3 \<Longrightarrow> rounds_any env r w x w3"

definition downloads :: "'m env \<Rightarrow> string \<Rightarrow> client \<Rightarrow> byte list result \<Rightarrow> client \<Rightarrow> bool" where
  "downloads env address_hex w out w' \<longleftrightarrow>
     (case parse_address (e_crates env) address_hex of
        Inl e \<Rightarrow> out = Inl e \<and> w' = w
      | Inr address \<Rightarrow>
          (case get_direct env address (w\<lparr>chunks_fetched := 0\<rparr>) of
             (Pending, w1) \<Rightarrow> False
           | (Ready (Inl e), w1) \<Rightarrow> out = Inl e \<and> w' = w1
           | (Ready (Inr map_bytes), w1) \<Rightarrow>
               let w2 = w1\<lparr>chunks_fetched := chunks_fetched w1 + 1\<rparr> in
               (case retrieval_begin (e_se env) address map_bytes of
                  Inl e \<Rightarrow> out = Inl e \<and> w' = w2
                | Inr r \<Rightarrow> \<exists>x. rounds_any env r w2 x w' \<and> out = res_bind x (finish (e_crates env) (e_se env)))))"

section \<open>The sequential schedule\<close>

lemma fetch_any_at:
  assumes "i < length fs" and "active f" and "fetch_step env (as ! i) f w = (f', w')"
  shows "fetch_any env as (fs[i := f], w) (fs[i := f'], w')"
  using fetch_any.intros [of i "fs[i := f]" env as w f' w'] assms by simp

text \<open>Alone, the number read is the one the counter still shows.\<close>

lemma on_conn_numbered:
  "on_conn h (get_verified cr sc a) w = on_conn h (get_verified_as cr sc (request_number h w) a) w"
  "on_conn h (closest_peers cr sc a) w = on_conn h (closest_peers_as cr sc (request_number h w) a) w"
  by (simp_all add: on_conn_def request_number_def get_verified_def closest_peers_def)

lemma fetch_any_first:
  assumes "i < length fs" and "active f" and "fetch_step env (as ! i) f w = (f', w1)"
    and "(fetch_any env as)\<^sup>*\<^sup>* (fs[i := f'], w1) s"
  shows "(fetch_any env as)\<^sup>*\<^sup>* (fs[i := f], w) s"
  using fetch_any_at [OF assms(1-3)] assms(4) by (rule converse_rtranclp_into_rtranclp)

text \<open>A future that has its connection: what the later peers would give, it gives.\<close>

lemma requesting_schedule:
  assumes "connection_for env peer w = (Ready (Inr h), w1)" and "try_peers env (as ! i) (peer # peers) last_err w = (Ready x, w')"
    and i: "i < length fs"
    and rest: "\<And>e w. try_peers env (as ! i) peers e w = (Ready x, w') \<Longrightarrow>
       (fetch_any env as)\<^sup>*\<^sup>* (fs[i := Trying peers e], w) (fs[i := Fetched x], w')"
  shows "(fetch_any env as)\<^sup>*\<^sup>* (fs[i := Requesting h peers], w1) (fs[i := Fetched x], w')"
proof -
  obtain y w2 where g: "on_conn h (get_verified_as (e_crates env) (e_serde env) (request_number h w1) (as ! i)) w1 = (y, w2)"
    by force
  then consider b where "y = Ready (Inr b)" "x = Inr b" "w' = w2"
    | e where "y = Ready (Inl e)" "try_peers env (as ! i) peers e w2 = (Ready x, w')"
    using assms(1,2) by (cases y) (auto simp: on_conn_numbered ok_def split: sum.splits)
  then show ?thesis
  proof cases
    case 1
    with g have "(fetch_any env as)\<^sup>*\<^sup>* (fs[i := Getting h (request_number h w1) peers], w1) (fs[i := Fetched x], w')"
      by - (rule fetch_any_first [OF i, where f' = "Fetched x" and ?w1.0 = w2], auto)
    then show ?thesis
      by - (rule fetch_any_first [OF i, where f' = "Getting h (request_number h w1) peers" and ?w1.0 = w1], auto)
  next
    case 2
    with g rest [OF 2(2)] have "(fetch_any env as)\<^sup>*\<^sup>* (fs[i := Getting h (request_number h w1) peers], w1) (fs[i := Fetched x], w')"
      by - (rule fetch_any_first [OF i, where f' = "Trying peers e" and ?w1.0 = w2], auto)
    then show ?thesis
      by - (rule fetch_any_first [OF i, where f' = "Getting h (request_number h w1) peers" and ?w1.0 = w1], auto)
  qed
qed

lemma try_peers_schedule:
  "try_peers env (as ! i) peers last_err w = (Ready x, w') \<Longrightarrow> i < length fs \<Longrightarrow>
     (fetch_any env as)\<^sup>*\<^sup>* (fs[i := Trying peers last_err], w) (fs[i := Fetched x], w')"
proof (induction peers arbitrary: last_err w)
  case Nil
  then show ?case by - (rule fetch_any_first [OF Nil(2), where f' = "Fetched x" and ?w1.0 = w'], auto simp: fail_def)
next
  case (Cons peer peers)
  note go = requesting_schedule [OF _ Cons.prems Cons.IH [OF _ Cons.prems(2)]]
  show ?case
  proof (cases "map_of (pool w) (pci_peer_id peer)")
    case (Some h)
    then have "connection_for env peer w = (Ready (Inr h), w)" by (simp add: connection_for_def ok_def)
    from go [OF this] Some show ?thesis
      by - (rule fetch_any_first [OF Cons.prems(2), where f' = "Requesting h peers" and ?w1.0 = w], auto)
  next
    case None
    let ?w1 = "w\<lparr>dials := Suc (dials w)\<rparr>" and ?d = "Dialing (dials w) peer peers"
    obtain y where y: "conn_connect (e_crates env) (e_rtc env (dials w)) (dials w) (pci_ip peer) (pci_port peer)
                  (hex_encode (e_crates env) (pci_cert_hash peer)) (Some (pci_peer_id peer)) = y" by simp
    have "(fetch_any env as)\<^sup>*\<^sup>* (fs[i := ?d], ?w1) (fs[i := Fetched x], w')"
    proof (cases "\<exists>c. y = Ready (Inr c)")
      case True
      then obtain c where c: "y = Ready (Inr c)" by blast
      let ?w2 = "?w1\<lparr>conns := conns w @ [c], pool := AList.update (pci_peer_id peer) (length (conns w)) (pool w)\<rparr>"
      have "connection_for env peer w = (Ready (Inr (length (conns w))), ?w2)"
        using None y c by (simp add: connection_for_def ok_def)
      from go [OF this] y c show ?thesis
        by - (rule fetch_any_first [OF Cons.prems(2), where f' = "Requesting (length (conns w)) peers" and ?w1.0 = ?w2], auto)
    next
      case False
      moreover have "y \<noteq> Pending" using Cons.prems(1) None y by (auto simp: connection_for_def Let_def)
      ultimately obtain e where ye: "y = Ready (Inl e)" by (metis poll.exhaust sum.exhaust)
      then have e: "y = Ready (Inl e)" "try_peers env (as ! i) peers e ?w1 = (Ready x, w')"
        using Cons.prems(1) None y by (simp_all add: connection_for_def fail_def)
      with y Cons.IH [OF e(2) Cons.prems(2)] show ?thesis
        by - (rule fetch_any_first [OF Cons.prems(2), where f' = "Trying peers e" and ?w1.0 = ?w1], auto)
    qed
    with None show ?thesis by - (rule fetch_any_first [OF Cons.prems(2), where f' = ?d and ?w1.0 = ?w1], auto)
  qed
qed

lemma get_direct_schedule:
  assumes "get_direct env (as ! i) w = (Ready x, w')" and "i < length fs"
  shows "(fetch_any env as)\<^sup>*\<^sup>* (fs[i := Discovering], w) (fs[i := Fetched x], w')"
proof -
  let ?n = "request_number (bootstrap w) w"
  obtain y w1 where y: "on_bootstrap (closest_peers_as (e_crates env) (e_serde env) ?n (as ! i)) w = (y, w1)" by force
  then consider e where "y = Ready (Inl e)" "x = Inl e" "w' = w1"
    | "y = Ready (Inr [])" "x = Inl ''discovery returned no peers''" "w' = w1"
    | peers where "y = Ready (Inr peers)" "peers \<noteq> []" "try_peers env (as ! i) peers [] w1 = (Ready x, w')"
    using assms(1)
    by (cases y) (auto simp: get_direct_def on_bootstrap_def on_conn_numbered await_def fail_def split: sum.splits if_splits)
  then have "(fetch_any env as)\<^sup>*\<^sup>* (fs[i := Asking ?n], w) (fs[i := Fetched x], w')"
  proof cases
    case 1
    with y show ?thesis by - (rule fetch_any_first [OF assms(2), where f' = "Fetched x" and ?w1.0 = w1], auto)
  next
    case 2
    with y show ?thesis by - (rule fetch_any_first [OF assms(2), where f' = "Fetched x" and ?w1.0 = w1], auto)
  next
    case 3
    show ?thesis
      by (rule fetch_any_first [OF assms(2) _ _ try_peers_schedule [OF 3(3) assms(2)]]) (simp_all add: y 3(1,2))
  qed
  then show ?thesis by - (rule fetch_any_first [OF assms(2), where f' = "Asking ?n" and ?w1.0 = w], auto)
qed

lemma join_all_schedule:
  "join_all (map (get_direct env) as) w = (Ready xs, w') \<Longrightarrow> length past = length fetched \<Longrightarrow>
     (fetch_any env (past @ as))\<^sup>*\<^sup>* (map Fetched fetched @ replicate (length as) Discovering, w)
       (map Fetched (fetched @ xs), w')"
proof (induction as arbitrary: past fetched w xs)
  case Nil
  then show ?case by simp
next
  case (Cons a as)
  obtain x xs' w1 where g: "get_direct env a w = (Ready x, w1)" and j: "join_all (map (get_direct env) as) w1 = (Ready xs', w')"
    and xs: "xs = x # xs'"
    using Cons.prems(1) by (auto split: prod.splits poll.splits)
  let ?fs = "map Fetched fetched @ Discovering # replicate (length as) Discovering"
  have "(fetch_any env (past @ a # as))\<^sup>*\<^sup>* (?fs[length fetched := Discovering], w) (?fs[length fetched := Fetched x], w1)"
    by (rule get_direct_schedule) (simp_all add: g Cons.prems(2) [symmetric])
  moreover have "(fetch_any env ((past @ [a]) @ as))\<^sup>*\<^sup>* (map Fetched (fetched @ [x]) @ replicate (length as) Discovering, w1)
       (map Fetched ((fetched @ [x]) @ xs'), w')"
    by (rule Cons.IH [OF j]) (simp add: Cons.prems(2))
  ultimately show ?case
    by (simp add: xs list_update_append)
qed

lemma join_all_joined: "join_all (map (get_direct env) as) w = (Ready xs, w') \<Longrightarrow> joined env as w xs w'"
  using join_all_schedule [of env as w xs w' "[]" "[]"] by (simp add: joined_def)

lemma download_rounds_any: "download_rounds env r w = (Ready x, w') \<Longrightarrow> rounds_any env r w x w'"
proof (induction env r w rule: download_rounds.induct)
  case (1 env r w)
  let ?addrs = "required_addresses (e_se env) r"
  show ?case
  proof (cases "is_complete (e_se env) r")
    case True
    with 1(2) show ?thesis by (auto simp: download_rounds.simps [of env r] ok_def intro: rounds_any.complete)
  next
    case False
    with 1(2) obtain fetched w1 y w2 where
      j: "join_all (map (get_direct env) ?addrs) w = (Ready fetched, w1)" and
      s: "supply_fetched env (zip ?addrs fetched) r w1 = (Ready y, w2)"
      by (auto simp: download_rounds.simps [of env r] split: prod.splits poll.splits)
    note join = join_all_joined [OF j]
    show ?thesis
    proof (cases y)
      case (Inl e)
      with False 1(2) j s have "x = Inl e" "w' = w2" by (simp_all add: download_rounds.simps [of env r])
      with rounds_any.refused [OF False join] s Inl show ?thesis by blast
    next
      case (Inr r1)
      show ?thesis
      proof (cases "advance (e_crates env) (e_se env) r1")
        case (Inl e)
        with False 1(2) j s \<open>y = Inr r1\<close> have "x = Inl e" "w' = w2"
          by (simp_all add: download_rounds.simps [of env r] fail_def)
        with rounds_any.unresolved [OF False join _ Inl] s \<open>y = Inr r1\<close> show ?thesis by blast
      next
        case a: (Inr r2)
        with False 1(2) j s \<open>y = Inr r1\<close> have d: "download_rounds env r2 w2 = (Ready x, w')"
          by (simp add: download_rounds.simps [of env r])
        have "rounds_any env r2 w2 x w'"
          using 1(1) [OF False j [symmetric] refl s [symmetric] refl Inr a d] .
        with rounds_any.another [OF False join _ a] s Inr show ?thesis by blast
      qed
    qed
  qed
qed

text \<open>So the function \<open>download\<close> is one of the schedules.\<close>

lemma download_downloads:
  assumes "download env address_hex w = (Ready out, w')"
  shows "downloads env address_hex w out w'"
proof (cases "parse_address (e_crates env) address_hex")
  case (Inl e)
  with assms have "out = Inl e" "w' = w" by (auto simp: download_def lift_res_def await_def)
  with Inl show ?thesis by (simp add: downloads_def)
next
  case (Inr address)
  obtain y w1 where g: "get_direct env address (w\<lparr>chunks_fetched := 0\<rparr>) = (y, w1)" by force
  have start: "download env address_hex w = (case y of Pending \<Rightarrow> (Pending, w1) | Ready (Inl e) \<Rightarrow> (Ready (Inl e), w1)
      | Ready (Inr map_bytes) \<Rightarrow> await (lift_res (retrieval_begin (e_se env) address map_bytes)) (\<lambda>retrieval.
          await (download_rounds env retrieval) (\<lambda>retrieval. lift_res (finish (e_crates env) (e_se env) retrieval)))
            (w1\<lparr>chunks_fetched := chunks_fetched w1 + 1\<rparr>))"
    using Inr g by (auto simp: download_def lift_res_def await_def modify_def ok_def split: poll.splits sum.splits)
  show ?thesis
  proof (cases "\<exists>map_bytes r. y = Ready (Inr map_bytes) \<and> retrieval_begin (e_se env) address map_bytes = Inr r")
    case True
    then obtain map_bytes r where m: "y = Ready (Inr map_bytes)" "retrieval_begin (e_se env) address map_bytes = Inr r" by blast
    let ?w2 = "w1\<lparr>chunks_fetched := chunks_fetched w1 + 1\<rparr>"
    obtain z w3 where d: "download_rounds env r ?w2 = (z, w3)" by force
    then obtain x where x: "z = Ready x" "w' = w3" "out = res_bind x (finish (e_crates env) (e_se env))"
      using assms start m by (cases z) (auto simp: await_def lift_res_def split: sum.splits)
    with download_rounds_any [of env r ?w2 x w3] d have "rounds_any env r ?w2 x w'" by simp
    with Inr g m x(3) show ?thesis by (auto simp: downloads_def)
  next
    case False
    with assms start Inr g show ?thesis
      by (auto simp: downloads_def await_def lift_res_def split: poll.splits sum.splits)
  qed
qed

section \<open>Every schedule ends\<close>

text \<open>Steps still to go before the peers are known, and after.\<close>

fun discovery_left :: "fetching \<Rightarrow> nat" where
  "discovery_left Discovering = 2"
| "discovery_left (Asking i) = 1"
| "discovery_left _ = 0"

fun steps_left :: "fetching \<Rightarrow> nat" where
  "steps_left (Trying peers last_err) = 4 * length peers + 1"
| "steps_left (Dialing d peer peers) = 4 * length peers + 4"
| "steps_left (Requesting h peers) = 4 * length peers + 3"
| "steps_left (Getting h i peers) = 4 * length peers + 2"
| "steps_left _ = 0"

lemma fetch_step_progress:
  assumes "fetch_step env address f w = (f', w')" and "active f"
  shows "discovery_left f' < discovery_left f \<or> discovery_left f' = discovery_left f \<and> steps_left f' < steps_left f"
proof (cases f)
  case (Trying peers last_err)
  with assms(1) show ?thesis by (cases peers) (auto split: option.splits)
qed (use assms in \<open>auto split: prod.splits poll.splits sum.splits if_splits\<close>)

lemma sum_list_update_less:
  "i < length ks \<Longrightarrow> (k :: nat) < ks ! i \<Longrightarrow> sum_list (ks[i := k]) < sum_list ks"
proof (induction ks arbitrary: i)
  case (Cons l ks)
  then show ?case by (cases i) auto
qed simp

text \<open>The measure of a schedule, lexicographic.\<close>

definition fetches_left :: "fetching list \<Rightarrow> nat \<times> nat" where
  "fetches_left fs = (sum_list (map discovery_left fs), sum_list (map steps_left fs))"

lemma fetches_left_step:
  assumes "i < length fs" and "active (fs ! i)" and "fetch_step env a (fs ! i) w = (f, w')"
  shows "(fetches_left (fs[i := f]), fetches_left fs) \<in> less_than <*lex*> less_than"
proof -
  have same: "sum_list (map discovery_left (fs[i := f])) = sum_list (map discovery_left fs)"
    if "discovery_left f = discovery_left (fs ! i)"
    using that assms(1) list_update_id [of "map discovery_left fs" i] by (simp add: map_update)
  from fetch_step_progress [OF assms(3,2)] same show ?thesis
    using sum_list_update_less [of i "map discovery_left fs" "discovery_left f"]
      sum_list_update_less [of i "map steps_left fs" "steps_left f"] assms(1)
    by (auto simp: fetches_left_def map_update)
qed

lemma fetch_any_wf: "wf {(s', s). fetch_any env as s s'}"
proof (rule wf_subset)
  show "wf (inv_image (less_than <*lex*> less_than) (\<lambda>(fs, w :: client). fetches_left fs))"
    by (intro wf_inv_image wf_lex_prod wf_less_than)
  show "{(s', s). fetch_any env as s s'} \<subseteq> inv_image (less_than <*lex*> less_than) (\<lambda>(fs, w). fetches_left fs)"
    by (auto elim!: fetch_any.cases dest: fetches_left_step)
qed

end
