(* ===== verification/Client_Steps.thy ===== *)
theory Client_Steps
  imports Futures
begin

text \<open>
  What the operations of \<open>src/lib.rs\<close> do to the client, however they end. A relation between states that
  the single steps keep (a request on one connection, a dial, a counter, a dropped pool entry, a call of
  \<open>pay\<close>) is kept by every operation: the locales prove it once, and are interpreted on the relation that
  keeps the pool's invariant and on the one that says that nothing was paid.
\<close>

section \<open>Requests\<close>

lemma js_future_step: "js_future what p w = (r, w') \<Longrightarrow> w' = w"
  by (auto simp: js_future_def split: poll.splits)

lemma steps_relayed:
  assumes "\<And>offer. steps conn_step (relay_offer offer)"
  shows "steps conn_step (conn_connect_relayed cr relay_offer pc draw stun target)"
proof -
  have j: "steps conn_step (js_future what p)" for what and p :: "'a result poll"
    by (rule stepsI) (metis js_future_step conn.refl)
  have w: "steps conn_step (wait_for_open pc l r)" for l r
    by (simp add: wait_for_open_def Let_def)
  have e: "steps conn_step (\<lambda>relay. (establish cr draw (Some target) t, relay))" for t
    by (simp add: steps_def conn.refl)
  show ?thesis
    unfolding conn_connect_relayed_def transport_connect_via_relay_def
    by (intro conn.steps_await conn.steps_pure j w e assms)
qed

lemma steps_via_relay [simp]:
  "steps conn_step (conn_connect_via_relay cr sc pc draw stun target)"
  unfolding conn_connect_via_relay_def by (rule steps_relayed) simp

lemma steps_quote_put [simp]:
  "steps conn_step (request_quote cr sc address data_size)"
  "steps conn_step (put_chunk cr sc address data proof_bytes)"
  unfolding request_quote_def put_chunk_def Let_def
  by (intro conn.steps_await steps_requests;
      auto split: ChunkMessageBody.splits ChunkQuoteResponse.splits ChunkPutResponse.splits)+

section \<open>Relations every operation keeps\<close>

locale client_relation = state_relation R for R :: "client \<Rightarrow> client \<Rightarrow> bool" +
  fixes env :: "'m env"
  assumes requests: "conn_step (conns w ! h) c \<Longrightarrow> R w (w\<lparr>conns := (conns w)[h := c]\<rparr>)"
    and steps_connection_for [simp]: "steps R (connection_for env peer)"
    and counters [simp]: "R w (w\<lparr>chunks_fetched := n\<rparr>)" "R w (w\<lparr>dials := n\<rparr>)"
    and dropping [simp]: "R w (w\<lparr>pool := AList.delete pid (pool w)\<rparr>)"
begin

lemma steps_on_conn [simp]:
  assumes "steps conn_step f"
  shows "steps R (on_conn h f)"
  using requests stepsD [OF assms] by (auto simp: steps_def on_conn_def split: prod.splits)

lemma steps_on_bootstrap [simp]:
  assumes "steps conn_step f"
  shows "steps R (on_bootstrap f)"
  using steps_on_conn [OF assms] unfolding on_bootstrap_def steps_def by blast

lemma steps_try_peers [simp]: "steps R (try_peers env address peers last_err)"
proof (induction peers arbitrary: last_err)
  case Nil
  then show ?case by (simp add: steps_def fail_def refl)
next
  case (Cons peer peers)
  show ?case
  proof (rule stepsI)
    fix w r w' assume a: "try_peers env address (peer # peers) last_err w = (r, w')"
    obtain r1 w1 where c: "connection_for env peer w = (r1, w1)" by force
    note s1 = stepsD [OF steps_connection_for c]
    have rest: "R v w'" if "try_peers env address peers e v = (r, w')" for e v
      using stepsD [OF Cons that] .
    show "R w w'"
    proof (cases "\<exists>h. r1 = Ready (Inr h)")
      case True
      then obtain h where h: "r1 = Ready (Inr h)" by blast
      obtain r2 w2 where g: "on_conn h (get_verified (e_crates env) (e_serde env) address) w1 = (r2, w2)" by force
      have "R w1 w2" using stepsD [OF steps_on_conn g] by simp
      with s1 have "R w w2" by (rule trans)
      moreover have "w' = w2 \<or> (\<exists>e. try_peers env address peers e w2 = (r, w'))"
        using a c h g by (auto simp: ok_def split: poll.splits sum.splits)
      ultimately show ?thesis using rest trans by blast
    next
      case False
      then have "w' = w1 \<or> (\<exists>e. try_peers env address peers e w1 = (r, w'))"
        using a c by (auto split: poll.splits sum.splits)
      with s1 rest trans show ?thesis by blast
    qed
  qed
qed

lemma steps_get_direct [simp]: "steps R (get_direct env address)"
  unfolding get_direct_def by (intro steps_await) auto

lemma steps_join_all: "(\<forall>f \<in> set fs. steps R f) \<Longrightarrow> R w (snd (join_all fs w))"
proof (induction fs arbitrary: w)
  case Nil
  then show ?case by (simp add: refl)
next
  case (Cons f fs)
  obtain r w1 where f: "f w = (r, w1)" by force
  have "R w w1" using stepsD [of "R" f] f Cons.prems by simp
  moreover have "R w1 (snd (join_all fs w1))" using Cons by simp
  ultimately show ?case using f by (auto split: prod.splits intro: trans)
qed

lemma steps_supply_fetched: "supply_fetched env items r w = (x, w') \<Longrightarrow> R w w'"
proof (induction env items r w rule: supply_fetched.induct)
  case (3 env addr bytes rest r w)
  show ?case
  proof (cases "retrieval_supply (e_crates env) (e_se env) addr bytes r")
    case (Inr r1)
    with 3 have "R (w\<lparr>chunks_fetched := chunks_fetched w + 1\<rparr>) w'" by simp
    then show ?thesis using trans counters(1) by blast
  qed (use 3 in \<open>simp add: fail_def refl\<close>)
qed (simp_all add: ok_def fail_def refl)

lemma steps_download_rounds: "R w (snd (download_rounds env r w))"
proof (induction e\<equiv>env r w rule: download_rounds.induct)
  case (1 r w)
  show ?case
  proof (cases "is_complete (e_se env) r")
    case True
    then show ?thesis by (simp add: download_rounds.simps [of env r] ok_def refl)
  next
    case False
    let ?addrs = "required_addresses (e_se env) r"
    obtain x w1 where j: "join_all (map (get_direct env) ?addrs) w = (x, w1)" by force
    have s1: "R w w1"
      using steps_join_all [of "map (get_direct env) ?addrs" w] j by simp
    show ?thesis
    proof (cases x)
      case (Ready fetched)
      obtain y w2 where s: "supply_fetched env (zip ?addrs fetched) r w1 = (y, w2)" by force
      have s2: "R w w2" using trans [OF s1 steps_supply_fetched [OF s]] .
      show ?thesis
      proof (cases "\<exists>r1 r2. y = Ready (Inr r1) \<and> advance (e_crates env) (e_se env) r1 = Inr r2")
        case True
        then obtain r1 r2 where r: "y = Ready (Inr r1)" "advance (e_crates env) (e_se env) r1 = Inr r2" by blast
        have "R w2 (snd (download_rounds env r2 w2))"
          using False j Ready s r by (intro 1) auto
        with s2 have "R w (snd (download_rounds env r2 w2))" by (rule trans)
        with False j Ready s r show ?thesis by (simp add: download_rounds.simps [of env r])
      next
        case no: False
        then have "snd (download_rounds env r w) = w2"
          using False j Ready s
          by (auto simp: download_rounds.simps [of env r] fail_def split: poll.splits sum.splits)
        with s2 show ?thesis by simp
      qed
    qed (use False j s1 in \<open>simp add: download_rounds.simps [of env r]\<close>)
  qed
qed

lemma steps_modify [simp]: "(\<And>w. R w (f w)) \<Longrightarrow> steps R (modify f)"
  by (simp add: steps_def modify_def ok_def)

lemma steps_fetches [simp]:
  "steps R (download_rounds env r)"
  "steps R (download env address_hex)"
  "steps R (fetch_chunk env address_hex)"
  "steps R (closest_peers_json env address_hex)"
proof -
  show d: "steps R (download_rounds env r)" for r
    unfolding steps_def using steps_download_rounds by blast
  show "steps R (download env address_hex)"
    unfolding download_def by (intro steps_await d) auto
  show "steps R (fetch_chunk env address_hex)"
    unfolding fetch_chunk_def by (intro steps_await) auto
  show "steps R (closest_peers_json env address_hex)"
    unfolding closest_peers_json_def Let_def by (intro steps_await) auto
qed

lemma steps_relayed_fetch [simp]: "steps R (relayed_fetch env target_hex stun address_hex)"
proof -
  have "steps R (\<lambda>w. let w1 = w\<lparr>dials := Suc (dials w)\<rparr> in
       await (on_bootstrap (conn_connect_via_relay (e_crates env) (e_serde env) (e_rtc env (dials w)) (dials w) stun target))
         (\<lambda>conn w2.
            (case get_verified (e_crates env) (e_serde env) address conn of
               (Pending, _) \<Rightarrow> (Pending, w2)
             | (Ready (Inl e), _) \<Rightarrow> fail e w2
             | (Ready (Inr bytes), _) \<Rightarrow> ok (length bytes) w2)) w1)" (is "steps _ ?f") for target address
  proof (rule stepsI)
    fix w r w' assume "?f w = (r, w')"
    moreover have "steps R (await (on_bootstrap (conn_connect_via_relay (e_crates env) (e_serde env) pc d stun target))
         (\<lambda>conn w2.
            (case get_verified (e_crates env) (e_serde env) address conn of
               (Pending, _) \<Rightarrow> (Pending, w2)
             | (Ready (Inl e), _) \<Rightarrow> fail e w2
             | (Ready (Inr bytes), _) \<Rightarrow> ok (length bytes) w2)))" for pc d
      by (intro steps_await steps_on_bootstrap steps_via_relay)
        (auto simp: steps_def ok_def fail_def refl split: prod.splits poll.splits sum.splits)
    ultimately have "R (w\<lparr>dials := Suc (dials w)\<rparr>) w'"
      unfolding Let_def by (rule stepsD [rotated])
    then show "R w w'" using trans counters(2) by blast
  qed
  then show ?thesis
    unfolding relayed_fetch_def by (intro steps_await) auto
qed

lemma steps_try_quote [simp]: "steps R (try_quote env peer address data_size)"
  unfolding try_quote_def by (intro steps_await steps_connection_for steps_on_conn steps_quote_put)
    (auto intro!: steps_await)

lemma steps_quote_attempts [simp]: "steps R (quote_attempts env peer address data_size k last_err)"
proof (induction k arbitrary: last_err)
  case 0
  then show ?case by (simp add: steps_def fail_def refl)
next
  case (Suc k)
  show ?case
  proof (rule stepsI)
    fix w r w' assume a: "quote_attempts env peer address data_size (Suc k) last_err w = (r, w')"
    obtain x w1 where q: "try_quote env peer address data_size w = (x, w1)" by force
    note s1 = stepsD [OF steps_try_quote q]
    let ?w2 = "if k = 0 then w1 else w1\<lparr>pool := AList.delete (pci_peer_id peer) (pool w1)\<rparr>"
    have s2: "R w ?w2" using s1 trans [OF s1 dropping] by simp
    have "w' = w1 \<or> (\<exists>e. quote_attempts env peer address data_size k e ?w2 = (r, w'))"
      using a q by (auto simp: ok_def split: poll.splits sum.splits)
    with s1 s2 show "R w w'" using stepsD [OF Suc] trans by blast
  qed
qed

lemma steps_collect_quotes [simp]: "steps R (collect_quotes env address data_size peers quoted n)"
proof (induction peers arbitrary: quoted n)
  case Nil
  then show ?case by (simp add: steps_def ok_def refl)
next
  case (Cons peer peers)
  show ?case
  proof (rule stepsI)
    fix w r w' assume a: "collect_quotes env address data_size (peer # peers) quoted n w = (r, w')"
    obtain x w1 where q: "quote_attempts env peer address data_size QUOTE_ATTEMPTS ''no attempt'' w = (x, w1)" by force
    note s1 = stepsD [OF steps_quote_attempts q]
    obtain y w2 where c: "connection_for env peer w1 = (y, w2)" by force
    have s2: "R w w2" using trans [OF s1 stepsD [OF steps_connection_for c]] .
    have "w' = w1 \<or> w' = w2 \<or> (\<exists>quoted' n'. collect_quotes env address data_size peers quoted' n' w2 = (r, w'))"
      using a q c by (auto simp: ok_def fail_def split: poll.splits sum.splits if_splits)
    with s1 s2 show "R w w'" using stepsD [OF Cons] trans by blast
  qed
qed

lemma steps_put_attempts [simp]: "steps R (put_attempts env h address data proof_bytes k last_err)"
proof (induction k arbitrary: last_err)
  case 0
  then show ?case by (simp add: steps_def ok_def refl)
next
  case (Suc k)
  show ?case
  proof (rule stepsI)
    fix w r w' assume a: "put_attempts env h address data proof_bytes (Suc k) last_err w = (r, w')"
    obtain x w1 where q: "on_conn h (put_chunk (e_crates env) (e_serde env) address data proof_bytes) w = (x, w1)" by force
    have s1: "R w w1" using stepsD [OF steps_on_conn q] by simp
    have "w' = w1 \<or> (\<exists>e. put_attempts env h address data proof_bytes k e w1 = (r, w'))"
      using a q by (auto simp: ok_def split: poll.splits sum.splits)
    with s1 show "R w w'" using stepsD [OF Suc] trans by blast
  qed
qed

lemma steps_put_all [simp]: "steps R (put_all env address data proof_bytes quoted n last_err)"
proof (induction quoted arbitrary: n last_err)
  case Nil
  then show ?case by (simp add: steps_def ok_def refl)
next
  case (Cons peer peers)
  show ?case
  proof (rule stepsI)
    fix w r w' assume a: "put_all env address data proof_bytes (peer # peers) n last_err w = (r, w')"
    obtain x w1 where q: "put_attempts env (qp_conn peer) address data proof_bytes QUOTE_ATTEMPTS last_err w = (x, w1)" by force
    note s1 = stepsD [OF steps_put_attempts q]
    have "w' = w1 \<or> (\<exists>m e. put_all env address data proof_bytes peers m e w1 = (r, w'))"
      using a q by (auto simp: fail_def split: poll.splits sum.splits)
    with s1 show "R w w'" using stepsD [OF Cons] trans by blast
  qed
qed

end

locale paying_relation = client_relation R env for R and env :: "'m env" +
  assumes steps_call_pay [simp]: "steps R (call_pay env to calldata)"
begin

lemma steps_pay_quotes [simp]: "steps R (pay_quotes env token vault quoted)"
  unfolding pay_quotes_def Let_def by (intro steps_await steps_pure steps_call_pay)

lemma steps_store_one [simp]: "steps R (store_one env address data token vault)"
  unfolding store_one_def Let_def
  by (intro steps_await) (auto split: option.split intro!: steps_await)

lemma steps_store_items [simp]: "steps R (store_items env token vault items)"
proof (induction items)
  case Nil
  then show ?case by (simp add: steps_def ok_def refl)
next
  case (Cons item items)
  have "store_items env token vault (item # items) =
      await (store_one env (fst item) (snd item) token vault) (\<lambda>_. store_items env token vault items)"
    by (rule ext) (cases item, simp)
  with Cons show ?case by (simp add: steps_await)
qed

lemma steps_upload [simp]: "steps R (upload env data token_hex vault_hex)"
  unfolding upload_def by (intro steps_await) (auto intro!: steps_await)

end

section \<open>The pool\<close>

text \<open>
  Every connection stems from a handshake; the pool names connections, each under its own identity; and whatever the client does, the
  connections it has keep their identity and key, and the handle of the bootstrap node stays.
\<close>

definition authenticated :: "crates \<Rightarrow> NodeConnection \<Rightarrow> bool" where
  "authenticated cr c \<longleftrightarrow> (\<exists>draw expected t c0. establish cr draw expected t = Ready (Inr c0)
     \<and> peer_id c = peer_id c0 \<and> cipher c = cipher c0)"

definition client_ok :: "'m env \<Rightarrow> client \<Rightarrow> bool" where
  "client_ok env w \<longleftrightarrow> bootstrap w < length (conns w) \<and> distinct (map fst (pool w))
     \<and> (\<forall>pid h. map_of (pool w) pid = Some h \<longrightarrow> h < length (conns w) \<and> peer_id (conns w ! h) = pid)
     \<and> (\<forall>h < length (conns w). authenticated (e_crates env) (conns w ! h))"

definition client_step :: "'m env \<Rightarrow> client \<Rightarrow> client \<Rightarrow> bool" where
  "client_step env w w' \<longleftrightarrow> bootstrap w' = bootstrap w \<and> length (conns w) \<le> length (conns w')
     \<and> (\<forall>h < length (conns w). peer_id (conns w' ! h) = peer_id (conns w ! h) \<and> cipher (conns w' ! h) = cipher (conns w ! h))
     \<and> (client_ok env w \<longrightarrow> client_ok env w')"

lemma client_step_request:
  assumes "conn_step (conns w ! h) c"
  shows "client_step env w (w\<lparr>conns := (conns w)[h := c]\<rparr>)"
proof -
  have "peer_id c = peer_id (conns w ! h)" "cipher c = cipher (conns w ! h)"
    using assms by (simp_all add: conn_step_def)
  then have same: "peer_id ((conns w)[h := c] ! k) = peer_id (conns w ! k) \<and> cipher ((conns w)[h := c] ! k) = cipher (conns w ! k)"
    if "k < length (conns w)" for k
    using that by (cases "k = h") simp_all
  have auth: "authenticated (e_crates env) ((conns w)[h := c] ! k)"
    if "k < length (conns w)" "\<forall>k < length (conns w). authenticated (e_crates env) (conns w ! k)" for k
    using that same [of k] by (auto simp: authenticated_def)
  have "client_ok env (w\<lparr>conns := (conns w)[h := c]\<rparr>)" if "client_ok env w"
    using that same auth unfolding client_ok_def by simp
  then show ?thesis using same by (simp add: client_step_def)
qed

lemma conn_connect_establish:
  "conn_connect cr pc draw ip port fp expected = Ready (Inr c) \<Longrightarrow> \<exists>t. establish cr draw expected t = Ready (Inr c)"
  by (auto simp: conn_connect_def split: prod.splits poll.splits sum.splits)

lemma conn_connect_peer:
  "conn_connect cr pc draw ip port fp (Some pid) = Ready (Inr c) \<Longrightarrow> peer_id c = pid \<and> authenticated cr c"
  using conn_connect_establish [of cr pc draw ip port fp "Some pid" c] establish_peer
  unfolding authenticated_def by fastforce

lemma conn_connect_relayed_Inr:
  assumes "conn_connect_relayed cr relay_offer pc draw stun target relay = (Ready (Inr c), relay')"
  shows "authenticated cr c \<and> peer_id c = target"
proof -
  obtain t where "establish cr draw (Some target) t = Ready (Inr c)"
    using assms by (auto simp: conn_connect_relayed_def res_iff)
  with establish_peer [OF this] show ?thesis unfolding authenticated_def by blast
qed

lemmas conn_connect_via_relay_Inr =
  conn_connect_relayed_Inr [where relay_offer = "signal_relay cr sc target" and cr = cr and target = target for cr sc target,
    folded conn_connect_via_relay_def]

lemma client_steps_connection_for: "steps (client_step env) (connection_for env peer)"
proof (rule stepsI)
  fix w r w' assume a: "connection_for env peer w = (r, w')"
  let ?con = "conn_connect (e_crates env) (e_rtc env (dials w)) (dials w) (pci_ip peer) (pci_port peer)
                  (hex_encode (e_crates env) (pci_cert_hash peer)) (Some (pci_peer_id peer))"
  show "client_step env w w'"
  proof (cases "map_of (pool w) (pci_peer_id peer) = None \<and> (\<exists>c. ?con = Ready (Inr c))")
    case True
    then obtain c where c: "?con = Ready (Inr c)" by blast
    have w': "w' = w\<lparr>dials := Suc (dials w), conns := conns w @ [c],
        pool := AList.update (pci_peer_id peer) (length (conns w)) (pool w)\<rparr>"
      using a True c by (simp add: connection_for_def Let_def ok_def)
    show ?thesis
      using conn_connect_peer [OF c] unfolding w'
      by (auto simp: client_step_def client_ok_def nth_append update_conv' distinct_update less_Suc_eq split: if_splits)
  next
    case False
    with a have "w' = w \<or> w' = w\<lparr>dials := Suc (dials w)\<rparr>"
      by (auto simp: connection_for_def ok_def fail_def Let_def split: option.splits poll.splits sum.splits)
    then show ?thesis by (auto simp: client_step_def client_ok_def)
  qed
qed

lemma connection_for_Inr:
  assumes "connection_for env peer w = (Ready (Inr h), w')" and "client_ok env w"
  shows "h < length (conns w') \<and> peer_id (conns w' ! h) = pci_peer_id peer \<and> map_of (pool w') (pci_peer_id peer) = Some h"
  using assms
  by (auto simp: connection_for_def client_ok_def ok_def fail_def Let_def update_conv' conn_connect_peer
      split: option.splits poll.splits sum.splits)

lemma client_step_fields [simp]:
  "client_step env w (w\<lparr>chunks_fetched := n\<rparr>)"
  "client_step env w (w\<lparr>dials := n\<rparr>)"
  "client_step env w (w\<lparr>pay_calls := ps\<rparr>)"
  "client_step env w (w\<lparr>pool := AList.delete pid (pool w)\<rparr>)"
  by (auto simp: client_step_def client_ok_def delete_conv' distinct_delete split: if_splits)

lemma client_steps_call_pay: "steps (client_step env) (call_pay env to calldata)"
proof (rule stepsI)
  fix w r w' assume "call_pay env to calldata w = (r, w')"
  then have "w' = w\<lparr>pay_calls := pay_calls w @ [(to, calldata)]\<rparr>"
    by (auto simp: call_pay_def Let_def ok_def fail_def split: pay_reply.splits js_value.splits)
  then show "client_step env w w'" by simp
qed

interpretation client: paying_relation "client_step env" env for env
  by unfold_locales
    (simp_all add: client_step_request client_steps_connection_for client_steps_call_pay, auto simp: client_step_def)

text \<open>Of all the steps only the payment callback pays.\<close>

definition unpaid :: "client \<Rightarrow> client \<Rightarrow> bool" where
  "unpaid w w' \<longleftrightarrow> pay_calls w' = pay_calls w"

interpretation unpaid: client_relation unpaid env for env
proof
  show "steps unpaid (connection_for env peer)" for peer
    by (auto simp: steps_def connection_for_def unpaid_def ok_def fail_def Let_def split: option.splits poll.splits sum.splits)
qed (simp_all add: unpaid_def)

section \<open>Schedules\<close>

text \<open>Every step of every future keeps the invariant, and so do whole downloads in any schedule.\<close>

lemma client_step_dialled:
  assumes "conn_connect (e_crates env) pc k ip port fp (Some pid) = Ready (Inr c)"
  shows "client_step env w (w\<lparr>conns := conns w @ [c], pool := AList.update pid (length (conns w)) (pool w)\<rparr>)"
  using conn_connect_peer [OF assms]
  by (auto simp: client_step_def client_ok_def nth_append update_conv' distinct_update less_Suc_eq split: if_splits)

lemma fetch_step_client:
  assumes "fetch_step env address f w = (f', w')"
  shows "client_step env w w'"
proof (cases f)
  case (Asking i)
  obtain y w1 where y: "on_bootstrap (closest_peers_as (e_crates env) (e_serde env) i address) w = (y, w1)" by force
  have "client_step env w w1" using stepsD [OF client.steps_on_bootstrap y] by simp
  moreover have "w' = w1" using assms Asking y by (auto split: poll.splits sum.splits)
  ultimately show ?thesis by simp
next
  case (Trying peers last_err)
  with assms have "w' = w \<or> w' = w\<lparr>dials := Suc (dials w)\<rparr>" by (cases peers) (auto split: option.splits)
  then show ?thesis using client.refl by auto
next
  case (Dialing d peer peers)
  with assms show ?thesis
    using client.refl client_step_dialled by (auto split: poll.splits sum.splits)
next
  case (Getting h i peers)
  obtain y w1 where y: "on_conn h (get_verified_as (e_crates env) (e_serde env) i address) w = (y, w1)" by force
  have "client_step env w w1" using stepsD [OF client.steps_on_conn y] by simp
  moreover have "w' = w1" using assms Getting y by (auto split: poll.splits sum.splits)
  ultimately show ?thesis by simp
qed (use assms client.refl in auto)

lemma fetch_any_client: "(fetch_any env as)\<^sup>*\<^sup>* s s' \<Longrightarrow> client_step env (snd s) (snd s')"
proof (induction rule: rtranclp_induct)
  case base
  show ?case by (rule client.refl)
next
  case (step s1 s2)
  from step(2) have "client_step env (snd s1) (snd s2)" by cases (simp add: fetch_step_client)
  with step(3) show ?case by (rule client.trans)
qed

lemma joined_client: "joined env as w fetched w' \<Longrightarrow> client_step env w w'"
  using fetch_any_client unfolding joined_def by fastforce

lemma rounds_any_client: "rounds_any env r w x w' \<Longrightarrow> client_step env w w'"
proof (induction rule: rounds_any.induct)
  case (complete r w)
  show ?case by (rule client.refl)
next
  case (refused r w fetched w1 e w2)
  show ?case by (rule client.trans [OF joined_client [OF refused(2)] client.steps_supply_fetched [OF refused(3)]])
next
  case (unresolved r w fetched w1 r1 w2 e)
  show ?case by (rule client.trans [OF joined_client [OF unresolved(2)] client.steps_supply_fetched [OF unresolved(3)]])
next
  case (another r w fetched w1 r1 w2 r2 x w3)
  from client.trans [OF joined_client [OF another(2)] client.steps_supply_fetched [OF another(3)]] another(6)
  show ?case by (rule client.trans)
qed

lemma downloads_client:
  assumes "downloads env address_hex w out w'"
  shows "client_step env w w'"
proof (cases "parse_address (e_crates env) address_hex")
  case (Inl e)
  with assms show ?thesis using client.refl by (simp add: downloads_def)
next
  case (Inr address)
  obtain y w1 where g: "get_direct env address (w\<lparr>chunks_fetched := 0\<rparr>) = (y, w1)" by force
  have s1: "client_step env w w1" using client.trans [OF client.counters(1) stepsD [OF client.steps_get_direct g]] .
  have "w' = w1 \<or> w' = w1\<lparr>chunks_fetched := chunks_fetched w1 + 1\<rparr>
      \<or> (\<exists>r x. rounds_any env r (w1\<lparr>chunks_fetched := chunks_fetched w1 + 1\<rparr>) x w')"
    using assms Inr g by (auto simp: downloads_def Let_def split: poll.splits sum.splits)
  moreover have "client_step env w (w1\<lparr>chunks_fetched := k\<rparr>)" for k using client.trans [OF s1 client.counters(1)] .
  ultimately show ?thesis using s1 client.trans rounds_any_client by blast
qed

section \<open>Runs\<close>

text \<open>
  The life of a client: connected, then any calls of the page, with any outcome; downloads in any schedule,
  also up to any point of a round, as a future that hangs may leave it.
\<close>

inductive client_run :: "'m env \<Rightarrow> client \<Rightarrow> bool" for env where
  connected: "client_connect env ip port cert_hash_hex peer_id_hex = Ready (Inr w) \<Longrightarrow> client_run env w"
| downloaded: "client_run env w \<Longrightarrow> download env address_hex w = (r, w') \<Longrightarrow> client_run env w'"
| scheduled: "client_run env w \<Longrightarrow> downloads env address_hex w out w' \<Longrightarrow> client_run env w'"
| interrupted: "client_run env w \<Longrightarrow> (fetch_any env as)\<^sup>*\<^sup>* (replicate (length as) Discovering, w) (fs, w') \<Longrightarrow>
     client_run env w'"
| fetched: "client_run env w \<Longrightarrow> fetch_chunk env address_hex w = (r, w') \<Longrightarrow> client_run env w'"
| uploaded: "client_run env w \<Longrightarrow> upload env data token_hex vault_hex w = (ru, w') \<Longrightarrow> client_run env w'"
| relayed: "client_run env w \<Longrightarrow> relayed_fetch env target_hex stun address_hex w = (rn, w') \<Longrightarrow> client_run env w'"
| listed: "client_run env w \<Longrightarrow> closest_peers_json env address_hex w = (rs, w') \<Longrightarrow> client_run env w'"

lemma client_connect_ok:
  assumes "client_connect env ip port cert_hash_hex peer_id_hex = Ready (Inr w)"
  shows "client_ok env w"
proof -
  obtain expected c where "conn_connect (e_crates env) (e_rtc env 0) 0 ip port cert_hash_hex expected = Ready (Inr c)"
    and w: "w = \<lparr>conns = [c], bootstrap = 0, pool = AList.update (peer_id c) 0 [],
               chunks_fetched = 0, dials = 1, pay_calls = []\<rparr>"
    using assms by (auto simp: client_connect_def split: sum.splits poll.splits)
  then obtain t where "establish (e_crates env) 0 expected t = Ready (Inr c)"
    using conn_connect_establish by blast
  then have "authenticated (e_crates env) c" unfolding authenticated_def by blast
  then show ?thesis by (simp add: w client_ok_def)
qed

lemma client_run_ok: "client_run env w \<Longrightarrow> client_ok env w"
proof (induction rule: client_run.induct)
  case (connected ip port cert_hash_hex peer_id_hex w)
  then show ?case by (rule client_connect_ok)
next
  case (downloaded w address_hex r w')
  then show ?case using stepsD [OF client.steps_fetches(2)] by (metis client_step_def)
next
  case (scheduled w address_hex out w')
  then show ?case using downloads_client by (metis client_step_def)
next
  case (interrupted w as fs w')
  then show ?case using fetch_any_client [OF interrupted(2)] by (simp add: client_step_def)
next
  case (fetched w address_hex r w')
  then show ?case using stepsD [OF client.steps_fetches(3)] by (metis client_step_def)
next
  case (uploaded w data token_hex vault_hex ru w')
  then show ?case using stepsD [OF client.steps_upload] by (metis client_step_def)
next
  case (relayed w target_hex stun address_hex rn w')
  then show ?case using stepsD [OF client.steps_relayed_fetch] by (metis client_step_def)
next
  case (listed w address_hex rs w')
  then show ?case using stepsD [OF client.steps_fetches(4)] by (metis client_step_def)
qed

end
