(* ===== verification/Fetch.thy ===== *)
theory Fetch
  imports Client_Steps
begin

text \<open>
  Getting data, whatever the network does: the lemmas about \<open>get_direct\<close> and \<open>download\<close> of \<open>src/lib.rs\<close>
  that hold with no assumption on any node, and \<open>denotes\<close>, which says what an address stands for.
\<close>

section \<open>Fetching\<close>

lemma on_conn_Inr:
  "on_conn h f w = (Ready (Inr x), w') \<longleftrightarrow>
     (\<exists>c. f (conns w ! h) = (Ready (Inr x), c) \<and> w' = w\<lparr>conns := (conns w)[h := c]\<rparr>)"
  by (auto simp: on_conn_def split: prod.splits)

lemma try_peers_hash:
  "try_peers env address peers last_err w = (Ready (Inr bytes), w') \<Longrightarrow> blake3_hash (e_crates env) bytes = address"
proof (induction env address peers last_err w rule: try_peers.induct)
  case (1 env address last_err w)
  then show ?case by (simp add: fail_def)
next
  case (2 env address peer peers last_err w)
  from 2(3) consider (conn) e w1 where "connection_for env peer w = (Ready (Inl e), w1)"
      "try_peers env address peers e w1 = (Ready (Inr bytes), w')"
    | (got) h w1 w2 where "connection_for env peer w = (Ready (Inr h), w1)"
      "on_conn h (get_verified (e_crates env) (e_serde env) address) w1 = (Ready (Inr bytes), w2)"
    | (err) h w1 e w2 where "connection_for env peer w = (Ready (Inr h), w1)"
      "on_conn h (get_verified (e_crates env) (e_serde env) address) w1 = (Ready (Inl e), w2)"
      "try_peers env address peers e w2 = (Ready (Inr bytes), w')"
    by (auto simp: ok_def split: prod.splits poll.splits sum.splits)
  then show ?case
  proof cases
    case conn
    with 2(1) show ?thesis by simp
  next
    case got
    then show ?thesis by (auto simp: on_conn_Inr get_verified_Inr)
  next
    case err
    with 2(2) show ?thesis by simp
  qed
qed

lemma get_direct_hash:
  "get_direct env address w = (Ready (Inr bytes), w') \<Longrightarrow> blake3_hash (e_crates env) bytes = address"
  by (auto simp: get_direct_def res_iff try_peers_hash split: if_splits)

lemma parse_address_length: "parse_address cr text = Inr a \<Longrightarrow> length a = 32"
  by (auto simp: parse_address_def sized_def res_iff split: if_splits)

section \<open>Downloading\<close>

text \<open>
  What an address denotes: the decryption, under the root of the data map whose serialization hashes to
  the address, of chunks that hash to the entries of that root. Resolving the root of a child map may consult
  verified wrapper chunks.
\<close>

definition denotes :: "crates \<Rightarrow> 'm self_encryption \<Rightarrow> byte list \<Rightarrow> byte list \<Rightarrow> bool" where
  "denotes cr se address out \<longleftrightarrow> (\<exists>B. denoted_by cr se B address out)"

lemma finish_denotes:
  assumes "retrieving cr se address r" and "verify_correct cr se" and "root_correct se" and "finish cr se r = Inr out"
  shows "denotes cr se address out"
  using finish_verified [OF assms] by (simp add: denotes_def)

lemma supply_fetched_retrieving:
  "supply_fetched env items r w = (Ready (Inr r'), w') \<Longrightarrow> retrieving (e_crates env) (e_se env) a r \<Longrightarrow>
     retrieving (e_crates env) (e_se env) a r'"
proof (induction env items r w rule: supply_fetched.induct)
  case (3 env addr bytes rest r w)
  then obtain r1 where r1: "retrieval_supply (e_crates env) (e_se env) addr bytes r = Inr r1"
    by (auto simp: fail_def split: sum.splits)
  with 3 show ?case using retrieving.supplied [OF 3(3) r1] by simp
qed (auto simp: ok_def fail_def)

lemma download_rounds_retrieving:
  "download_rounds env r w = (Ready (Inr r'), w') \<Longrightarrow> retrieving (e_crates env) (e_se env) a r \<Longrightarrow>
     retrieving (e_crates env) (e_se env) a r'"
proof (induction env r w rule: download_rounds.induct)
  case (1 env r w)
  show ?case
  proof (cases "is_complete (e_se env) r")
    case True
    with 1(2,3) show ?thesis by (simp add: download_rounds.simps [of env r] ok_def)
  next
    case False
    from False 1(2) obtain fetched w1 r1 w2 r2 where
      j: "join_all (map (get_direct env) (required_addresses (e_se env) r)) w = (Ready fetched, w1)" and
      s: "supply_fetched env (zip (required_addresses (e_se env) r) fetched) r w1 = (Ready (Inr r1), w2)" and
      a: "advance (e_crates env) (e_se env) r1 = Inr r2" and d: "download_rounds env r2 w2 = (Ready (Inr r'), w')"
      by (auto simp: download_rounds.simps [of env r] fail_def split: prod.splits poll.splits sum.splits)
    note r2 = retrieving.advanced [OF supply_fetched_retrieving [OF s 1(3)] a]
    show ?thesis using 1(1) [OF False j [symmetric] refl s [symmetric] refl refl a d r2] .
  qed
qed

lemma download_denotes:
  assumes "verify_correct (e_crates env) (e_se env)" and "root_correct (e_se env)"
    and "download env address_hex w = (Ready (Inr out), w')"
  shows "\<exists>address. parse_address (e_crates env) address_hex = Inr address
     \<and> denotes (e_crates env) (e_se env) address out"
proof -
  obtain address map_bytes r0 r w0 w1 where p: "parse_address (e_crates env) address_hex = Inr address"
    and b: "retrieval_begin (e_se env) address map_bytes = Inr r0"
    and d: "download_rounds env r0 w0 = (Ready (Inr r), w1)" and f: "finish (e_crates env) (e_se env) r = Inr out"
    using assms(3) unfolding download_def by (auto simp: res_iff modify_def)
  have "retrieving (e_crates env) (e_se env) address r"
    by (rule download_rounds_retrieving [OF d retrieving.begins [OF b]])
  with finish_denotes [OF _ assms(1,2) f] p show ?thesis by blast
qed

end
