(* ===== verification/Node.thy ===== *)
theory Node
  imports Conn
begin

text \<open>
  The other end of a connection. An honest node is specified by the frames it sends back for the frames
  it is sent: a \<open>ServerAccept\<close> for the hello, and for every sealed request the sealed answer of its
  service. This is an abstract specification, not code of the repository; the lemmas say that the client's
  side of \<open>src/conn.rs\<close>, over a channel to such a node that may cut its bytes into messages at will, is
  the service itself: \<open>round_trip\<close> returns what the service answers, and stays ready for the next request.
\<close>

section \<open>An honest node\<close>

text \<open>A session as the node has it: what it accepted the hello with, the key, and its service.\<close>

record node_session =
  ns_ct :: "byte list"
  ns_pk :: "byte list"
  ns_sig :: "byte list"
  ns_key :: "byte list"
  ns_serve :: "byte \<Rightarrow> byte list \<Rightarrow> byte list"

text \<open>The answer to one sealed request: same sequence number, same tag, other direction.\<close>

definition node_reply :: "crates \<Rightarrow> node_session \<Rightarrow> byte list \<Rightarrow> byte list option" where
  "node_reply cr s frame =
     (if length frame < 5 \<or> hd frame \<noteq> 3 then None
      else
        let seq = u32_from_be (take 4 (drop 1 frame)) in
        (case aead_decrypt cr (ns_key s) (build_nonce seq ClientToServer) (drop 5 frame) of
           Some (tag # req) \<Rightarrow>
             map_option (node_envelope seq)
               (aead_encrypt cr (ns_key s) (build_nonce seq ServerToClient) (tag # ns_serve s tag req))
         | _ \<Rightarrow> None))"

definition node_output :: "crates \<Rightarrow> node_session \<Rightarrow> byte list list \<Rightarrow> byte list list" where
  "node_output cr s frames =
     (case frames of [] \<Rightarrow> []
      | hello # requests \<Rightarrow> server_accept (ns_ct s) (ns_pk s) (ns_sig s) # List.map_filter (node_reply cr s) requests)"

text \<open>
  A channel to the node: whatever the cutting of the frames sent into messages, its output arrives in
  order, each frame cut into messages in some way.
\<close>

definition honest_link :: "crates \<Rightarrow> node_session \<Rightarrow> link \<Rightarrow> bool" where
  "honest_link cr s l \<longleftrightarrow> send_fault l = (\<lambda>_. None)
     \<and> (\<exists>cut. (\<forall>x. concat (cut x) = x)
          \<and> (\<forall>frames ms. list_all frame_payload frames \<longrightarrow> concat ms = concat (map encode_frame frames) \<longrightarrow>
               List.map_filter on_message (delivers l ms)
                 = concat (map (\<lambda>f. cut (encode_frame f)) (node_output cr s frames))))"

text \<open>
  ChaCha20-Poly1305 seals every plaintext of less than 2^32 bytes under a 12-byte nonce, adding at most
  16 bytes.
\<close>

definition aead_seals :: "crates \<Rightarrow> bool" where
  "aead_seals cr \<longleftrightarrow> (\<forall>k n p. length n = 12 \<longrightarrow> length p < 2 ^ 32 \<longrightarrow>
     (\<exists>c. aead_encrypt cr k n p = Some c \<and> length c \<le> length p + 16))"

lemma aead_sealsD:
  assumes "aead_seals cr" and "length p \<le> MAX_WIRE_MESSAGE_SIZE"
  obtains c where "aead_encrypt cr k (build_nonce seq d) (b # p) = Some c" "length c \<le> length p + 17"
proof -
  have "length (b # p) < 2 ^ 32" using assms(2) by (simp add: MAX_WIRE_MESSAGE_SIZE_def)
  with assms(1) length_build_nonce obtain c where "aead_encrypt cr k (build_nonce seq d) (b # p) = Some c"
    "length c \<le> length (b # p) + 16"
    unfolding aead_seals_def by blast
  then show ?thesis by (intro that [of c]) simp_all
qed

lemma test_crates_seals: "aead_seals test_crates"
  by (simp add: aead_seals_def)

lemma map_filter_append: "List.map_filter f (xs @ ys) = List.map_filter f xs @ List.map_filter f ys"
  by (simp add: List.map_filter_def)

lemma node_reply_request:
  assumes "aead_correct cr"
    and "aead_encrypt cr (ns_key s) (build_nonce seq ClientToServer) (tag # req) = Some sealed"
    and "aead_encrypt cr (ns_key s) (build_nonce seq ServerToClient) (tag # ns_serve s tag req) = Some ct"
  shows "node_reply cr s ([3] @ u32_to_be seq @ sealed) = Some (node_envelope seq ct)"
proof -
  have "aead_decrypt cr (ns_key s) (build_nonce seq ClientToServer) sealed = Some (tag # req)"
    using assms(1,2) by (auto simp: aead_correct_def)
  with assms(3) show ?thesis by (simp add: node_reply_def Let_def)
qed

section \<open>Connections in step with the node\<close>

text \<open>
  \<open>synced cr s n c\<close>: connection \<open>c\<close> is the client's end of session \<open>s\<close>: whole frames have been sent,
  every answer has been taken, the lock is free, and there is sequence space for \<open>n\<close> more requests.
\<close>

definition synced :: "crates \<Rightarrow> node_session \<Rightarrow> nat \<Rightarrow> NodeConnection \<Rightarrow> bool" where
  "synced cr s n c \<longleftrightarrow> honest_link cr s (link (transport c)) \<and> cipher_key (cipher c) = ns_key s
     \<and> \<not> request_lock c \<and> unat (next_seq c) + n \<le> unat MAX_SEQ
     \<and> pending_bytes (transport c) = [] \<and> taken (transport c) \<le> length (receiver (transport c))
     \<and> (\<exists>frames. frames \<noteq> [] \<and> list_all frame_payload frames
          \<and> concat (sent (transport c)) = concat (map encode_frame frames))"

lemma synced_mono: "synced cr s n c \<Longrightarrow> m \<le> n \<Longrightarrow> synced cr s m c"
  by (auto simp: synced_def)

lemma recv_frame_taken:
  assumes "recv_frame t = (r, t')" and "taken t \<le> length (receiver t)"
  shows "taken t' \<le> length (receiver t')"
  using assms by (auto simp: recv_frame_def untaken_def receiver_def split: prod.splits)

lemma after_send_sel [simp]:
  "link (after_send p t) = link t" "taken (after_send p t) = taken t" "frame_buf (after_send p t) = frame_buf t"
  "concat (sent (after_send p t)) = concat (sent t) @ encode_frame p"
  by (simp_all add: after_send_def Let_def concat_split_messages)

text \<open>What a sent frame adds to the bytes to come is the node's output for it.\<close>

lemma pending_after_send:
  assumes "honest_link cr s (link t)" and "taken t \<le> length (receiver t)"
    and "list_all frame_payload (frames @ [p])" and "concat (sent t) = concat (map encode_frame frames)"
    and "node_output cr s (frames @ [p]) = node_output cr s frames @ new"
  shows "pending_bytes (after_send p t) = pending_bytes t @ concat (map encode_frame new)
     \<and> taken (after_send p t) \<le> length (receiver (after_send p t))"
proof -
  obtain cut where cut: "\<And>x. concat (cut x) = x" and out: "\<And>frames ms. list_all frame_payload frames \<Longrightarrow>
      concat ms = concat (map encode_frame frames) \<Longrightarrow>
      List.map_filter on_message (delivers (link t) ms) = concat (map (\<lambda>f. cut (encode_frame f)) (node_output cr s frames))"
    using assms(1) unfolding honest_link_def by blast
  have r: "receiver t = concat (map (\<lambda>f. cut (encode_frame f)) (node_output cr s frames))"
    unfolding receiver_def using assms(3,4) by (intro out) simp_all
  have r': "receiver (after_send p t) = receiver t @ concat (map (\<lambda>f. cut (encode_frame f)) new)"
    unfolding receiver_def [of "after_send p t"] after_send_sel r
    using assms(3,4) out [of "frames @ [p]" "sent (after_send p t)"] by (simp add: assms(5))
  have c: "concat (concat (map (\<lambda>f. cut (encode_frame f)) fs)) = concat (map encode_frame fs)" for fs
    by (induction fs) (simp_all add: cut)
  show ?thesis using assms(2) by (simp add: pending_bytes_def untaken_def r' c)
qed

lemma round_trip_synced:
  assumes "aead_correct cr" and "aead_seals cr" and "synced cr s (Suc n) c"
    and "length req \<le> MAX_WIRE_MESSAGE_SIZE" and "length (ns_serve s tag req) \<le> MAX_WIRE_MESSAGE_SIZE"
  shows "\<exists>c'. round_trip cr tag req c = (Ready (Inr (ns_serve s tag req)), c') \<and> synced cr s n c'
     \<and> peer_id c' = peer_id c"
proof -
  let ?t = "transport c" and ?seq = "next_seq c"
  note sy = assms(3) [unfolded synced_def]
  obtain frames where fr: "frames \<noteq> []" "list_all frame_payload frames"
    "concat (sent ?t) = concat (map encode_frame frames)" using sy by blast
  have seq: "?seq < MAX_SEQ" using sy by (simp add: word_less_nat_alt)
  obtain sealed where sealed: "aead_encrypt cr (ns_key s) (build_nonce ?seq ClientToServer) (tag # req) = Some sealed"
    "length sealed \<le> length req + 17"
    using aead_sealsD [OF assms(2,4)] .
  obtain ct where ct: "aead_encrypt cr (ns_key s) (build_nonce ?seq ServerToClient) (tag # ns_serve s tag req) = Some ct"
    "length ct \<le> length (ns_serve s tag req) + 17"
    using aead_sealsD [OF assms(2,5)] .
  let ?p = "[3] @ u32_to_be ?seq @ sealed" and ?e = "node_envelope ?seq ct"
  have pay: "frame_payload ?p" "frame_payload ?e"
    using assms(4,5) sealed(2) ct(2) by (simp_all add: frame_payload_def node_envelope_def MAX_FRAME_SIZE_def)
  have reply: "node_output cr s (frames @ [?p]) = node_output cr s frames @ [?e]"
    using fr(1) node_reply_request [OF assms(1) sealed(1) ct(1)]
    by (cases frames) (simp_all add: node_output_def map_filter_append)
  have out: "pending_bytes (after_send ?p ?t) = encode_frame ?e \<and> taken (after_send ?p ?t) \<le> length (receiver (after_send ?p ?t))"
    using pending_after_send [OF _ _ _ fr(3) reply] sy fr(2) pay(1) by simp
  obtain t2 where t2: "recv_frame (after_send ?p ?t) = (Ready (Inr ?e), t2)" "pending_bytes t2 = []"
    using recv_frame_iff(2) [OF pay(2), of "after_send ?p ?t" "[]"] out by auto
  note keeps = recv_frame_parse(2,3) [OF t2(1)] recv_frame_taken [OF t2(1)]
  have "faultless ?t" using sy by (simp add: faultless_def honest_link_def)
  then have "round_trip cr tag req c = (Ready (Inr (ns_serve s tag req)), c\<lparr>transport := t2, next_seq := ?seq + 1\<rparr>)"
    unfolding round_trip_Inr open_iff
    using sy seq t2(1) sealed(1) ct(1) assms(1) send_frame_ok [of ?t ?p]
    by (auto simp: seal_request_def aead_correct_def)
  moreover have "synced cr s n (c\<lparr>transport := t2, next_seq := ?seq + 1\<rparr>)"
    unfolding synced_def
    using sy out t2(2) keeps u32_less_add1 [OF seq] fr pay(1)
    by (auto intro!: exI [of _ "frames @ [?p]"])
  ultimately show ?thesis by simp
qed


section \<open>The handshake\<close>

text \<open>The node's side of the handshake is sound for the client's key draw.\<close>

definition accepts_draw :: "crates \<Rightarrow> node_session \<Rightarrow> nat \<Rightarrow> bool" where
  "accepts_draw cr s draw \<longleftrightarrow> accept_sizes (ns_ct s) (ns_pk s) (ns_sig s) \<and> dsa_pk_ok cr (ns_pk s) \<and> kem_ct_ok cr (ns_ct s)
     \<and> (\<exists>ek dk ss. kem_try_keygen cr draw = Inr (ek, dk)
          \<and> dsa_verify cr (ns_pk s) (auth_message ek (ns_ct s)) (ns_sig s) []
          \<and> kem_try_decaps cr dk (ns_ct s) = Some ss \<and> ns_key s = cipher_key (from_shared_secret cr ss))"

lemma establish_synced:
  assumes "kem_correct cr" and "honest_link cr s l" and "accepts_draw cr s draw"
    and "expected \<in> {None, Some (blake3_hash cr (ns_pk s))}" and "n < unat MAX_SEQ"
  shows "\<exists>c. establish cr draw expected (from_open l) = Ready (Inr c) \<and> peer_id c = blake3_hash cr (ns_pk s)
     \<and> synced cr s n c"
proof -
  obtain ek dk ss where k: "kem_try_keygen cr draw = Inr (ek, dk)"
    "dsa_verify cr (ns_pk s) (auth_message ek (ns_ct s)) (ns_sig s) []"
    "kem_try_decaps cr dk (ns_ct s) = Some ss" "ns_key s = cipher_key (from_shared_secret cr ss)"
    and sz: "accept_sizes (ns_ct s) (ns_pk s) (ns_sig s)" and oks: "dsa_pk_ok cr (ns_pk s)" "kem_ct_ok cr (ns_ct s)"
    using assms(3) unfolding accepts_draw_def by blast
  let ?t = "from_open l" and ?hello = "[1] @ u16_to_be PQC_VERSION @ ek"
  let ?accept = "server_accept (ns_ct s) (ns_pk s) (ns_sig s)"
  have ek: "length ek = 1184" using assms(1) k(1) unfolding kem_correct_def by blast
  have pay: "frame_payload ?hello" "frame_payload ?accept"
    using ek sz
    by (auto simp: frame_payload_def MAX_FRAME_SIZE_def MAX_WIRE_MESSAGE_SIZE_def server_accept_def
        accept_sizes_def tunnel_sizes)
  have link: "link ?t = l" "sent ?t = []" "taken ?t = 0" "frame_buf ?t = FrameBuf_new" by (simp_all add: from_open_def)
  have none: "receiver ?t = []"
    using assms(2) by (fastforce simp: honest_link_def receiver_def link node_output_def dest: spec [of _ "[]"])
  have "pending_bytes (after_send ?hello ?t) = pending_bytes ?t @ concat (map encode_frame [?accept])
      \<and> taken (after_send ?hello ?t) \<le> length (receiver (after_send ?hello ?t))"
    using assms(2) pay(1)
    by (intro pending_after_send [of cr s _ "[]"]) (simp_all add: link node_output_def map_filter_simps)
  then have out: "pending_bytes (after_send ?hello ?t) = encode_frame ?accept"
    "taken (after_send ?hello ?t) \<le> length (receiver (after_send ?hello ?t))"
    by (simp_all add: pending_bytes_def untaken_def none link FrameBuf_new_def)
  obtain t2 where t2: "recv_frame (after_send ?hello ?t) = (Ready (Inr ?accept), t2)" "pending_bytes t2 = []"
    using recv_frame_iff(2) [OF pay(2), of "after_send ?hello ?t" "[]"] out by auto
  note keeps = recv_frame_parse(2,3) [OF t2(1)] recv_frame_taken [OF t2(1) out(2)]
  let ?c = "\<lparr>transport = t2, cipher = from_shared_secret cr ss, peer_id = blake3_hash cr (ns_pk s), next_seq = 1,
      request_lock = False\<rparr>"
  have "faultless ?t" using assms(2) by (simp add: faultless_def honest_link_def link)
  then have "establish cr draw expected ?t = Ready (Inr ?c)"
    unfolding establish_Inr start_Inr finish_iff
    using k(1-3) sz oks assms(4) t2(1) send_frame_ok [of ?t ?hello]
    by (intro exI conjI) (auto intro!: exI [of _ "[]"])
  moreover have "synced cr s n ?c"
    using assms(2,5) k(4) keeps t2(2) pay(1)
    by (auto simp: synced_def link MAX_SEQ_def intro!: exI [of _ "[?hello]"])
  ultimately show ?thesis by auto
qed


section \<open>Services\<close>

text \<open>The service answers a message by a message, both of a size the protocol allows.\<close>

definition answers_chunk :: "serde_crates \<Rightarrow> node_session \<Rightarrow> ChunkMessage \<Rightarrow> ChunkMessage \<Rightarrow> bool" where
  "answers_chunk sc s request response \<longleftrightarrow>
     (\<exists>req. chunk_encode (postcard_to_bytes sc) request = Inr req \<and> length req \<le> MAX_WIRE_MESSAGE_SIZE
        \<and> chunk_encode (postcard_to_bytes sc) response = Inr (ns_serve s PROTO_CHUNK req)
        \<and> length (ns_serve s PROTO_CHUNK req) \<le> MAX_WIRE_MESSAGE_SIZE \<and> wf_ChunkMessage response)"

definition answers_discovery :: "serde_crates \<Rightarrow> node_session \<Rightarrow> DiscoveryMessage \<Rightarrow> DiscoveryMessage \<Rightarrow> bool" where
  "answers_discovery sc s request response \<longleftrightarrow>
     (\<exists>req. discovery_encode (postcard_to_bytes sc) request = Inr req \<and> length req \<le> MAX_WIRE_MESSAGE_SIZE
        \<and> discovery_encode (postcard_to_bytes sc) response = Inr (ns_serve s PROTO_DISCOVERY req)
        \<and> length (ns_serve s PROTO_DISCOVERY req) \<le> MAX_WIRE_MESSAGE_SIZE \<and> wf_DiscoveryMessage response)"

definition answers_signal :: "serde_crates \<Rightarrow> node_session \<Rightarrow> SignalRelayMessage \<Rightarrow> SignalRelayMessage \<Rightarrow> bool" where
  "answers_signal sc s request response \<longleftrightarrow>
     (\<exists>req. signal_encode (postcard_to_bytes sc) request = Inr req \<and> length req \<le> MAX_WIRE_MESSAGE_SIZE
        \<and> signal_encode (postcard_to_bytes sc) response = Inr (ns_serve s PROTO_SIGNAL req)
        \<and> length (ns_serve s PROTO_SIGNAL req) \<le> MAX_WIRE_MESSAGE_SIZE \<and> wf_SignalRelayMessage response)"

text \<open>A node that stores \<open>store\<close>, and one that knows the peers \<open>near\<close> an address.\<close>

definition stores :: "serde_crates \<Rightarrow> node_session \<Rightarrow> (byte list \<rightharpoonup> byte list) \<Rightarrow> bool" where
  "stores sc s store \<longleftrightarrow> (\<forall>i a. length a = 32 \<longrightarrow>
     (\<exists>j. answers_chunk sc s \<lparr>request_id = i, body = GetRequest \<lparr>get_address = a\<rparr>\<rparr>
        \<lparr>request_id = j, body = GetResponse (case store a of Some b \<Rightarrow> GetSuccess a b | None \<Rightarrow> GetNotFound a)\<rparr>))"

definition discovers :: "serde_crates \<Rightarrow> node_session \<Rightarrow> (byte list \<Rightarrow> PeerConnectInfo list) \<Rightarrow> bool" where
  "discovers sc s near \<longleftrightarrow> (\<forall>i a. length a = 32 \<longrightarrow>
     (\<exists>j. answers_discovery sc s \<lparr>dm_request_id = i, dm_body = ClosestRequest \<lparr>cpr_address = a\<rparr>\<rparr>
        \<lparr>dm_request_id = j, dm_body = ClosestResponse \<lparr>cpr_peers = near a\<rparr>\<rparr>))"

lemma chunk_round_trip_synced:
  assumes "aead_correct cr" and "aead_seals cr" and "codecs sc" and "synced cr s (Suc n) c"
    and "answers_chunk sc s request response"
  shows "\<exists>c'. chunk_round_trip cr sc request c = (Ready (Inr response), c') \<and> synced cr s n c' \<and> peer_id c' = peer_id c"
proof -
  obtain req where req: "chunk_encode (postcard_to_bytes sc) request = Inr req" "length req \<le> MAX_WIRE_MESSAGE_SIZE"
    and resp: "chunk_encode (postcard_to_bytes sc) response = Inr (ns_serve s PROTO_CHUNK req)"
    "length (ns_serve s PROTO_CHUNK req) \<le> MAX_WIRE_MESSAGE_SIZE" "wf_ChunkMessage response"
    using assms(5) unfolding answers_chunk_def by blast
  obtain c' where c': "round_trip cr PROTO_CHUNK req c = (Ready (Inr (ns_serve s PROTO_CHUNK req)), c')"
    "synced cr s n c'" "peer_id c' = peer_id c"
    using round_trip_synced [OF assms(1,2,4) req(2) resp(2)] by blast
  have "chunk_decode (postcard_from_bytes sc) (ns_serve s PROTO_CHUNK req) = Inr response"
    using assms(3) by (intro chunk_decode_encode [OF _ resp(3,1,2)]) (simp add: codecs_def)
  with req(1) c' show ?thesis by (simp add: chunk_round_trip_def res_iff)
qed

lemma closest_peers_as_synced:
  assumes "aead_correct cr" and "aead_seals cr" and "codecs sc" and "synced cr s (Suc n) c"
    and "discovers sc s near" and "length a = 32"
  shows "\<exists>c'. closest_peers_as cr sc i a c = (Ready (Inr (near a)), c') \<and> synced cr s n c' \<and> peer_id c' = peer_id c"
proof -
  let ?request = "\<lparr>dm_request_id = i, dm_body = ClosestRequest \<lparr>cpr_address = a\<rparr>\<rparr>"
  obtain j req where req: "discovery_encode (postcard_to_bytes sc) ?request = Inr req" "length req \<le> MAX_WIRE_MESSAGE_SIZE"
    and resp: "discovery_encode (postcard_to_bytes sc) \<lparr>dm_request_id = j, dm_body = ClosestResponse \<lparr>cpr_peers = near a\<rparr>\<rparr>
      = Inr (ns_serve s PROTO_DISCOVERY req)" "length (ns_serve s PROTO_DISCOVERY req) \<le> MAX_WIRE_MESSAGE_SIZE"
    "wf_DiscoveryMessage \<lparr>dm_request_id = j, dm_body = ClosestResponse \<lparr>cpr_peers = near a\<rparr>\<rparr>"
    using assms(5,6) unfolding discovers_def answers_discovery_def by blast
  obtain c' where c': "round_trip cr PROTO_DISCOVERY req c = (Ready (Inr (ns_serve s PROTO_DISCOVERY req)), c')"
    "synced cr s n c'" "peer_id c' = peer_id c"
    using round_trip_synced [OF assms(1,2,4) req(2) resp(2)] by blast
  have "discovery_decode (postcard_from_bytes sc) (ns_serve s PROTO_DISCOVERY req)
      = Inr \<lparr>dm_request_id = j, dm_body = ClosestResponse \<lparr>cpr_peers = near a\<rparr>\<rparr>"
    using assms(3) by (intro discovery_decode_encode [OF _ resp(3,1)]) (simp add: codecs_def)
  with req(1) c' show ?thesis by (auto simp: closest_peers_as_def Let_def res_iff)
qed

lemma closest_peers_synced:
  assumes "aead_correct cr" and "aead_seals cr" and "codecs sc" and "synced cr s (Suc n) c"
    and "discovers sc s near" and "length a = 32"
  shows "\<exists>c'. closest_peers cr sc a c = (Ready (Inr (near a)), c') \<and> synced cr s n c' \<and> peer_id c' = peer_id c"
  using closest_peers_as_synced [OF assms] by (simp add: closest_peers_def)

text \<open>For \<open>get_verified\<close>, the node is its store.\<close>

definition content_addressed :: "crates \<Rightarrow> (byte list \<rightharpoonup> byte list) \<Rightarrow> bool" where
  "content_addressed cr store \<longleftrightarrow> (\<forall>a b. store a = Some b \<longrightarrow> blake3_hash cr b = a)"

definition lookup_result :: "crates \<Rightarrow> (byte list \<rightharpoonup> byte list) \<Rightarrow> byte list \<Rightarrow> byte list result" where
  "lookup_result cr store a =
     (case store a of Some b \<Rightarrow> Inr b | None \<Rightarrow> Inl (''not found: '' @ hex_encode cr a))"

lemma get_verified_as_synced:
  assumes "aead_correct cr" and "aead_seals cr" and "codecs sc" and "synced cr s (Suc n) c"
    and "stores sc s store" and "content_addressed cr store" and "length a = 32"
  shows "\<exists>c'. get_verified_as cr sc i a c = (Ready (lookup_result cr store a), c') \<and> synced cr s n c' \<and> peer_id c' = peer_id c"
proof -
  let ?request = "\<lparr>request_id = i, body = GetRequest \<lparr>get_address = a\<rparr>\<rparr>"
  obtain j where j: "answers_chunk sc s ?request
      \<lparr>request_id = j, body = GetResponse (case store a of Some b \<Rightarrow> GetSuccess a b | None \<Rightarrow> GetNotFound a)\<rparr>"
    using assms(5,7) unfolding stores_def by blast
  obtain c' where c': "chunk_round_trip cr sc ?request c = (Ready (Inr
      \<lparr>request_id = j, body = GetResponse (case store a of Some b \<Rightarrow> GetSuccess a b | None \<Rightarrow> GetNotFound a)\<rparr>), c')"
    "synced cr s n c'" "peer_id c' = peer_id c"
    using chunk_round_trip_synced [OF assms(1-4) j] by blast
  then obtain req resp where "chunk_encode (postcard_to_bytes sc) ?request = Inr req"
    "round_trip cr PROTO_CHUNK req c = (Ready (Inr resp), c')"
    "chunk_decode (postcard_from_bytes sc) resp = Inr
      \<lparr>request_id = j, body = GetResponse (case store a of Some b \<Rightarrow> GetSuccess a b | None \<Rightarrow> GetNotFound a)\<rparr>"
    by (auto simp: chunk_round_trip_def res_iff)
  then have "get_verified_as cr sc i a c = (Ready (lookup_result cr store a), c')"
    using assms(6)
    by (simp add: get_verified_as_def lookup_result_def content_addressed_def Let_def lift_res_def await_def
        ok_def fail_def split: option.splits)
  with c' show ?thesis by blast
qed

lemma get_verified_synced:
  assumes "aead_correct cr" and "aead_seals cr" and "codecs sc" and "synced cr s (Suc n) c"
    and "stores sc s store" and "content_addressed cr store" and "length a = 32"
  shows "\<exists>c'. get_verified cr sc a c = (Ready (lookup_result cr store a), c') \<and> synced cr s n c' \<and> peer_id c' = peer_id c"
  using get_verified_as_synced [OF assms] by (simp add: get_verified_def)

text \<open>A node that gets an offer to \<open>target\<close> and brings back its answer.\<close>

definition relays :: "serde_crates \<Rightarrow> node_session \<Rightarrow> byte list \<Rightarrow> string \<Rightarrow> string \<Rightarrow> bool" where
  "relays sc s target offer answer \<longleftrightarrow> (\<forall>i. \<exists>j.
     answers_signal sc s \<lparr>sm_request_id = i, sm_body = SignalRequest \<lparr>target_peer_id = target, sdp_offer = offer\<rparr>\<rparr>
       \<lparr>sm_request_id = j, sm_body = SignalResponse \<lparr>sdp_answer = answer\<rparr>\<rparr>)"

lemma signal_relay_as_synced:
  assumes "aead_correct cr" and "aead_seals cr" and "codecs sc" and "synced cr s (Suc n) c"
    and "relays sc s target offer answer"
  shows "\<exists>c'. signal_relay_as cr sc i target offer c = (Ready (Inr answer), c') \<and> synced cr s n c' \<and> peer_id c' = peer_id c"
proof -
  let ?request = "\<lparr>sm_request_id = i, sm_body = SignalRequest \<lparr>target_peer_id = target, sdp_offer = offer\<rparr>\<rparr>"
  obtain j req where req: "signal_encode (postcard_to_bytes sc) ?request = Inr req" "length req \<le> MAX_WIRE_MESSAGE_SIZE"
    and resp: "signal_encode (postcard_to_bytes sc) \<lparr>sm_request_id = j, sm_body = SignalResponse \<lparr>sdp_answer = answer\<rparr>\<rparr>
      = Inr (ns_serve s PROTO_SIGNAL req)" "length (ns_serve s PROTO_SIGNAL req) \<le> MAX_WIRE_MESSAGE_SIZE"
    "wf_SignalRelayMessage \<lparr>sm_request_id = j, sm_body = SignalResponse \<lparr>sdp_answer = answer\<rparr>\<rparr>"
    using assms(5) unfolding relays_def answers_signal_def by blast
  obtain c' where c': "round_trip cr PROTO_SIGNAL req c = (Ready (Inr (ns_serve s PROTO_SIGNAL req)), c')"
    "synced cr s n c'" "peer_id c' = peer_id c"
    using round_trip_synced [OF assms(1,2,4) req(2) resp(2)] by blast
  have "signal_decode (postcard_from_bytes sc) (ns_serve s PROTO_SIGNAL req)
      = Inr \<lparr>sm_request_id = j, sm_body = SignalResponse \<lparr>sdp_answer = answer\<rparr>\<rparr>"
    using assms(3) by (intro signal_decode_encode [OF _ resp(3,1)]) (simp add: codecs_def)
  with req(1) c' show ?thesis by (auto simp: signal_relay_as_def Let_def res_iff)
qed

lemma signal_relay_synced:
  assumes "aead_correct cr" and "aead_seals cr" and "codecs sc" and "synced cr s (Suc n) c"
    and "relays sc s target offer answer"
  shows "\<exists>c'. signal_relay cr sc target offer c = (Ready (Inr answer), c') \<and> synced cr s n c' \<and> peer_id c' = peer_id c"
  using signal_relay_as_synced [OF assms] by (simp add: signal_relay_def)

end
