(* ===== verification/Network.thy ===== *)
theory Network
  imports Fetch Node
begin

text \<open>
  The client over a network of honest nodes. \<open>net\<close> gives the chunks each node stores and \<open>near\<close> the
  peers responsible for an address; \<open>retrieve\<close> is downloading as a pure function of them. The refinement
  lemmas say that \<open>connection_for\<close>, \<open>get_direct\<close> and \<open>download\<close> compute it, without ever blocking, for as
  long as the sessions have sequence numbers left.
\<close>

section \<open>Specification\<close>

text \<open>The first of the peers that stores the chunk.\<close>

fun find_stored :: "(byte list \<Rightarrow> byte list \<rightharpoonup> byte list) \<Rightarrow> byte list \<Rightarrow> PeerConnectInfo list \<Rightarrow> byte list option" where
  "find_stored net a [] = None"
| "find_stored net a (p # ps) = (case net (pci_peer_id p) a of Some b \<Rightarrow> Some b | None \<Rightarrow> find_stored net a ps)"

definition peers_fetch ::
    "crates \<Rightarrow> (byte list \<Rightarrow> byte list \<rightharpoonup> byte list) \<Rightarrow> byte list \<Rightarrow> PeerConnectInfo list \<Rightarrow> string \<Rightarrow> byte list result" where
  "peers_fetch cr net a peers last_err =
     (case find_stored net a peers of
        Some b \<Rightarrow> Inr b
      | None \<Rightarrow> Inl (''no responsible peer served '' @ hex_encode cr a @ '': ''
          @ (if peers = [] then last_err else ''not found: '' @ hex_encode cr a)))"

definition net_fetch ::
    "crates \<Rightarrow> (byte list \<Rightarrow> byte list \<rightharpoonup> byte list) \<Rightarrow> (byte list \<Rightarrow> PeerConnectInfo list) \<Rightarrow> byte list \<Rightarrow> byte list result" where
  "net_fetch cr net near a =
     (if near a = [] then Inl ''discovery returned no peers'' else peers_fetch cr net a (near a) [])"

text \<open>
  Downloading from a fetch function, with the addresses that are fetched: the data map, then one round for
  the chunks of the map at hand, and one more for those of its root if it was a child.
\<close>

fun supply_fetches ::
    "crates \<Rightarrow> 'm self_encryption \<Rightarrow> (byte list \<times> byte list result) list \<Rightarrow> 'm Retrieval \<Rightarrow> 'm Retrieval result" where
  "supply_fetches cr se [] r = Inr r"
| "supply_fetches cr se ((a, x) # items) r =
     res_bind x (\<lambda>bytes. res_bind (retrieval_supply cr se a bytes r) (supply_fetches cr se items))"

definition retrieve_round ::
    "crates \<Rightarrow> 'm self_encryption \<Rightarrow> (byte list \<Rightarrow> byte list result) \<Rightarrow> 'm Retrieval \<Rightarrow> byte list list \<times> 'm Retrieval result" where
  "retrieve_round cr se fetch r =
     (if is_complete se r then ([], Inr r)
      else (required_addresses se r,
        res_bind (supply_fetches cr se (map (\<lambda>a. (a, fetch a)) (required_addresses se r)) r) (advance cr se)))"

definition then_round ::
    "('a \<Rightarrow> byte list list \<times> 'b result) \<Rightarrow> byte list list \<times> 'a result \<Rightarrow> byte list list \<times> 'b result" where
  "then_round f x = (case x of (log, Inl e) \<Rightarrow> (log, Inl e) | (log, Inr r) \<Rightarrow> (case f r of (log', y) \<Rightarrow> (log @ log', y)))"

definition retrieve ::
    "crates \<Rightarrow> 'm self_encryption \<Rightarrow> (byte list \<Rightarrow> byte list result) \<Rightarrow> byte list \<Rightarrow> byte list list \<times> byte list result" where
  "retrieve cr se fetch a =
     then_round (\<lambda>r. ([], finish cr se r))
       (then_round (retrieve_round cr se fetch)
         (then_round (retrieve_round cr se fetch) ([a], res_bind (fetch a) (retrieval_begin se a))))"

lemma then_round_simps [simp]:
  "then_round f (log, Inl e) = (log, Inl e)"
  "then_round f (log, Inr r) = (log @ fst (f r), snd (f r))"
  by (auto simp: then_round_def split: prod.splits)

section \<open>Honest networks\<close>

text \<open>
  Every peer that discovery names can be dialled, at any time, and is then an honest node whose service has
  the property \<open>serves\<close> asks of this peer.
\<close>

definition honest_peers ::
    "'m env \<Rightarrow> (byte list \<Rightarrow> node_session \<Rightarrow> bool) \<Rightarrow> (byte list \<Rightarrow> PeerConnectInfo list) \<Rightarrow> bool" where
  "honest_peers env serves near \<longleftrightarrow>
     aead_correct (e_crates env) \<and> aead_seals (e_crates env) \<and> codecs (e_serde env)
     \<and> (\<forall>a k. \<forall>peer \<in> set (near a). \<exists>c s.
          conn_connect (e_crates env) (e_rtc env k) k (pci_ip peer) (pci_port peer)
            (hex_encode (e_crates env) (pci_cert_hash peer)) (Some (pci_peer_id peer)) = Ready (Inr c)
          \<and> serves (pci_peer_id peer) s \<and> synced (e_crates env) s (unat MAX_SEQ - 1) c)"

text \<open>For downloads: nodes that store what \<open>net\<close> says, under its hash.\<close>

definition chunk_nodes :: "serde_crates \<Rightarrow> (byte list \<Rightarrow> byte list \<rightharpoonup> byte list) \<Rightarrow> byte list \<Rightarrow> node_session \<Rightarrow> bool" where
  "chunk_nodes sc net pid s \<longleftrightarrow> stores sc s (net pid)"

definition honest_net ::
    "'m env \<Rightarrow> (byte list \<Rightarrow> byte list \<rightharpoonup> byte list) \<Rightarrow> (byte list \<Rightarrow> PeerConnectInfo list) \<Rightarrow> bool" where
  "honest_net env net near \<longleftrightarrow> honest_peers env (chunk_nodes (e_serde env) net) near
     \<and> (\<forall>pid. content_addressed (e_crates env) (net pid))"

text \<open>The same of nodes that have other services, too.\<close>

definition holding :: "'m env \<Rightarrow> (byte list \<Rightarrow> node_session \<Rightarrow> bool) \<Rightarrow> (byte list \<Rightarrow> byte list \<rightharpoonup> byte list)
    \<Rightarrow> (byte list \<Rightarrow> PeerConnectInfo list) \<Rightarrow> bool" where
  "holding env serves net near \<longleftrightarrow> honest_peers env serves near \<and> serves \<le> chunk_nodes (e_serde env) net
     \<and> (\<forall>pid. content_addressed (e_crates env) (net pid))"

lemma honest_net_holding: "honest_net env net near \<longleftrightarrow> holding env (chunk_nodes (e_serde env) net) net near"
  by (simp add: honest_net_def holding_def)

lemma holding_stores: "holding env serves net near \<Longrightarrow> serves pid s \<Longrightarrow> stores (e_serde env) s (net pid)"
  by (auto simp: holding_def chunk_nodes_def)

text \<open>
  The client's connections are sessions with honest nodes, \<open>sess h\<close> behind the handle \<open>h\<close>, and all of them
  have room for \<open>n\<close> more requests.
\<close>

definition serving ::
    "'m env \<Rightarrow> (byte list \<Rightarrow> node_session \<Rightarrow> bool) \<Rightarrow> (byte list \<Rightarrow> PeerConnectInfo list)
      \<Rightarrow> (nat \<Rightarrow> node_session) \<Rightarrow> nat \<Rightarrow> client \<Rightarrow> bool" where
  "serving env serves near sess n w \<longleftrightarrow> n < unat MAX_SEQ \<and> bootstrap w < length (conns w)
     \<and> (\<forall>h < length (conns w). synced (e_crates env) (sess h) n (conns w ! h))
     \<and> discovers (e_serde env) (sess (bootstrap w)) near
     \<and> (\<forall>pid h. map_of (pool w) pid = Some h \<longrightarrow> h < length (conns w) \<and> serves pid (sess h))"

definition in_service ::
    "'m env \<Rightarrow> (byte list \<Rightarrow> node_session \<Rightarrow> bool) \<Rightarrow> (byte list \<Rightarrow> PeerConnectInfo list) \<Rightarrow> nat \<Rightarrow> client \<Rightarrow> bool" where
  "in_service env serves near n w \<longleftrightarrow> (\<exists>sess. serving env serves near sess n w)"

lemma serving_mono: "serving env serves near sess n w \<Longrightarrow> m \<le> n \<Longrightarrow> serving env serves near sess m w"
  by (auto simp: serving_def intro: synced_mono)

lemma in_service_mono: "in_service env serves near n w \<Longrightarrow> m \<le> n \<Longrightarrow> in_service env serves near m w"
  unfolding in_service_def using serving_mono by blast

lemma in_service_fields [simp]:
  "in_service env serves near n (w\<lparr>chunks_fetched := k\<rparr>) \<longleftrightarrow> in_service env serves near n w"
  by (simp add: in_service_def serving_def)

lemma serving_on_conn:
  assumes "serving env serves near sess (Suc n) w" and "h < length (conns w)"
    and "f (conns w ! h) = (r, c)" and "synced (e_crates env) (sess h) n c"
  shows "\<exists>w'. on_conn h f w = (r, w') \<and> serving env serves near sess n w'"
proof -
  have "synced (e_crates env) (sess k) n ((conns w)[h := c] ! k)" if "k < length (conns w)" for k
    using assms that synced_mono [of _ _ "Suc n" _ n] by (cases "k = h") (auto simp: serving_def)
  with assms show ?thesis by (auto simp: on_conn_def serving_def)
qed

lemma connection_for_serving:
  assumes "honest_peers env serves near" and "serving env serves near sess n w" and "peer \<in> set (near a)"
  shows "\<exists>h w' sess'. connection_for env peer w = (Ready (Inr h), w') \<and> serving env serves near sess' n w'
     \<and> h < length (conns w') \<and> serves (pci_peer_id peer) (sess' h) \<and> map_of (pool w') (pci_peer_id peer) = Some h
     \<and> pay_calls w' = pay_calls w \<and> length (conns w) \<le> length (conns w') \<and> (\<forall>k < length (conns w). sess' k = sess k)"
proof (cases "map_of (pool w) (pci_peer_id peer)")
  case (Some h)
  with assms(2) show ?thesis by (auto simp: connection_for_def ok_def serving_def)
next
  case None
  obtain c s where c: "conn_connect (e_crates env) (e_rtc env (dials w)) (dials w) (pci_ip peer) (pci_port peer)
            (hex_encode (e_crates env) (pci_cert_hash peer)) (Some (pci_peer_id peer)) = Ready (Inr c)"
    and s: "serves (pci_peer_id peer) s" "synced (e_crates env) s (unat MAX_SEQ - 1) c"
    using assms(1,3) unfolding honest_peers_def by blast
  let ?h = "length (conns w)"
  let ?w = "w\<lparr>dials := Suc (dials w), conns := conns w @ [c],
     pool := AList.update (pci_peer_id peer) ?h (pool w)\<rparr>"
  have "connection_for env peer w = (Ready (Inr ?h), ?w)"
    using None c by (simp add: connection_for_def ok_def)
  moreover have "synced (e_crates env) s n c"
    using s(2) assms(2) by (auto simp: serving_def intro: synced_mono)
  then have "serving env serves near (sess(?h := s)) n ?w"
    using assms(2) s(1)
    by (auto simp: serving_def nth_append update_conv' less_Suc_eq split: if_splits)
  ultimately show ?thesis
    using s(1) by (intro exI [of _ ?h] exI [of _ ?w] exI [of _ "sess(?h := s)"]) (simp add: update_conv')
qed

section \<open>\<open>get_direct\<close> is a lookup\<close>

lemma try_peers_serving:
  assumes "honest_net env net near" and "length a = 32"
  shows "set peers \<subseteq> set (near a) \<Longrightarrow> serving env (chunk_nodes (e_serde env) net) near sess (length peers + n) w \<Longrightarrow>
     \<exists>w'. try_peers env a peers last_err w = (Ready (peers_fetch (e_crates env) net a peers last_err), w')
        \<and> in_service env (chunk_nodes (e_serde env) net) near n w'"
proof (induction peers arbitrary: sess w last_err)
  case Nil
  then show ?case by (auto simp: fail_def peers_fetch_def in_service_def)
next
  case (Cons peer peers)
  have hp: "honest_peers env (chunk_nodes (e_serde env) net) near" using assms(1) by (simp add: honest_net_def)
  from Cons.prems have p: "peer \<in> set (near a)" and sv: "serving env (chunk_nodes (e_serde env) net) near sess (Suc (length peers + n)) w"
    by simp_all
  obtain h w1 sess1 where c: "connection_for env peer w = (Ready (Inr h), w1)"
    and s1: "serving env (chunk_nodes (e_serde env) net) near sess1 (Suc (length peers + n)) w1" "h < length (conns w1)"
    "stores (e_serde env) (sess1 h) (net (pci_peer_id peer))"
    using connection_for_serving [OF hp sv p] unfolding chunk_nodes_def by blast
  have "synced (e_crates env) (sess1 h) (Suc (length peers + n)) (conns w1 ! h)"
    using s1(1,2) by (simp add: serving_def)
  then obtain c2 where g: "get_verified (e_crates env) (e_serde env) a (conns w1 ! h)
      = (Ready (lookup_result (e_crates env) (net (pci_peer_id peer)) a), c2)"
    "synced (e_crates env) (sess1 h) (length peers + n) c2"
    using get_verified_synced [OF _ _ _ _ s1(3) _ assms(2)] assms(1) unfolding honest_net_def honest_peers_def by blast
  obtain w2 where w2: "on_conn h (get_verified (e_crates env) (e_serde env) a) w1
      = (Ready (lookup_result (e_crates env) (net (pci_peer_id peer)) a), w2)"
    "serving env (chunk_nodes (e_serde env) net) near sess1 (length peers + n) w2"
    using serving_on_conn [where f = "get_verified (e_crates env) (e_serde env) a", OF s1(1,2) g] by blast
  show ?case
  proof (cases "net (pci_peer_id peer) a")
    case (Some b)
    then have "try_peers env a (peer # peers) last_err w = (Ready (Inr b), w2)"
      using c w2(1) by (simp add: lookup_result_def ok_def)
    moreover have "in_service env (chunk_nodes (e_serde env) net) near n w2"
      using serving_mono [OF w2(2), of n] by (auto simp: in_service_def)
    ultimately show ?thesis using Some by (auto simp: peers_fetch_def)
  next
    case None
    let ?e = "''not found: '' @ hex_encode (e_crates env) a"
    have "try_peers env a (peer # peers) last_err w = try_peers env a peers ?e w2"
      using c w2(1) None by (simp add: lookup_result_def)
    moreover have "peers_fetch (e_crates env) net a (peer # peers) last_err = peers_fetch (e_crates env) net a peers ?e"
      using None by (simp add: peers_fetch_def)
    ultimately show ?thesis using Cons.IH [of sess1 w2 ?e] Cons.prems(1) w2(2) by simp
  qed
qed

lemma get_direct_serving:
  assumes "honest_net env net near" and "length a = 32"
    and "in_service env (chunk_nodes (e_serde env) net) near (Suc (length (near a)) + n) w"
  shows "\<exists>w'. get_direct env a w = (Ready (net_fetch (e_crates env) net near a), w') \<and> in_service env (chunk_nodes (e_serde env) net) near n w'"
proof -
  obtain sess where sv: "serving env (chunk_nodes (e_serde env) net) near sess (Suc (length (near a) + n)) w"
    using assms(3) by (auto simp: in_service_def)
  then have b: "bootstrap w < length (conns w)" and d: "discovers (e_serde env) (sess (bootstrap w)) near"
    and sy: "synced (e_crates env) (sess (bootstrap w)) (Suc (length (near a) + n)) (conns w ! bootstrap w)"
    by (simp_all add: serving_def)
  obtain c where c: "closest_peers (e_crates env) (e_serde env) a (conns w ! bootstrap w) = (Ready (Inr (near a)), c)"
    "synced (e_crates env) (sess (bootstrap w)) (length (near a) + n) c"
    using closest_peers_synced [OF _ _ _ sy d assms(2)] assms(1) unfolding honest_net_def honest_peers_def by blast
  obtain w1 where w1: "on_bootstrap (closest_peers (e_crates env) (e_serde env) a) w = (Ready (Inr (near a)), w1)"
    "serving env (chunk_nodes (e_serde env) net) near sess (length (near a) + n) w1"
    using serving_on_conn [where f = "closest_peers (e_crates env) (e_serde env) a", OF sv b c]
    by (auto simp: on_bootstrap_def)
  show ?thesis
  proof (cases "near a = []")
    case True
    with w1 show ?thesis by (auto simp: get_direct_def net_fetch_def fail_def in_service_def)
  next
    case False
    with w1(1) try_peers_serving [OF assms(1,2) subset_refl w1(2), of "[]"]
    show ?thesis by (simp add: get_direct_def net_fetch_def)
  qed
qed


section \<open>\<open>download\<close> is \<open>retrieve\<close>\<close>

text \<open>Requests for fetching some addresses: one discovery and at most one GET per peer, each.\<close>

definition requests_for :: "(byte list \<Rightarrow> PeerConnectInfo list) \<Rightarrow> byte list list \<Rightarrow> nat" where
  "requests_for near addrs = sum_list (map (\<lambda>a. Suc (length (near a))) addrs)"

lemma requests_for_simps [simp]:
  "requests_for near [] = 0" "requests_for near (a # as) = Suc (length (near a)) + requests_for near as"
  "requests_for near (as @ bs) = requests_for near as + requests_for near bs"
  by (simp_all add: requests_for_def)

lemma join_all_serving:
  assumes "honest_net env net near"
  shows "list_all (\<lambda>a. length a = 32) as \<Longrightarrow> in_service env (chunk_nodes (e_serde env) net) near (requests_for near as + n) w \<Longrightarrow>
     \<exists>w'. join_all (map (get_direct env) as) w = (Ready (map (net_fetch (e_crates env) net near) as), w')
        \<and> in_service env (chunk_nodes (e_serde env) net) near n w'"
proof (induction as arbitrary: w)
  case (Cons a as)
  then have "length a = 32" "in_service env (chunk_nodes (e_serde env) net) near (Suc (length (near a)) + (requests_for near as + n)) w"
    by (simp_all add: add.assoc)
  from get_direct_serving [OF assms this] obtain w1 where w1:
    "get_direct env a w = (Ready (net_fetch (e_crates env) net near a), w1)"
    "in_service env (chunk_nodes (e_serde env) net) near (requests_for near as + n) w1" by blast
  from Cons.IH [OF _ w1(2)] Cons.prems(1) obtain w2 where
    "join_all (map (get_direct env) as) w1 = (Ready (map (net_fetch (e_crates env) net near) as), w2)"
    "in_service env (chunk_nodes (e_serde env) net) near n w2" by auto
  with w1(1) show ?case by simp
qed simp

lemma supply_fetched_pure:
  "\<exists>k. supply_fetched env items r w =
     (Ready (supply_fetches (e_crates env) (e_se env) items r), w\<lparr>chunks_fetched := k\<rparr>)"
proof (induction env items r w rule: supply_fetched.induct)
  case (1 env r w)
  then show ?case by (auto simp: ok_def intro!: exI [of _ "chunks_fetched w"])
next
  case (2 env addr e rest r w)
  then show ?case by (auto simp: fail_def intro!: exI [of _ "chunks_fetched w"])
next
  case (3 env addr bytes rest r w)
  show ?case
  proof (cases "retrieval_supply (e_crates env) (e_se env) addr bytes r")
    case (Inl e)
    then show ?thesis by (auto simp: fail_def intro!: exI [of _ "chunks_fetched w"])
  next
    case (Inr r1)
    with 3 [OF Inr] show ?thesis by auto
  qed
qed

lemma supply_fetches_Inr:
  "supply_fetches cr se (map (\<lambda>a. (a, fetch a)) as) r = Inr r' \<Longrightarrow>
     \<exists>got. map fst got = as \<and> supply_all cr se got r = Inr r'"
proof (induction as arbitrary: r)
  case (Cons a as)
  then obtain bytes r1 where "fetch a = Inr bytes" and r1: "retrieval_supply cr se a bytes r = Inr r1"
    "supply_fetches cr se (map (\<lambda>a. (a, fetch a)) as) r1 = Inr r'" by (auto simp: res_iff)
  from Cons.IH [OF r1(2)] obtain got where "map fst got = as" "supply_all cr se got r1 = Inr r'" by blast
  with r1(1) show ?case by (intro exI [of _ "(a, bytes) # got"]) simp
qed simp

text \<open>A round that works leaves fewer rounds, and there are never more than two.\<close>

lemma retrieve_round_left:
  assumes "retrieve_round cr se fetch r = (log, Inr r')"
  shows "rounds_left se r' \<le> rounds_left se r - 1"
proof (cases "is_complete se r")
  case True
  with assms show ?thesis by (simp add: retrieve_round_def rounds_left_def)
next
  case False
  obtain r1 where "supply_fetches cr se (map (\<lambda>a. (a, fetch a)) (required_addresses se r)) r = Inr r1"
    and a: "advance cr se r1 = Inr r'"
    using assms False by (auto simp: retrieve_round_def res_iff)
  with supply_fetches_Inr obtain got where "map fst got = required_addresses se r" "supply_all cr se got r = Inr r1"
    by blast
  with round_progress [of cr se got r r1 r'] a False show ?thesis by simp
qed

lemma complete_rounds_left: "is_complete se r \<longleftrightarrow> rounds_left se r = 0" "rounds_left se r \<le> 2"
  by (simp_all add: rounds_left_def)

lemma await_modify [simp]: "await (modify f) g w = g () (f w)"
  by (simp add: modify_def await_def ok_def)

text \<open>One turn of the loop is one round.\<close>

lemma download_rounds_round:
  assumes "honest_net env net near"
    and "retrieve_round (e_crates env) (e_se env) (net_fetch (e_crates env) net near) r = (log, x)"
    and "list_all (\<lambda>a. length a = 32) log" and "in_service env (chunk_nodes (e_serde env) net) near (requests_for near log + n) w"
  shows "\<exists>w'. in_service env (chunk_nodes (e_serde env) net) near n w' \<and> download_rounds env r w =
     (case x of Inl e \<Rightarrow> (Ready (Inl e), w') | Inr r' \<Rightarrow> download_rounds env r' w')"
proof (cases "is_complete (e_se env) r")
  case True
  with assms(2,4) show ?thesis by (auto simp: retrieve_round_def)
next
  case False
  let ?fetch = "net_fetch (e_crates env) net near" and ?addrs = "required_addresses (e_se env) r"
  have log: "log = ?addrs" and x: "x = res_bind (supply_fetches (e_crates env) (e_se env) (map (\<lambda>a. (a, ?fetch a)) ?addrs) r)
      (advance (e_crates env) (e_se env))"
    using assms(2) False by (auto simp: retrieve_round_def)
  obtain w1 where j: "join_all (map (get_direct env) ?addrs) w = (Ready (map ?fetch ?addrs), w1)"
    "in_service env (chunk_nodes (e_serde env) net) near n w1"
    using join_all_serving [OF assms(1,3,4)] unfolding log by blast
  have z: "zip ?addrs (map ?fetch ?addrs) = map (\<lambda>a. (a, ?fetch a)) ?addrs"
    by (simp add: zip_map2 zip_same_conv_map)
  obtain k where "supply_fetched env (zip ?addrs (map ?fetch ?addrs)) r w1 = (Ready (supply_fetches (e_crates env) (e_se env)
      (map (\<lambda>a. (a, ?fetch a)) ?addrs) r), w1\<lparr>chunks_fetched := k\<rparr>)"
    using supply_fetched_pure unfolding z by blast
  with False j show ?thesis
    by (intro exI [of _ "w1\<lparr>chunks_fetched := k\<rparr>"])
      (auto simp: download_rounds.simps [of env r] x fail_def split: sum.splits)
qed

lemma download_rounds_retrieve:
  assumes "honest_net env net near"
    and "then_round (retrieve_round (e_crates env) (e_se env) (net_fetch (e_crates env) net near))
       (retrieve_round (e_crates env) (e_se env) (net_fetch (e_crates env) net near) r) = (log, x)"
    and "list_all (\<lambda>a. length a = 32) log" and "in_service env (chunk_nodes (e_serde env) net) near (requests_for near log + n) w"
  shows "\<exists>w'. in_service env (chunk_nodes (e_serde env) net) near n w' \<and> download_rounds env r w = (Ready x, w')"
proof -
  let ?round = "retrieve_round (e_crates env) (e_se env) (net_fetch (e_crates env) net near)"
  obtain l1 x1 where r1: "?round r = (l1, x1)" by force
  show ?thesis
  proof (cases x1)
    case (Inl e)
    with r1 assms(2) have "log = l1" "x = Inl e" by simp_all
    with Inl download_rounds_round [OF assms(1) r1] assms(3,4) show ?thesis by fastforce
  next
    case (Inr r')
    obtain l2 x2 where r2: "?round r' = (l2, x2)" by force
    with r1 Inr assms(2) have log: "log = l1 @ l2" "x = x2" by simp_all
    obtain w1 where w1: "in_service env (chunk_nodes (e_serde env) net) near (requests_for near l2 + n) w1"
      "download_rounds env r w = download_rounds env r' w1"
      using download_rounds_round [OF assms(1) r1, of "requests_for near l2 + n" w] assms(3,4) Inr log
      by (auto simp: add.assoc)
    obtain w2 where w2: "in_service env (chunk_nodes (e_serde env) net) near n w2" "download_rounds env r' w1 =
        (case x2 of Inl e \<Rightarrow> (Ready (Inl e), w2) | Inr r'' \<Rightarrow> download_rounds env r'' w2)"
      using download_rounds_round [OF assms(1) r2 _ w1(1)] assms(3) log by auto
    have "is_complete (e_se env) r''" if "x2 = Inr r''" for r''
      using retrieve_round_left [OF r1 [unfolded Inr]] retrieve_round_left [OF r2 [unfolded that]]
        complete_rounds_left by (metis diff_is_0_eq le_zero_eq one_add_one le_diff_conv order_trans)
    then have "download_rounds env r' w1 = (Ready x2, w2)"
      using w2(2) by (auto simp: download_rounds.simps ok_def split: sum.splits)
    with w1(2) w2(1) log(2) show ?thesis by simp
  qed
qed

text \<open>How a download can go: no map, bytes that are not one, or its rounds, which ask for all other addresses.\<close>

lemma retrieve_cases [consumes 1, case_names missing no_map rounds]:
  assumes "retrieve cr se fetch a = (log, x)"
  obtains e where "fetch a = Inl e" "log = [a]" "x = Inl e"
  | bytes e where "fetch a = Inr bytes" "retrieval_begin se a bytes = Inl e" "log = [a]" "x = Inl e"
  | bytes r l y where "fetch a = Inr bytes" "retrieval_begin se a bytes = Inr r" "log = a # l"
      "then_round (retrieve_round cr se fetch) (retrieve_round cr se fetch r) = (l, y)" "x = res_bind y (finish cr se)"
proof (cases "fetch a")
  case (Inl e)
  then have "log = [a]" "x = Inl e" using assms by (auto simp: retrieve_def)
  with Inl that(1) show ?thesis by blast
next
  case bytes: (Inr bytes)
  show ?thesis
  proof (cases "retrieval_begin se a bytes")
    case (Inl e)
    then have "log = [a]" "x = Inl e" using assms bytes by (auto simp: retrieve_def)
    with bytes Inl that(2) show ?thesis by blast
  next
    case (Inr r)
    let ?round = "retrieve_round cr se fetch"
    obtain l y where two: "then_round ?round (?round r) = (l, y)" by force
    then have "then_round ?round (then_round ?round ([a], Inr r)) = (a # l, y)"
      by (auto simp: then_round_def split: sum.splits prod.splits)
    with assms bytes Inr have "log = a # l" "x = res_bind y (finish cr se)" by (cases y; simp add: retrieve_def)+
    with that(3) bytes Inr two show ?thesis by blast
  qed
qed

lemma download_retrieve:
  assumes "honest_net env net near" and "parse_address (e_crates env) address_hex = Inr address"
    and "retrieve (e_crates env) (e_se env) (net_fetch (e_crates env) net near) address = (log, x)"
    and "list_all (\<lambda>a. length a = 32) log" and "in_service env (chunk_nodes (e_serde env) net) near (requests_for near log + n) w"
  shows "\<exists>w'. download env address_hex w = (Ready x, w') \<and> in_service env (chunk_nodes (e_serde env) net) near n w'"
proof -
  let ?fetch = "net_fetch (e_crates env) net near" and ?w0 = "w\<lparr>chunks_fetched := 0\<rparr>"
  have first: "\<exists>w1. get_direct env address ?w0 = (Ready (?fetch address), w1)
      \<and> in_service env (chunk_nodes (e_serde env) net) near (requests_for near l + n) w1" if "log = address # l" for l
    using get_direct_serving [OF assms(1) parse_address_length [OF assms(2)], of "requests_for near l + n" ?w0] assms(5) that
    by (simp add: add.assoc)
  have start: "download env address_hex w = await (get_direct env address) (\<lambda>map_bytes.
     await (modify (\<lambda>w. w\<lparr>chunks_fetched := chunks_fetched w + 1\<rparr>)) (\<lambda>_.
     await (lift_res (retrieval_begin (e_se env) address map_bytes)) (\<lambda>retrieval.
     await (download_rounds env retrieval) (\<lambda>retrieval.
     lift_res (finish (e_crates env) (e_se env) retrieval))))) ?w0"
    by (simp add: download_def assms(2))
  from assms(3) show ?thesis
  proof (cases rule: retrieve_cases)
    case (missing e)
    with first [of "[]"] start show ?thesis by auto
  next
    case (no_map bytes e)
    with first [of "[]"] start show ?thesis by (auto simp: lift_res_def)
  next
    case (rounds bytes r l y)
    obtain w1 where w1: "get_direct env address ?w0 = (Ready (Inr bytes), w1)"
      "in_service env (chunk_nodes (e_serde env) net) near (requests_for near l + n) w1" using first [OF rounds(3)] rounds(1) by auto
    from download_rounds_retrieve [OF assms(1) rounds(4), of n "w1\<lparr>chunks_fetched := chunks_fetched w1 + 1\<rparr>"]
      assms(4) rounds(3) w1(2)
    obtain w3 where "in_service env (chunk_nodes (e_serde env) net) near n w3"
      "download_rounds env r (w1\<lparr>chunks_fetched := chunks_fetched w1 + 1\<rparr>) = (Ready y, w3)" by auto
    with start w1(1) rounds(2,5) show ?thesis by (cases y) (auto simp: lift_res_def)
  qed
qed

end
