(* ===== verification/Test_Node.thy ===== *)
theory Test_Node
  imports Node Payment
begin

text \<open>
  An instance of the honest node, for the witnesses: the stand-in cryptography of \<open>test_crates\<close>, the
  Postcard and MessagePack formats, and a service that stores chunks, knows peers, quotes and accepts. It
  reads the frames out of whatever bytes it is sent and delivers its answers in messages of 3 bytes.
\<close>

section \<open>Sizes\<close>

text \<open>An upper bound for the Postcard encoding of a value, which exists when the bound fits 32 bits.\<close>

fun bulk :: "sval \<Rightarrow> nat" where
  "bulk (SBool b) = 1"
| "bulk (SU8 w) = 1"
| "bulk (SU16 w) = 10"
| "bulk (SU32 w) = 10"
| "bulk (SU64 w) = 10"
| "bulk (SStr s) = 5 + length s"
| "bulk (SBytes bs) = 5 + length bs"
| "bulk SNone = 1"
| "bulk (SSome v) = 1 + bulk v"
| "bulk (SSeq vs) = 5 + sum_list (map bulk vs)"
| "bulk (STuple vs) = 1 + sum_list (map bulk vs)"
| "bulk (SStruct vs) = 1 + sum_list (map bulk vs)"
| "bulk (SNewtype v) = bulk v"
| "bulk (SVariant i v) = 5 + i + bulk v"

lemma bulk_pos: "0 < bulk v"
  by (induction v) auto

lemma length_le_bulk: "length vs \<le> sum_list (map bulk vs)"
proof (induction vs)
  case (Cons v vs)
  then show ?case using bulk_pos [of v] by simp
qed simp

lemma length_varint: "0 < k \<Longrightarrow> n < 128 ^ k \<Longrightarrow> length (varint n) \<le> k"
proof (induction k arbitrary: n)
  case (Suc k)
  show ?case
  proof (cases "n < 128")
    case False
    have "n div 128 < 128 ^ k" using Suc.prems by (simp add: div_less_iff_less_mult mult.commute)
    moreover from False Suc.prems have "0 < k" by (cases k) auto
    ultimately show ?thesis using False Suc.IH by (simp add: varint.simps [of n])
  qed (simp add: varint.simps [of n])
qed simp

lemma length_varint_u: "length (varint (unat (w :: u16))) \<le> 10" "length (varint (unat (x :: u32))) \<le> 10"
  "length (varint (unat (y :: u64))) \<le> 10"
  using unat_u16_lt [of w] unat_u32_lt [of x] unat_u64_lt [of y] by (auto intro!: length_varint)

lemma length_varint_hdr: "n < 256 ^ 4 \<Longrightarrow> length (varint n) \<le> 5"
  by (rule length_varint) simp_all

text \<open>One element at a time, so that the list cases are shared.\<close>

definition sized_enc :: "sval \<Rightarrow> bool" where
  "sized_enc v \<longleftrightarrow> (bulk v < 256 ^ 4 \<longrightarrow> (\<exists>b. enc postcard_fmt v = Some b \<and> length b \<le> bulk v))"

lemma sized_enc_all:
  assumes "\<forall>v \<in> set vs. sized_enc v" and "sum_list (map bulk vs) < 256 ^ 4"
  shows "\<exists>b. enc_all postcard_fmt vs = Some b \<and> length b \<le> sum_list (map bulk vs)"
  using assms
proof (induction vs)
  case (Cons v vs)
  then obtain a b where "enc postcard_fmt v = Some a" "length a \<le> bulk v"
    "enc_all postcard_fmt vs = Some b" "length b \<le> sum_list (map bulk vs)"
    by (force simp: sized_enc_def)
  then show ?case by (auto simp: enc_all_Cons_Some)
qed simp

lemma sized_hdr:
  assumes "n < 256 ^ 4" and "x = Some b" and "length b \<le> m"
  shows "\<exists>q. put_with_hdr postcard_fmt h n x = Some q \<and> length q \<le> 5 + m"
  using assms length_varint_hdr [OF assms(1)] by (auto simp: put_with_hdr_Some)

lemma sized_seq:
  assumes "\<forall>v \<in> set vs. sized_enc v" and "sum_list (map bulk vs) < 256 ^ 4"
  shows "\<exists>q. put_with_hdr postcard_fmt h (length vs) (enc_all postcard_fmt vs) = Some q
     \<and> length q \<le> (if h = HTuple \<or> h = HStruct then 0 else 5) + sum_list (map bulk vs)"
proof -
  obtain b where b: "enc_all postcard_fmt vs = Some b" "length b \<le> sum_list (map bulk vs)"
    using sized_enc_all [OF assms] by blast
  moreover have "length vs < 256 ^ 4" using length_le_bulk [of vs] assms(2) by simp
  ultimately show ?thesis
    using length_varint_hdr [of "length vs"] by (auto simp: put_with_hdr_Some)
qed

lemma enc_bulk: "sized_enc v"
proof (induction v)
  case (SStr s)
  show ?case using sized_hdr [of "length s" "Some (str_bytes s)"] by (simp add: sized_enc_def)
next
  case (SBytes bs)
  show ?case using sized_hdr [of "length bs" "Some bs"] by (simp add: sized_enc_def)
next
  case (SSeq vs)
  then show ?case using sized_seq [of vs HSeq] by (simp add: sized_enc_def)
next
  case (STuple vs)
  then show ?case using sized_seq [of vs HTuple] by (auto simp: sized_enc_def)
next
  case (SStruct vs)
  then show ?case using sized_seq [of vs HStruct] by (auto simp: sized_enc_def)
next
  case (SVariant i v)
  show ?case
  proof (unfold sized_enc_def, intro impI)
    assume l: "bulk (SVariant i v) < 256 ^ 4"
    with SVariant obtain b where "enc postcard_fmt v = Some b" "length b \<le> bulk v" by (auto simp: sized_enc_def)
    with l sized_hdr [of i "enc postcard_fmt v" b "bulk v" HVariant]
    show "\<exists>b. enc postcard_fmt (SVariant i v) = Some b \<and> length b \<le> bulk (SVariant i v)" by auto
  qed
qed (auto simp: sized_enc_def length_varint_u)

lemma bulk_lists [simp]:
  "bulk (sv_array bs) = 1 + length bs" "bulk (sv_list SU8 bs) = 5 + length bs"
  by (simp_all add: sv_array_def sv_list_def comp_def sum_list_triv)

lemma fmt_to_bytes_bulk:
  assumes "bulk v \<le> MAX_WIRE_MESSAGE_SIZE"
  obtains b where "fmt_to_bytes postcard_fmt v = Inr b" "length b \<le> MAX_WIRE_MESSAGE_SIZE"
proof -
  have "bulk v < 256 ^ 4" using assms by (simp add: MAX_WIRE_MESSAGE_SIZE_def)
  then obtain b where "enc postcard_fmt v = Some b" "length b \<le> bulk v"
    using enc_bulk [of v] unfolding sized_enc_def by blast
  with assms show ?thesis by (intro that [of b]) (simp_all add: fmt_to_bytes_def)
qed

lemma chunk_encode_bulk:
  assumes "bulk (sv_ChunkMessage m) \<le> MAX_WIRE_MESSAGE_SIZE"
  obtains b where "chunk_encode (fmt_to_bytes postcard_fmt) m = Inr b" "length b \<le> MAX_WIRE_MESSAGE_SIZE"
proof -
  obtain b where b: "fmt_to_bytes postcard_fmt (sv_ChunkMessage m) = Inr b" "length b \<le> MAX_WIRE_MESSAGE_SIZE"
    by (rule fmt_to_bytes_bulk [OF assms])
  then show ?thesis by (intro that [of b]) (simp_all add: chunk_encode_def)
qed

lemma discovery_encode_bulk:
  assumes "bulk (sv_DiscoveryMessage m) \<le> MAX_WIRE_MESSAGE_SIZE"
  obtains b where "discovery_encode (fmt_to_bytes postcard_fmt) m = Inr b" "length b \<le> MAX_WIRE_MESSAGE_SIZE"
proof -
  obtain b where b: "fmt_to_bytes postcard_fmt (sv_DiscoveryMessage m) = Inr b" "length b \<le> MAX_WIRE_MESSAGE_SIZE"
    by (rule fmt_to_bytes_bulk [OF assms])
  then show ?thesis by (intro that [of b]) (simp_all add: discovery_encode_def)
qed


lemma signal_encode_bulk:
  assumes "bulk (sv_SignalRelayMessage m) \<le> MAX_WIRE_MESSAGE_SIZE"
  obtains b where "signal_encode (fmt_to_bytes postcard_fmt) m = Inr b" "length b \<le> MAX_WIRE_MESSAGE_SIZE"
proof -
  obtain b where b: "fmt_to_bytes postcard_fmt (sv_SignalRelayMessage m) = Inr b" "length b \<le> MAX_WIRE_MESSAGE_SIZE"
    by (rule fmt_to_bytes_bulk [OF assms])
  then show ?thesis by (intro that [of b]) (simp_all add: signal_encode_def)
qed

section \<open>The service\<close>

text \<open>What the node answers a message, and its bytes; a request it cannot read is answered by nothing.\<close>

record test_world =
  tw_store :: "byte list \<rightharpoonup> byte list"
  tw_near :: "byte list \<Rightarrow> PeerConnectInfo list"
  tw_quote :: "byte list \<Rightarrow> Quote"
  tw_stored :: bool

fun test_answer :: "test_world \<Rightarrow> ChunkMessageBody \<Rightarrow> ChunkMessageBody" where
  "test_answer t (GetRequest r) = GetResponse (case tw_store t (get_address r) of
       Some b \<Rightarrow> GetSuccess (get_address r) b | None \<Rightarrow> GetNotFound (get_address r))"
| "test_answer t (QuoteRequest r) = QuoteResponse (QuoteSuccess
       (projr (encode_quote (fmt_to_bytes msgpack_fmt) (tw_quote t (quote_address r)))) (tw_stored t) None)"
| "test_answer t (PutRequest r) = PutResponse (PutSuccess (put_address r))"
| "test_answer t _ = PutResponse (PutError (Internal []))"

fun test_find :: "test_world \<Rightarrow> DiscoveryBody \<Rightarrow> DiscoveryBody" where
  "test_find t (ClosestRequest r) = ClosestResponse \<lparr>cpr_peers = tw_near t (cpr_address r)\<rparr>"
| "test_find t _ = DiscoveryError []"

fun test_relay :: "SignalRelayBody \<Rightarrow> SignalRelayBody" where
  "test_relay (SignalRequest r) = SignalResponse \<lparr>sdp_answer = ''v=0''\<rparr>"
| "test_relay _ = SignalError []"

definition test_serve :: "test_world \<Rightarrow> byte \<Rightarrow> byte list \<Rightarrow> byte list" where
  "test_serve t tag req =
     (if tag = PROTO_CHUNK
      then (case chunk_decode (fmt_from_bytes postcard_fmt) req of
              Inr m \<Rightarrow> projr (chunk_encode (fmt_to_bytes postcard_fmt) (m\<lparr>body := test_answer t (body m)\<rparr>))
            | Inl _ \<Rightarrow> [])
      else if tag = PROTO_SIGNAL
      then (case signal_decode (fmt_from_bytes postcard_fmt) req of
              Inr m \<Rightarrow> projr (signal_encode (fmt_to_bytes postcard_fmt) (m\<lparr>sm_body := test_relay (sm_body m)\<rparr>))
            | Inl _ \<Rightarrow> [])
      else (case discovery_decode (fmt_from_bytes postcard_fmt) req of
              Inr m \<Rightarrow> projr (discovery_encode (fmt_to_bytes postcard_fmt) (m\<lparr>dm_body := test_find t (dm_body m)\<rparr>))
            | Inl _ \<Rightarrow> []))"

definition test_session :: "test_world \<Rightarrow> node_session" where
  "test_session t = \<lparr>ns_ct = replicate 1088 1, ns_pk = replicate 1952 1, ns_sig = replicate 3309 2,
     ns_key = replicate 32 1, ns_serve = test_serve t\<rparr>"

lemma test_session_sel [simp]:
  "ns_ct (test_session t) = replicate 1088 1" "ns_pk (test_session t) = replicate 1952 1"
  "ns_sig (test_session t) = replicate 3309 2" "ns_key (test_session t) = replicate 32 1"
  "ns_serve (test_session t) = test_serve t"
  by (simp_all add: test_session_def)

lemma test_answers_chunk:
  assumes "bulk (sv_ChunkMessage m) \<le> MAX_WIRE_MESSAGE_SIZE" and "wf_ChunkMessage m"
    and "bulk (sv_ChunkMessage (m\<lparr>body := test_answer t (body m)\<rparr>)) \<le> MAX_WIRE_MESSAGE_SIZE"
    and "wf_ChunkMessage (m\<lparr>body := test_answer t (body m)\<rparr>)"
  shows "answers_chunk test_serde (test_session t) m (m\<lparr>body := test_answer t (body m)\<rparr>)"
proof -
  obtain req where req: "chunk_encode (fmt_to_bytes postcard_fmt) m = Inr req" "length req \<le> MAX_WIRE_MESSAGE_SIZE"
    by (rule chunk_encode_bulk [OF assms(1)])
  obtain resp where resp: "chunk_encode (fmt_to_bytes postcard_fmt) (m\<lparr>body := test_answer t (body m)\<rparr>) = Inr resp"
    "length resp \<le> MAX_WIRE_MESSAGE_SIZE"
    by (rule chunk_encode_bulk [OF assms(3)])
  have "chunk_decode (fmt_from_bytes postcard_fmt) req = Inr m"
    by (rule chunk_decode_encode [OF postcard.serde_codec_axioms assms(2) req])
  then have "test_serve t PROTO_CHUNK req = resp" by (simp add: test_serve_def resp(1))
  with req resp assms(4) show ?thesis by (simp add: answers_chunk_def)
qed

lemma test_answers_discovery:
  assumes "bulk (sv_DiscoveryMessage m) \<le> MAX_WIRE_MESSAGE_SIZE" and "wf_DiscoveryMessage m"
    and "bulk (sv_DiscoveryMessage (m\<lparr>dm_body := test_find t (dm_body m)\<rparr>)) \<le> MAX_WIRE_MESSAGE_SIZE"
    and "wf_DiscoveryMessage (m\<lparr>dm_body := test_find t (dm_body m)\<rparr>)"
  shows "answers_discovery test_serde (test_session t) m (m\<lparr>dm_body := test_find t (dm_body m)\<rparr>)"
proof -
  obtain req where req: "discovery_encode (fmt_to_bytes postcard_fmt) m = Inr req" "length req \<le> MAX_WIRE_MESSAGE_SIZE"
    by (rule discovery_encode_bulk [OF assms(1)])
  obtain resp where resp: "discovery_encode (fmt_to_bytes postcard_fmt) (m\<lparr>dm_body := test_find t (dm_body m)\<rparr>) = Inr resp"
    "length resp \<le> MAX_WIRE_MESSAGE_SIZE"
    by (rule discovery_encode_bulk [OF assms(3)])
  have "discovery_decode (fmt_from_bytes postcard_fmt) req = Inr m"
    by (rule discovery_decode_encode [OF postcard.serde_codec_axioms assms(2) req(1)])
  then have "test_serve t PROTO_DISCOVERY req = resp"
    by (simp add: test_serve_def resp(1) PROTO_CHUNK_def PROTO_DISCOVERY_def PROTO_SIGNAL_def)
  with req resp assms(4) show ?thesis by (simp add: answers_discovery_def)
qed

lemma test_stores:
  assumes "\<forall>a b. tw_store t a = Some b \<longrightarrow> length b \<le> 4 * 1024 * 1024"
  shows "stores test_serde (test_session t) (tw_store t)"
proof (unfold stores_def, intro allI impI)
  fix i :: u64 and a :: "byte list" assume a: "length a = 32"
  let ?m = "\<lparr>request_id = i, body = GetRequest \<lparr>get_address = a\<rparr>\<rparr>"
  have "answers_chunk test_serde (test_session t) ?m (?m\<lparr>body := test_answer t (body ?m)\<rparr>)"
    using a assms [rule_format, of a]
    by (intro test_answers_chunk; cases "tw_store t a")
      (simp_all add: MAX_WIRE_MESSAGE_SIZE_def wf_ChunkMessage_def sv_ChunkMessage_def sv_ChunkGetRequest_def)
  then show "\<exists>j. answers_chunk test_serde (test_session t) ?m
     \<lparr>request_id = j, body = GetResponse (case tw_store t a of Some b \<Rightarrow> GetSuccess a b | None \<Rightarrow> GetNotFound a)\<rparr>"
    by (cases "tw_store t a") auto
qed

lemma test_discovers:
  assumes "\<forall>a. list_all wf_PeerConnectInfo (tw_near t a)"
    and "\<forall>a. sum_list (map (bulk \<circ> sv_PeerConnectInfo) (tw_near t a)) \<le> 4 * 1024 * 1024"
  shows "discovers test_serde (test_session t) (tw_near t)"
proof (unfold discovers_def, intro allI impI)
  fix i :: u64 and a :: "byte list" assume a: "length a = 32"
  let ?m = "\<lparr>dm_request_id = i, dm_body = ClosestRequest \<lparr>cpr_address = a\<rparr>\<rparr>"
  have "answers_discovery test_serde (test_session t) ?m (?m\<lparr>dm_body := test_find t (dm_body ?m)\<rparr>)"
    using a assms
    by (intro test_answers_discovery)
      (auto simp: MAX_WIRE_MESSAGE_SIZE_def wf_DiscoveryMessage_def sv_DiscoveryMessage_def sv_ClosestPeersRequest_def
        sv_ClosestPeersResponse_def sv_list_def dest: spec [of _ a])
  then show "\<exists>j. answers_discovery test_serde (test_session t) ?m
     \<lparr>dm_request_id = j, dm_body = ClosestResponse \<lparr>cpr_peers = tw_near t a\<rparr>\<rparr>"
    by auto
qed


lemma test_relays:
  assumes "length target = 32" and "is_utf8 offer" and "length offer \<le> 1000000"
  shows "relays test_serde (test_session t) target offer ''v=0''"
proof (unfold relays_def, intro allI)
  fix i :: u64
  let ?m = "\<lparr>sm_request_id = i, sm_body = SignalRequest \<lparr>target_peer_id = target, sdp_offer = offer\<rparr>\<rparr>"
  let ?r = "?m\<lparr>sm_body := test_relay (sm_body ?m)\<rparr>"
  have "bulk (sv_SignalRelayMessage ?m) \<le> MAX_WIRE_MESSAGE_SIZE" "bulk (sv_SignalRelayMessage ?r) \<le> MAX_WIRE_MESSAGE_SIZE"
    using assms by (simp_all add: MAX_WIRE_MESSAGE_SIZE_def sv_SignalRelayMessage_def sv_SignalRelayRequest_def sv_SignalRelayResponse_def)
  with signal_encode_bulk obtain req resp where
    req: "signal_encode (fmt_to_bytes postcard_fmt) ?m = Inr req" "length req \<le> MAX_WIRE_MESSAGE_SIZE" and
    resp: "signal_encode (fmt_to_bytes postcard_fmt) ?r = Inr resp" "length resp \<le> MAX_WIRE_MESSAGE_SIZE" by metis
  have wf: "wf_SignalRelayMessage ?m" "wf_SignalRelayMessage ?r"
    using assms by (simp_all add: wf_SignalRelayMessage_def ascii_is_utf8 is_ascii_def)
  have "signal_decode (fmt_from_bytes postcard_fmt) req = Inr ?m"
    by (rule signal_decode_encode [OF postcard.serde_codec_axioms wf(1) req(1)])
  then have "test_serve t PROTO_SIGNAL req = resp"
    using resp(1) by (simp add: test_serve_def PROTO_CHUNK_def PROTO_SIGNAL_def)
  with req resp wf(2) have "answers_signal test_serde (test_session t) ?m ?r" by (simp add: answers_signal_def)
  then show "\<exists>j. answers_signal test_serde (test_session t) ?m \<lparr>sm_request_id = j, sm_body = SignalResponse \<lparr>sdp_answer = ''v=0''\<rparr>\<rparr>"
    by auto
qed

section \<open>The channel\<close>

text \<open>The frames at the front of a byte sequence, at most \<open>n\<close> of them.\<close>

primrec frames_of :: "nat \<Rightarrow> byte list \<Rightarrow> byte list list" where
  "frames_of 0 bs = []"
| "frames_of (Suc n) bs =
     (case parse_frame bs of (Inr (Some p), r) \<Rightarrow> p # frames_of n r | _ \<Rightarrow> [])"

lemma frames_of_encoded:
  "list_all frame_payload frames \<Longrightarrow> length frames \<le> n \<Longrightarrow> frames_of n (concat (map encode_frame frames)) = frames"
proof (induction frames arbitrary: n)
  case Nil
  then show ?case by (cases n) (simp_all add: parse_frame_def)
next
  case (Cons p frames)
  then obtain m where "n = Suc m" "length frames \<le> m" by (cases n) auto
  with Cons show ?case by (simp add: parse_frame_encoded)
qed

definition test_link :: "test_world \<Rightarrow> link" where
  "test_link t = \<lparr>
     delivers = (\<lambda>ms. map ArrayBuffer (concat (map (\<lambda>f. chunks 3 (encode_frame f))
       (node_output test_crates (test_session t) (frames_of (length (concat ms)) (concat ms)))))),
     hangs_up = (\<lambda>_. False), send_fault = (\<lambda>_. None)\<rparr>"

lemma length_frames: "length frames \<le> length (concat (map encode_frame frames))"
  by (induction frames) simp_all

lemma map_filter_buffers: "List.map_filter on_message (map ArrayBuffer ms) = ms"
  by (induction ms) simp_all

lemma test_link_honest: "honest_link test_crates (test_session t) (test_link t)"
proof -
  have "concat (chunks 3 x) = x" for x :: "byte list" by (simp add: concat_chunks)
  moreover have "List.map_filter on_message (delivers (test_link t) ms)
      = concat (map (\<lambda>f. chunks 3 (encode_frame f)) (node_output test_crates (test_session t) frames))"
    if "list_all frame_payload frames" "concat ms = concat (map encode_frame frames)" for frames ms
    using that frames_of_encoded [OF that(1) length_frames]
    by (simp add: test_link_def map_filter_buffers)
  ultimately show ?thesis
    unfolding honest_link_def by (intro conjI exI [of _ "chunks 3"]) (simp_all add: test_link_def)
qed

lemma test_accepts: "accepts_draw test_crates (test_session t) draw"
  by (simp add: accepts_draw_def accept_sizes_def tunnel_sizes from_shared_secret_def)

definition test_peer_id :: "byte list" where "test_peer_id = replicate 32 1"

lemma test_node_id: "blake3_hash test_crates (ns_pk (test_session t)) = test_peer_id"
proof -
  have "be_val (replicate n b @ bs) mod 256 ^ length bs = be_val bs" for n and b :: byte and bs
    using be_val_bound [of bs] by (induction n) (simp_all add: be_val_Cons power_add mod_add_eq [symmetric] mod_mult_eq [symmetric])
  from this [of 1920 1 "replicate 32 1"]
  have "be_val (replicate 1952 1) mod 256 ^ 32 = be_val (replicate 32 1) mod 256 ^ 32"
    by (simp flip: replicate_add)
  then have "be_bytes 32 (be_val (replicate 1952 1)) = be_bytes 32 (be_val (replicate 32 1))"
    by (intro be_val_inj [THEN iffD1]) (simp_all only: length_be_bytes be_val_bytes mod_mod_trivial)
  then show ?thesis using be_bytes_val [of "replicate 32 1"] by (simp add: test_peer_id_def)
qed

text \<open>Every connection of this world is one to this node.\<close>

definition test_pc :: "test_world \<Rightarrow> peer_connection" where
  "test_pc t = \<lparr>pc_new = (\<lambda>_. Inr ()), pc_random = Inr [1, 2],
     pc_create_offer = Ready (Inr (''a=ice-ufrag:x'' @ crlf @ ''a=ice-pwd:y'' @ crlf)),
     pc_set_local = (\<lambda>_. Ready (Inr ())), pc_ice_state = (\<lambda>_ _. ''Complete''), pc_ice_events = (\<lambda>_. []),
     pc_local_description = (\<lambda>l _. Some l), pc_set_remote = (\<lambda>_ _. Ready (Inr ())),
     pc_ready_state = (\<lambda>_ _ _. ''Open''), pc_channel_event = (\<lambda>_ _. None), pc_link = (\<lambda>_ _. test_link t)\<rparr>"

lemma test_dial:
  assumes "expected \<in> {None, Some test_peer_id}" and "n < unat MAX_SEQ"
  shows "\<exists>c. conn_connect test_crates (test_pc t) draw ip port fp expected = Ready (Inr c)
     \<and> peer_id c = test_peer_id \<and> synced test_crates (test_session t) n c"
proof -
  have m: "\<exists>s. munge_offer (''a=ice-ufrag:x'' @ crlf @ ''a=ice-pwd:y'' @ crlf) u = Inr s" for u
    by (simp add: munge_offer_def crlf_def strip_suffix_char_def starts_with_def)
  have "fst (transport_connect test_crates (test_pc t) ip port fp ()) = Ready (Inr (from_open (test_link t)))"
    using m [of "hex_enc [1, 2]"]
    by (auto simp: transport_connect_def test_pc_def js_future_def wait_for_open_def Let_def await_def lift_res_def
        ok_def)
  then have "conn_connect test_crates (test_pc t) draw ip port fp expected
      = establish test_crates draw expected (from_open (test_link t))"
    by (auto simp: conn_connect_def split: prod.splits)
  with establish_synced [OF test_crates_kem test_link_honest test_accepts _ assms(2), of expected t draw] assms(1)
  show ?thesis unfolding test_node_id by simp
qed

end
