(* ===== verification/Test_World.thy ===== *)
theory Test_World
  imports Network Test_Node
begin

text \<open>
  A whole environment for the witnesses: one honest node (\<open>Test_Node\<close>) behind every address, and a small
  self-encryption with root maps and child maps.
\<close>

section \<open>Self-encryption\<close>

text \<open>
  A data map is a flag, set for a child map, and a list of chunk names; it is serialized as the names and
  the flag. A file is one chunk; shrinking wraps the serialized map into one chunk.
\<close>

type_synonym mini_map = "bool \<times> byte list list"

definition mini_to_vec :: "mini_map \<Rightarrow> byte list" where
  "mini_to_vec m = concat (snd m) @ [if fst m then 1 else 0]"

definition mini_from_slice :: "byte list \<Rightarrow> mini_map result" where
  "mini_from_slice bs = (if bs = [] then Inl ''empty data map'' else Inr (last bs = 1, chunks 32 (butlast bs)))"

fun mini_root :: "mini_map \<Rightarrow> (byte list \<Rightarrow> byte list result) \<Rightarrow> mini_map result" where
  "mini_root (False, names) f = Inr (False, names)"
| "mini_root (True, names) f =
     res_bind (collect_results (map f names)) (\<lambda>cs. res_bind (mini_from_slice (concat cs)) (\<lambda>m.
       if fst m then Inl ''nested child map'' else Inr m))"

definition mini_hash :: "byte list \<Rightarrow> byte list" where
  "mini_hash bs = be_bytes 32 (be_val bs)"

definition mini_se :: "mini_map self_encryption" where
  "mini_se = \<lparr>
     verify_chunk = (\<lambda>a bs. if mini_hash bs = a then Inr bs else Inl ''hash mismatch''),
     data_map_from_slice = mini_from_slice,
     data_map_to_vec = (\<lambda>m. Inr (mini_to_vec m)),
     map_infos = snd,
     map_is_child = fst,
     get_root_data_map = mini_root,
     se_decrypt = (\<lambda>m cs. Inr (concat cs)),
     se_encrypt = (\<lambda>d. Inr ((False, [mini_hash d]), [d])),
     shrink_data_map = (\<lambda>m. Inr ((True, [mini_hash (mini_to_vec m)]), [(mini_hash (mini_to_vec m), mini_to_vec m)]))\<rparr>"

lemma mini_se_sel [simp]:
  "verify_chunk mini_se a bs = (if mini_hash bs = a then Inr bs else Inl ''hash mismatch'')"
  "data_map_from_slice mini_se = mini_from_slice"
  "data_map_to_vec mini_se m = Inr (mini_to_vec m)"
  "map_infos mini_se = snd" "map_is_child mini_se = fst" "get_root_data_map mini_se = mini_root"
  "se_decrypt mini_se m cs = Inr (concat cs)"
  "se_encrypt mini_se d = Inr ((False, [mini_hash d]), [d])"
  "shrink_data_map mini_se m = Inr ((True, [mini_hash (mini_to_vec m)]), [(mini_hash (mini_to_vec m), mini_to_vec m)])"
  by (simp_all add: mini_se_def)

lemma length_mini_hash [simp]: "length (mini_hash bs) = 32"
  by (simp add: mini_hash_def)

lemma test_hash [simp]: "blake3_hash test_crates bs = mini_hash bs"
  by (simp add: mini_hash_def)

lemma mini_root_root: "mini_root m f = Inr r \<Longrightarrow> \<not> fst r"
  by (induction m f rule: mini_root.induct) (auto simp: res_iff split: if_splits)

lemma mini_se_correct:
  "verify_correct test_crates mini_se" "verify_complete test_crates mini_se" "root_correct mini_se"
  by (auto simp: verify_correct_def verify_complete_def root_correct_def mini_root_root simp del: test_crates_sel)

lemma chunks_hash [simp]: "chunks 32 (mini_hash bs) = [mini_hash bs]"
  using chunks_step [of 32 "mini_hash bs"] length_mini_hash [of bs] by fastforce

section \<open>The environment\<close>

definition test_env :: "test_world \<Rightarrow> (nat \<Rightarrow> pay_reply) \<Rightarrow> mini_map env" where
  "test_env t pays = \<lparr>e_crates = test_crates, e_serde = test_serde, e_se = mini_se, e_rtc = (\<lambda>_. test_pc t), e_pay = pays\<rparr>"

lemma test_env_sel [simp]:
  "e_crates (test_env t p) = test_crates" "e_serde (test_env t p) = test_serde" "e_se (test_env t p) = mini_se"
  "e_rtc (test_env t p) k = test_pc t" "e_pay (test_env t p) = p"
  by (simp_all add: test_env_def)

text \<open>Chunks of moderate size under their hashes, and peers that are the node itself.\<close>

definition test_world_ok :: "test_world \<Rightarrow> bool" where
  "test_world_ok t \<longleftrightarrow> (\<forall>a b. tw_store t a = Some b \<longrightarrow> length b \<le> 4 * 1024 * 1024 \<and> mini_hash b = a)
     \<and> (\<forall>a. list_all (\<lambda>p. wf_PeerConnectInfo p \<and> pci_peer_id p = test_peer_id) (tw_near t a))
     \<and> (\<forall>a. sum_list (map (bulk \<circ> sv_PeerConnectInfo) (tw_near t a)) \<le> 4 * 1024 * 1024)"

lemma test_world_serves:
  assumes "test_world_ok t"
  shows "stores test_serde (test_session t) (tw_store t)" "discovers test_serde (test_session t) (tw_near t)"
    "content_addressed test_crates (tw_store t)"
  using assms by (auto intro!: test_stores test_discovers simp: test_world_ok_def content_addressed_def list_all_iff
      simp del: test_crates_sel)

lemma test_honest_peers:
  assumes "test_world_ok t" and "serves test_peer_id (test_session t)"
  shows "honest_peers (test_env t p) serves (tw_near t)"
proof -
  have "\<exists>c s. conn_connect test_crates (test_pc t) k (pci_ip peer) (pci_port peer) fp (Some (pci_peer_id peer)) = Ready (Inr c)
      \<and> serves (pci_peer_id peer) s \<and> synced test_crates s (unat MAX_SEQ - 1) c"
    if "peer \<in> set (tw_near t a)" for a k peer fp
  proof -
    have id: "pci_peer_id peer = test_peer_id" using assms(1) that by (auto simp: test_world_ok_def list_all_iff)
    have "unat MAX_SEQ - 1 < unat MAX_SEQ" by (simp add: MAX_SEQ_def)
    from test_dial [of "Some test_peer_id", OF _ this, of t k] assms(2) show ?thesis unfolding id by blast
  qed
  then show ?thesis by (simp add: honest_peers_def test_crates_aead test_crates_seals test_serde_codecs)
qed

lemma test_honest_net: "test_world_ok t \<Longrightarrow> honest_net (test_env t p) (\<lambda>_. tw_store t) (tw_near t)"
  using test_world_serves [of t] test_honest_peers [of t "chunk_nodes test_serde (\<lambda>_. tw_store t)" p]
  by (simp add: honest_net_def chunk_nodes_def)

lemma test_in_service:
  assumes "test_world_ok t" and "serves test_peer_id (test_session t)" and "n < unat MAX_SEQ"
  shows "\<exists>w. client_connect (test_env t p) ip port fp [] = Ready (Inr w) \<and> in_service (test_env t p) serves (tw_near t) n w
     \<and> pay_calls w = []"
proof -
  obtain c where c: "conn_connect test_crates (test_pc t) 0 ip port fp None = Ready (Inr c)"
    "peer_id c = test_peer_id" "synced test_crates (test_session t) n c"
    using test_dial [of None n t 0 ip port fp] assms(3) by auto
  let ?w = "\<lparr>conns = [c], bootstrap = 0, pool = [(test_peer_id, 0)], chunks_fetched = 0, dials = 1, pay_calls = []\<rparr>"
  have "serving (test_env t p) serves (tw_near t) (\<lambda>_. test_session t) n ?w"
    using c(3) assms test_world_serves(2) by (auto simp: serving_def split: if_splits)
  moreover have "client_connect (test_env t p) ip port fp [] = Ready (Inr ?w)"
    using c by (simp add: client_connect_def parse_opt_peer_id_def)
  ultimately show ?thesis by (auto simp: in_service_def)
qed

end
