(* ===== verification/Sessions.thy ===== *)
theory Sessions
  imports Test_World
begin

text \<open>
  The properties of sessions: with an honest node a session is its service, and whatever the nodes do, the
  client's pool holds authenticated sessions under their own identities.
\<close>

section \<open>Asking a node\<close>

text \<open>Requests made one after the other on a connection, each a protocol tag and a payload.\<close>

fun ask_all :: "crates \<Rightarrow> (byte \<times> byte list) list \<Rightarrow> NodeConnection \<Rightarrow> byte list result poll list \<times> NodeConnection" where
  "ask_all cr [] c = ([], c)"
| "ask_all cr ((tag, req) # reqs) c =
     (case round_trip cr tag req c of (r, c1) \<Rightarrow> (case ask_all cr reqs c1 of (rs, c2) \<Rightarrow> (r # rs, c2)))"

lemma ask_all_synced:
  assumes "aead_correct cr" and "aead_seals cr"
  shows "list_all (\<lambda>(tag, req). length req \<le> MAX_WIRE_MESSAGE_SIZE \<and> length (ns_serve s tag req) \<le> MAX_WIRE_MESSAGE_SIZE) reqs
     \<Longrightarrow> synced cr s (length reqs) c \<Longrightarrow>
     fst (ask_all cr reqs c) = map (\<lambda>(tag, req). Ready (Inr (ns_serve s tag req))) reqs"
proof (induction reqs arbitrary: c)
  case (Cons r reqs)
  obtain tag req where r: "r = (tag, req)" by force
  with Cons.prems round_trip_synced [OF assms, of s "length reqs" c req tag]
  obtain c' where c': "round_trip cr tag req c = (Ready (Inr (ns_serve s tag req)), c')" "synced cr s (length reqs) c'"
    by auto
  with Cons r show ?case by (auto split: prod.splits dest: Cons.IH [rotated])
qed simp

text \<open> C14. With an honest node the client reaches an authenticated session and then gets from it what the
  node's service answers: \<open>establish\<close> returns a connection that belongs to the node's key, and every one of
  up to \<open>2^32 - 3\<close> requests in a row returns the answer of the service to that very request, however the
  channel cuts the bytes. Nothing blocks and no request is refused.\<close>
theorem honest_session_serves:
  assumes "kem_correct cr" and "aead_correct cr" and "aead_seals cr"
    and "honest_link cr s l" and "accepts_draw cr s draw" and "expected \<in> {None, Some (blake3_hash cr (ns_pk s))}"
    and "length reqs \<le> 2 ^ 32 - 3"
    and "list_all (\<lambda>(tag, req). length req \<le> MAX_WIRE_MESSAGE_SIZE \<and> length (ns_serve s tag req) \<le> MAX_WIRE_MESSAGE_SIZE) reqs"
  shows "\<exists>c. establish cr draw expected (from_open l) = Ready (Inr c) \<and> peer_id c = blake3_hash cr (ns_pk s)
     \<and> fst (ask_all cr reqs c) = map (\<lambda>(tag, req). Ready (Inr (ns_serve s tag req))) reqs"
proof -
  have "length reqs < unat MAX_SEQ" using assms(7) by (simp add: MAX_SEQ_def)
  from establish_synced [OF assms(1,4,5,6) this] ask_all_synced [OF assms(2,3,8)] show ?thesis by blast
qed

text \<open>A node without peers, asked twice for the peers near an address.\<close>

definition lonely_world :: test_world where
  "lonely_world = \<lparr>tw_store = Map.empty, tw_near = (\<lambda>_. []), tw_quote = (\<lambda>_. signed_quote), tw_stored = False\<rparr>"

lemma lonely_world_ok: "test_world_ok lonely_world"
  by (simp add: test_world_ok_def lonely_world_def)

lemma honest_session_serves_witness:
  "\<exists>c req. establish test_crates 0 None (from_open (test_link lonely_world)) = Ready (Inr c) \<and> peer_id c = test_peer_id
     \<and> fst (ask_all test_crates [(PROTO_DISCOVERY, req), (PROTO_DISCOVERY, req)] c)
       = [Ready (Inr (test_serve lonely_world PROTO_DISCOVERY req)), Ready (Inr (test_serve lonely_world PROTO_DISCOVERY req))]"
proof -
  have "length test_peer_id = 32" by (simp add: test_peer_id_def)
  with test_world_serves(2) [OF lonely_world_ok] obtain req where "length req \<le> MAX_WIRE_MESSAGE_SIZE"
    "length (test_serve lonely_world PROTO_DISCOVERY req) \<le> MAX_WIRE_MESSAGE_SIZE"
    unfolding discovers_def answers_discovery_def test_session_sel by blast
  with honest_session_serves [OF test_crates_kem test_crates_aead test_crates_seals test_link_honest test_accepts,
      of None lonely_world "[(PROTO_DISCOVERY, req), (PROTO_DISCOVERY, req)]" 0]
  show ?thesis unfolding test_node_id by auto
qed

section \<open>The pool\<close>

text \<open>Whatever a page does with a client, whatever the network answers and however fetches interleave, the client's connections
  are sessions that a handshake authenticated, each still under the identity and key of that handshake; the
  pool has at most one entry for a peer, and the entry is a session with that very peer.\<close>
lemma client_pool_authentic:
  assumes "client_run env w"
  shows "list_all (authenticated (e_crates env)) (conns w) \<and> bootstrap w < length (conns w) \<and> distinct (map fst (pool w))
     \<and> (\<forall>pid h. map_of (pool w) pid = Some h \<longrightarrow> h < length (conns w) \<and> peer_id (conns w ! h) = pid)"
  using client_run_ok [OF assms] by (simp add: client_ok_def list_all_length)

lemma client_pool_authentic_witness:
  "\<exists>w. client_run (test_env lonely_world (\<lambda>_. NeverSettles)) w \<and> list_all (authenticated test_crates) (conns w)"
proof -
  obtain w where "client_connect (test_env lonely_world (\<lambda>_. NeverSettles)) [] 0 [] [] = Ready (Inr w)"
    using test_in_service [OF lonely_world_ok, of "\<lambda>_ _. True" 0 "\<lambda>_. NeverSettles" "[]" 0 "[]"] by (auto simp: MAX_SEQ_def)
  then have run: "client_run (test_env lonely_world (\<lambda>_. NeverSettles)) w" by (rule client_run.connected)
  from client_pool_authentic [OF this] run show ?thesis by auto
qed

section \<open>Types\<close>

lemma authenticated_peer_id:
  assumes "authenticated cr c"
  shows "\<exists>pk. peer_id c = blake3_hash cr pk"
proof -
  obtain draw expected t c0 where c0: "establish cr draw expected t = Ready (Inr c0)" "peer_id c = peer_id c0"
    using assms unfolding authenticated_def by blast
  from c0(1) [unfolded establish_Inr start_Inr finish_iff] have "\<exists>pk. peer_id c0 = blake3_hash cr pk" by force
  with c0(2) show ?thesis by simp
qed

text \<open>What the requests accept is of the wire shape.\<close>

lemma chunk_round_trip_wf:
  assumes "codecs sc" and "chunk_round_trip cr sc request c = (Ready (Inr response), c')"
  shows "wf_ChunkMessage response"
  using assms chunk_decode_wf
  by (fastforce simp: chunk_round_trip_def codecs_def await_def lift_res_def split: poll.splits sum.splits prod.splits)

lemma closest_peers_wf:
  assumes "codecs sc" and "closest_peers cr sc address c = (Ready (Inr peers), c')"
  shows "list_all wf_PeerConnectInfo peers"
proof -
  obtain plaintext m r where "discovery_decode (postcard_from_bytes sc) plaintext = Inr m"
    "dm_body m = ClosestResponse r" "peers = cpr_peers r"
    using assms(2) by (auto simp: closest_peers_def closest_peers_as_def Let_def await_def lift_res_def ok_def fail_def
        split: poll.splits sum.splits prod.splits DiscoveryBody.splits)
  with assms(1) discovery_decode_wf show ?thesis by (fastforce simp: codecs_def wf_DiscoveryMessage_def)
qed



end
