(* ===== verification/Interleaving.thy ===== *)
theory Interleaving
  imports Network
begin

text \<open>
  Downloads under every schedule of their futures (\<open>Futures\<close>): what they deliver over any network, and that over
  honest nodes no future hangs and none of the results depends on the schedule.
\<close>

section \<open>Any network\<close>

lemma rounds_any_retrieving:
  "rounds_any env r w x w' \<Longrightarrow> retrieving (e_crates env) (e_se env) a r \<Longrightarrow> x = Inr r' \<Longrightarrow>
     retrieving (e_crates env) (e_se env) a r'"
proof (induction rule: rounds_any.induct)
  case (another r w fetched w1 r1 w2 r2 x w3)
  have "retrieving (e_crates env) (e_se env) a r2"
    by (rule retrieving.advanced [OF supply_fetched_retrieving [OF another(3) another(7)] another(4)])
  with another(6,8) show ?case by blast
qed simp_all

lemma downloads_denotes:
  assumes "verify_correct (e_crates env) (e_se env)" and "root_correct (e_se env)"
    and "downloads env address_hex w (Inr out) w'"
  shows "\<exists>address. parse_address (e_crates env) address_hex = Inr address \<and> denotes (e_crates env) (e_se env) address out"
proof -
  obtain address where p: "parse_address (e_crates env) address_hex = Inr address"
    using assms(3) by (cases "parse_address (e_crates env) address_hex") (simp_all add: downloads_def)
  obtain y w1 where g: "get_direct env address (w\<lparr>chunks_fetched := 0\<rparr>) = (y, w1)" by force
  obtain map_bytes where y: "y = Ready (Inr map_bytes)"
    using assms(3) p g by (cases y) (auto simp: downloads_def split: sum.splits)
  obtain r where b: "retrieval_begin (e_se env) address map_bytes = Inr r"
    using assms(3) p g y by (cases "retrieval_begin (e_se env) address map_bytes") (auto simp: downloads_def)
  obtain x w2 where x: "rounds_any env r w2 x w'" "res_bind x (finish (e_crates env) (e_se env)) = Inr out"
    using assms(3) p g y b by (auto simp: downloads_def Let_def)
  then obtain r' where d: "rounds_any env r w2 (Inr r') w'" and f: "finish (e_crates env) (e_se env) r' = Inr out"
    by (cases x) simp_all
  have "retrieving (e_crates env) (e_se env) address r'"
    by (rule rounds_any_retrieving [OF d retrieving.begins [OF b] refl])
  with finish_denotes [OF _ assms(1,2) f] p show ?thesis by blast
qed

section \<open>An honest network\<close>

text \<open>
  A future is on course if it will return what \<open>net_fetch\<close> says after at most \<open>k\<close> more requests, whatever
  the others do meanwhile.
\<close>

fun on_course :: "'m env \<Rightarrow> (byte list \<Rightarrow> byte list \<rightharpoonup> byte list) \<Rightarrow> (byte list \<Rightarrow> PeerConnectInfo list)
    \<Rightarrow> (nat \<Rightarrow> node_session) \<Rightarrow> client \<Rightarrow> byte list \<Rightarrow> fetching \<Rightarrow> nat \<Rightarrow> bool" where
  "on_course env net near sess w a Discovering k \<longleftrightarrow> k = Suc (length (near a))"
| "on_course env net near sess w a (Asking i) k \<longleftrightarrow> k = Suc (length (near a))"
| "on_course env net near sess w a (Trying peers last_err) k \<longleftrightarrow> k = length peers \<and> set peers \<subseteq> set (near a)
     \<and> peers_fetch (e_crates env) net a peers last_err = net_fetch (e_crates env) net near a"
| "on_course env net near sess w a (Dialing d peer peers) k \<longleftrightarrow> k = Suc (length peers) \<and> set (peer # peers) \<subseteq> set (near a)
     \<and> peers_fetch (e_crates env) net a (peer # peers) [] = net_fetch (e_crates env) net near a"
| "on_course env net near sess w a (Requesting h peers) k \<longleftrightarrow> k = Suc (length peers) \<and> set peers \<subseteq> set (near a)
     \<and> (\<exists>peer. h < length (conns w) \<and> stores (e_serde env) (sess h) (net (pci_peer_id peer))
          \<and> peers_fetch (e_crates env) net a (peer # peers) [] = net_fetch (e_crates env) net near a)"
| "on_course env net near sess w a (Getting h i peers) k \<longleftrightarrow> k = Suc (length peers) \<and> set peers \<subseteq> set (near a)
     \<and> (\<exists>peer. h < length (conns w) \<and> stores (e_serde env) (sess h) (net (pci_peer_id peer))
          \<and> peers_fetch (e_crates env) net a (peer # peers) [] = net_fetch (e_crates env) net near a)"
| "on_course env net near sess w a (Fetched x) k \<longleftrightarrow> k = 0 \<and> x = net_fetch (e_crates env) net near a"
| "on_course env net near sess w a Hung k \<longleftrightarrow> False"

lemma on_course_mono:
  assumes "on_course env net near sess w a f k" and "length (conns w) \<le> length (conns w')"
    and "\<forall>h < length (conns w). sess' h = sess h"
  shows "on_course env net near sess' w' a f k"
  using assms by (cases f) auto

lemma peers_fetch_Cons:
  "peers_fetch cr net a (peer # peers) last_err =
     (case net (pci_peer_id peer) a of Some b \<Rightarrow> Inr b | None \<Rightarrow> peers_fetch cr net a peers (''not found: '' @ hex_encode cr a))"
  by (auto simp: peers_fetch_def split: option.split)

text \<open>One step, with \<open>n\<close> requests set aside for the others.\<close>

lemma request_on_course:
  assumes "holding env serves net near" and "length a = 32" and "on_course env net near sess w a (Getting h i peers) k"
    and "serving env serves near sess (k + n) w"
    and "fetch_step env a (Getting h i peers) w = (f', w')"
  shows "\<exists>k'. on_course env net near sess w' a f' k' \<and> serving env serves near sess (k' + n) w'
     \<and> length (conns w') = length (conns w)"
proof -
  obtain peer where p: "k = Suc (length peers)" "set peers \<subseteq> set (near a)" "h < length (conns w)"
    "stores (e_serde env) (sess h) (net (pci_peer_id peer))"
    "peers_fetch (e_crates env) net a (peer # peers) [] = net_fetch (e_crates env) net near a"
    using assms(3) by auto
  have sv: "serving env serves near sess (Suc (length peers + n)) w" using assms(4) p(1) by simp
  then have "synced (e_crates env) (sess h) (Suc (length peers + n)) (conns w ! h)" using p(3) by (simp add: serving_def)
  then obtain c where c: "get_verified_as (e_crates env) (e_serde env) i a (conns w ! h)
      = (Ready (lookup_result (e_crates env) (net (pci_peer_id peer)) a), c)"
    "synced (e_crates env) (sess h) (length peers + n) c"
    using get_verified_as_synced [OF _ _ _ _ p(4) _ assms(2)] assms(1) unfolding holding_def honest_peers_def by blast
  obtain w2 where w2: "on_conn h (get_verified_as (e_crates env) (e_serde env) i a) w
      = (Ready (lookup_result (e_crates env) (net (pci_peer_id peer)) a), w2)"
    "serving env serves near sess (length peers + n) w2"
    using serving_on_conn [where f = "get_verified_as (e_crates env) (e_serde env) i a", OF sv p(3) c] by blast
  have len: "length (conns w2) = length (conns w)" using w2(1) by (auto simp: on_conn_def split: prod.splits)
  show ?thesis
  proof (cases "net (pci_peer_id peer) a")
    case (Some b)
    with w2 assms(5) have "f' = Fetched (Inr b)" "w' = w2" by (simp_all add: lookup_result_def)
    with Some p(5) len serving_mono [OF w2(2), of n] show ?thesis by (intro exI [of _ 0]) (simp add: peers_fetch_Cons)
  next
    case None
    with w2 assms(5) have "f' = Trying peers (''not found: '' @ hex_encode (e_crates env) a)" "w' = w2"
      by (simp_all add: lookup_result_def)
    with None p(2,5) len w2(2) show ?thesis by (intro exI [of _ "length peers"]) (simp add: peers_fetch_Cons)
  qed
qed

lemma asking_on_course:
  assumes "holding env serves net near" and "length a = 32" and "on_course env net near sess w a (Asking i) k"
    and "serving env serves near sess (k + n) w" and "fetch_step env a (Asking i) w = (f', w')"
  shows "\<exists>k' sess'. on_course env net near sess' w' a f' k' \<and> serving env serves near sess' (k' + n) w'
     \<and> length (conns w) \<le> length (conns w') \<and> (\<forall>h < length (conns w). sess' h = sess h)"
proof -
  have sv: "serving env serves near sess (Suc (length (near a) + n)) w" using assms(3,4) by simp
  then have b: "bootstrap w < length (conns w)" and d: "discovers (e_serde env) (sess (bootstrap w)) near"
    and sy: "synced (e_crates env) (sess (bootstrap w)) (Suc (length (near a) + n)) (conns w ! bootstrap w)"
    by (simp_all add: serving_def)
  obtain c where c: "closest_peers_as (e_crates env) (e_serde env) i a (conns w ! bootstrap w) = (Ready (Inr (near a)), c)"
    "synced (e_crates env) (sess (bootstrap w)) (length (near a) + n) c"
    using closest_peers_as_synced [OF _ _ _ sy d assms(2)] assms(1) unfolding holding_def honest_peers_def by blast
  obtain w1 where w1: "on_bootstrap (closest_peers_as (e_crates env) (e_serde env) i a) w = (Ready (Inr (near a)), w1)"
    "serving env serves near sess (length (near a) + n) w1"
    using serving_on_conn [where f = "closest_peers_as (e_crates env) (e_serde env) i a", OF sv b c]
    by (auto simp: on_bootstrap_def)
  have len: "length (conns w1) = length (conns w)"
    using w1(1) by (auto simp: on_bootstrap_def on_conn_def split: prod.splits)
  have "w' = w1" "f' = (if near a = [] then Fetched (Inl ''discovery returned no peers'') else Trying (near a) [])"
    using assms(5) w1(1) by (simp_all split: if_splits)
  with w1(2) len show ?thesis
    by (intro exI [of _ "length (near a)"] exI [of _ sess]) (simp add: net_fetch_def)
qed

lemma dialing_on_course:
  assumes "holding env serves net near" and "length a = 32" and "on_course env net near sess w a (Dialing d peer peers) k"
    and "serving env serves near sess (k + n) w" and "fetch_step env a (Dialing d peer peers) w = (f', w')"
  shows "\<exists>k' sess'. on_course env net near sess' w' a f' k' \<and> serving env serves near sess' (k' + n) w'
     \<and> length (conns w) \<le> length (conns w') \<and> (\<forall>h < length (conns w). sess' h = sess h)"
proof -
  let ?h = "length (conns w)"
  have hp: "honest_peers env serves near" and p: "peer \<in> set (near a)" using assms(1,3) by (simp_all add: holding_def)
  obtain c s where c: "conn_connect (e_crates env) (e_rtc env d) d (pci_ip peer) (pci_port peer)
            (hex_encode (e_crates env) (pci_cert_hash peer)) (Some (pci_peer_id peer)) = Ready (Inr c)"
    and s: "serves (pci_peer_id peer) s" "synced (e_crates env) s (unat MAX_SEQ - 1) c"
    using hp p unfolding honest_peers_def by blast
  have w': "f' = Requesting ?h peers"
    "w' = w\<lparr>conns := conns w @ [c], pool := AList.update (pci_peer_id peer) ?h (pool w)\<rparr>"
    using assms(5) c by simp_all
  have "synced (e_crates env) s (k + n) c" using s(2) assms(4) by (auto simp: serving_def intro: synced_mono)
  then have "serving env serves near (sess(?h := s)) (k + n) w'"
    using assms(4) s(1) unfolding w' by (auto simp: serving_def nth_append update_conv' less_Suc_eq split: if_splits)
  with assms(3) holding_stores [OF assms(1) s(1)] show ?thesis unfolding w'
    by (intro exI [of _ k] exI [of _ "sess(?h := s)"]) (auto intro!: exI [of _ peer])
qed

lemma fetch_step_on_course:
  assumes "holding env serves net near" and "length a = 32" and "on_course env net near sess w a f k"
    and "serving env serves near sess (k + n) w"
    and "fetch_step env a f w = (f', w')" and "active f"
  shows "\<exists>k' sess'. on_course env net near sess' w' a f' k' \<and> serving env serves near sess' (k' + n) w'
     \<and> length (conns w) \<le> length (conns w') \<and> (\<forall>h < length (conns w). sess' h = sess h)"
proof (cases f)
  case (Asking i)
  show ?thesis using asking_on_course [OF assms(1,2) _ assms(4)] assms(3,5) unfolding Asking .
next
  case (Trying peers last_err)
  show ?thesis
  proof (cases peers)
    case Nil
    with Trying assms(3-5) show ?thesis
      by (intro exI [of _ 0] exI [of _ sess]) (auto simp: peers_fetch_def)
  next
    case (Cons peer rest)
    show ?thesis
    proof (cases "map_of (pool w) (pci_peer_id peer)")
      case (Some h)
      then have "h < length (conns w)" "stores (e_serde env) (sess h) (net (pci_peer_id peer))"
        using assms(4) holding_stores [OF assms(1)] by (auto simp: serving_def)
      with Some Trying Cons assms(3-5) show ?thesis
        by (intro exI [of _ k] exI [of _ sess]) (auto simp: peers_fetch_Cons)
    next
      case None
      with Trying Cons assms(3-5) show ?thesis
        by (intro exI [of _ k] exI [of _ sess]) (auto simp: peers_fetch_Cons serving_def)
    qed
  qed
next
  case (Dialing d peer peers)
  show ?thesis using dialing_on_course [OF assms(1,2) _ assms(4)] assms(3,5) unfolding Dialing .
next
  case (Getting h i peers)
  with request_on_course [OF assms(1,2) _ assms(4)] assms(3,5) show ?thesis by fastforce
next
  case (Requesting h peers)
  with assms(3-5) show ?thesis by (intro exI [of _ k] exI [of _ sess]) auto
next
  case Discovering
  with assms(3-5) show ?thesis by (intro exI [of _ k] exI [of _ sess]) auto
qed (use assms in auto)

text \<open>All of them together.\<close>

definition all_on_course :: "'m env \<Rightarrow> (byte list \<Rightarrow> byte list \<rightharpoonup> byte list) \<Rightarrow> (byte list \<Rightarrow> PeerConnectInfo list)
    \<Rightarrow> byte list list \<Rightarrow> nat \<Rightarrow> fetching list \<times> client \<Rightarrow> bool" where
  "all_on_course env net near as n s \<longleftrightarrow> (case s of (fs, w) \<Rightarrow>
     length fs = length as \<and> (\<exists>sess ks. length ks = length as
       \<and> (\<forall>i < length as. on_course env net near sess w (as ! i) (fs ! i) (ks ! i))
       \<and> serving env (chunk_nodes (e_serde env) net) near sess (sum_list ks + n) w))"

lemma fetch_any_on_course:
  assumes "honest_net env net near" and "list_all (\<lambda>a. length a = 32) as"
    and "all_on_course env net near as n s" and "fetch_any env as s s'"
  shows "all_on_course env net near as n s'"
proof -
  from assms(4) obtain fs w i f w' where s: "s = (fs, w)" "s' = (fs[i := f], w')" "i < length fs" "active (fs ! i)"
    "fetch_step env (as ! i) (fs ! i) w = (f, w')" by (cases s) (auto simp: fetch_any_iff)
  obtain sess ks where k: "length fs = length as" "length ks = length as"
    "\<forall>i < length as. on_course env net near sess w (as ! i) (fs ! i) (ks ! i)"
    "serving env (chunk_nodes (e_serde env) net) near sess (sum_list ks + n) w"
    using assms(3) s(1) by (auto simp: all_on_course_def)
  have i: "i < length ks" using s(3) k(1,2) by simp
  then have sum: "sum_list ks = ks ! i + sum_list (ks[i := 0])" by (simp add: sum_list_update elem_le_sum_list)
  have sum': "sum_list (ks[i := l]) = l + sum_list (ks[i := 0])" for l using i elem_le_sum_list [OF i] by (simp add: sum_list_update)
  have "length (as ! i) = 32" using assms(2) s(3) k(1) by (simp add: list_all_length)
  moreover have "serving env (chunk_nodes (e_serde env) net) near sess (ks ! i + (sum_list (ks[i := 0]) + n)) w"
    using k(4) sum by (simp add: add.assoc)
  ultimately obtain k' sess' where n: "on_course env net near sess' w' (as ! i) f k'"
    "serving env (chunk_nodes (e_serde env) net) near sess' (k' + (sum_list (ks[i := 0]) + n)) w'"
    "length (conns w) \<le> length (conns w')" "\<forall>h < length (conns w). sess' h = sess h"
    using fetch_step_on_course [OF assms(1) [unfolded honest_net_holding] _ _ _ s(5,4)] k(1,3) s(3) by metis
  have "on_course env net near sess' w' (as ! j) (fs[i := f] ! j) (ks[i := k'] ! j)" if "j < length as" for j
    using that n(1) i k(1,2) on_course_mono [OF k(3) [rule_format, OF that] n(3,4)] by (cases "j = i") auto
  moreover have "serving env (chunk_nodes (e_serde env) net) near sess' (sum_list (ks[i := k']) + n) w'"
    using n(2) unfolding sum' [of k'] by (simp add: add.assoc)
  ultimately have "length (fs[i := f]) = length as \<and> (\<exists>sess ks. length ks = length as
       \<and> (\<forall>j < length as. on_course env net near sess w' (as ! j) (fs[i := f] ! j) (ks ! j))
       \<and> serving env (chunk_nodes (e_serde env) net) near sess (sum_list ks + n) w')"
    using k(1,2) by (intro conjI exI [of _ sess'] exI [of _ "ks[i := k']"]) simp_all
  then show ?thesis by (simp add: all_on_course_def s(2))
qed

lemma all_on_course_start:
  assumes "in_service env (chunk_nodes (e_serde env) net) near (requests_for near as + n) w"
  shows "all_on_course env net near as n (replicate (length as) Discovering, w)"
  using assms unfolding all_on_course_def in_service_def requests_for_def
  by (auto intro!: exI [of _ "map (\<lambda>a. Suc (length (near a))) as"])

lemma all_on_course_reached:
  assumes "honest_net env net near" and "list_all (\<lambda>a. length a = 32) as"
    and "in_service env (chunk_nodes (e_serde env) net) near (requests_for near as + n) w"
    and "(fetch_any env as)\<^sup>*\<^sup>* (replicate (length as) Discovering, w) s"
  shows "all_on_course env net near as n s"
  using assms(4)
proof (induction rule: rtranclp_induct)
  case base
  show ?case by (rule all_on_course_start [OF assms(3)])
next
  case (step s1 s2)
  from fetch_any_on_course [OF assms(1,2) step(3,2)] show ?case .
qed

lemma joined_serving:
  assumes "honest_net env net near" and "list_all (\<lambda>a. length a = 32) as"
    and "in_service env (chunk_nodes (e_serde env) net) near (requests_for near as + n) w" and "joined env as w fetched w'"
  shows "fetched = map (net_fetch (e_crates env) net near) as \<and> in_service env (chunk_nodes (e_serde env) net) near n w'"
proof -
  have "all_on_course env net near as n (map Fetched fetched, w')"
    using all_on_course_reached [OF assms(1-3)] assms(4) unfolding joined_def by blast
  then obtain sess ks where k: "length fetched = length as" "length ks = length as"
    "\<forall>i < length as. on_course env net near sess w' (as ! i) (map Fetched fetched ! i) (ks ! i)"
    "serving env (chunk_nodes (e_serde env) net) near sess (sum_list ks + n) w'"
    by (auto simp: all_on_course_def)
  then have "fetched = map (net_fetch (e_crates env) net near) as" by (simp add: list_eq_iff_nth_eq)
  moreover have "in_service env (chunk_nodes (e_serde env) net) near n w'"
    using serving_mono [OF k(4), of n] by (auto simp: in_service_def)
  ultimately show ?thesis by simp
qed

text \<open>A schedule that can go no further has all futures returned: none hangs.\<close>

lemma stuck_joined:
  assumes "honest_net env net near" and "list_all (\<lambda>a. length a = 32) as"
    and "in_service env (chunk_nodes (e_serde env) net) near (requests_for near as + n) w"
    and "(fetch_any env as)\<^sup>*\<^sup>* (replicate (length as) Discovering, w) (fs, w')" and "\<nexists>s. fetch_any env as (fs, w') s"
  shows "fs = map (\<lambda>a. Fetched (net_fetch (e_crates env) net near a)) as"
proof (rule nth_equalityI)
  have "all_on_course env net near as n (fs, w')" by (rule all_on_course_reached [OF assms(1-4)])
  then obtain sess ks where len: "length fs = length as"
    and c: "\<forall>i < length as. on_course env net near sess w' (as ! i) (fs ! i) (ks ! i)" by (auto simp: all_on_course_def)
  show "length fs = length (map (\<lambda>a. Fetched (net_fetch (e_crates env) net near a)) as)" using len by simp
  fix i assume i: "i < length fs"
  have "\<not> active (fs ! i)"
  proof
    assume "active (fs ! i)"
    moreover obtain f w'' where "fetch_step env (as ! i) (fs ! i) w' = (f, w'')" by force
    ultimately show False using assms(5) fetch_any.intros [OF i] by blast
  qed
  moreover have "on_course env net near sess w' (as ! i) (fs ! i) (ks ! i)" using c i len by simp
  ultimately show "fs ! i = map (\<lambda>a. Fetched (net_fetch (e_crates env) net near a)) as ! i"
    using i len by (cases "fs ! i") auto
qed

section \<open>Rounds\<close>

lemma rounds_any_round:
  assumes "honest_net env net near" and "rounds_any env r w x w'"
    and "retrieve_round (e_crates env) (e_se env) (net_fetch (e_crates env) net near) r = (log, y)"
    and "list_all (\<lambda>a. length a = 32) log" and "in_service env (chunk_nodes (e_serde env) net) near (requests_for near log + n) w"
  shows "case y of Inl e \<Rightarrow> x = Inl e \<and> in_service env (chunk_nodes (e_serde env) net) near n w'
    | Inr r' \<Rightarrow> \<exists>w1. rounds_any env r' w1 x w' \<and> in_service env (chunk_nodes (e_serde env) net) near n w1"
proof (cases "is_complete (e_se env) r")
  case True
  with assms(2,3,5) show ?thesis by (auto simp: retrieve_round_def)
next
  case False
  let ?fetch = "net_fetch (e_crates env) net near" and ?addrs = "required_addresses (e_se env) r"
  have log: "log = ?addrs" and y: "y = res_bind (supply_fetches (e_crates env) (e_se env) (map (\<lambda>a. (a, ?fetch a)) ?addrs) r)
      (advance (e_crates env) (e_se env))"
    using assms(3) False by (auto simp: retrieve_round_def)
  have z: "zip ?addrs (map ?fetch ?addrs) = map (\<lambda>a. (a, ?fetch a)) ?addrs"
    by (simp add: zip_map2 zip_same_conv_map)
  have round: "fetched = map ?fetch ?addrs \<and> in_service env (chunk_nodes (e_serde env) net) near n w2
      \<and> u = supply_fetches (e_crates env) (e_se env) (map (\<lambda>a. (a, ?fetch a)) ?addrs) r"
    if j: "joined env ?addrs w fetched w1" and s: "supply_fetched env (zip ?addrs fetched) r w1 = (Ready u, w2)" for fetched w1 u w2
  proof -
    have f: "fetched = map ?fetch ?addrs" "in_service env (chunk_nodes (e_serde env) net) near n w1"
      using joined_serving [OF assms(1) assms(4,5) [unfolded log] j] by simp_all
    obtain k where "supply_fetched env (map (\<lambda>a. (a, ?fetch a)) ?addrs) r w1 = (Ready (supply_fetches (e_crates env) (e_se env)
      (map (\<lambda>a. (a, ?fetch a)) ?addrs) r), w1\<lparr>chunks_fetched := k\<rparr>)" using supply_fetched_pure by blast
    with s f z show ?thesis by auto
  qed
  from assms(2) show ?thesis
  proof cases
    case complete
    with False show ?thesis by simp
  next
    case (refused fetched w1 e)
    from round [OF refused(3,4)] refused(1) show ?thesis by (auto simp: y dest: sym)
  next
    case (unresolved fetched w1 r1 e)
    from round [OF unresolved(3,4)] unresolved(1,5) show ?thesis by (auto simp: y dest: sym)
  next
    case (another fetched w1 r1 w2 r2)
    have "supply_fetches (e_crates env) (e_se env) (map (\<lambda>a. (a, ?fetch a)) ?addrs) r = Inr r1"
      using round [OF another(2,3)] by simp
    then have "y = Inr r2" using another(4) by (simp add: y)
    with round [OF another(2,3)] another(5) show ?thesis by auto
  qed
qed

lemma rounds_any_complete: "is_complete (e_se env) r \<Longrightarrow> rounds_any env r w x w' \<Longrightarrow> x = Inr r \<and> w' = w"
  by (auto elim: rounds_any.cases)

lemma rounds_any_retrieve:
  assumes "honest_net env net near" and "rounds_any env r w x w'"
    and "then_round (retrieve_round (e_crates env) (e_se env) (net_fetch (e_crates env) net near))
       (retrieve_round (e_crates env) (e_se env) (net_fetch (e_crates env) net near) r) = (log, y)"
    and "list_all (\<lambda>a. length a = 32) log" and "in_service env (chunk_nodes (e_serde env) net) near (requests_for near log + n) w"
  shows "x = y \<and> in_service env (chunk_nodes (e_serde env) net) near n w'"
proof -
  let ?round = "retrieve_round (e_crates env) (e_se env) (net_fetch (e_crates env) net near)"
  obtain l1 y1 where r1: "?round r = (l1, y1)" by force
  show ?thesis
  proof (cases y1)
    case (Inl e)
    with r1 assms(3) have "log = l1" "y = Inl e" by simp_all
    with Inl rounds_any_round [OF assms(1,2) r1] assms(4,5) show ?thesis by simp
  next
    case (Inr r')
    obtain l2 y2 where r2: "?round r' = (l2, y2)" by force
    with r1 Inr assms(3) have log: "log = l1 @ l2" "y = y2" by simp_all
    obtain w1 where w1: "rounds_any env r' w1 x w'" "in_service env (chunk_nodes (e_serde env) net) near (requests_for near l2 + n) w1"
      using rounds_any_round [OF assms(1,2) r1, of "requests_for near l2 + n"] assms(4,5) Inr log
      by (auto simp: add.assoc)
    have last: "is_complete (e_se env) r''" if "y2 = Inr r''" for r''
      using retrieve_round_left [OF r1 [unfolded Inr]] retrieve_round_left [OF r2 [unfolded that]]
        complete_rounds_left by (metis diff_is_0_eq le_zero_eq one_add_one le_diff_conv order_trans)
    show ?thesis
    proof (cases y2)
      case (Inl e)
      with rounds_any_round [OF assms(1) w1(1) r2 _ w1(2)] assms(4) log show ?thesis by simp
    next
      case (Inr r'')
      with rounds_any_round [OF assms(1) w1(1) r2 _ w1(2)] assms(4) log obtain w2 where
        "rounds_any env r'' w2 x w'" "in_service env (chunk_nodes (e_serde env) net) near n w2" by auto
      with rounds_any_complete [OF last [OF Inr]] Inr log(2) show ?thesis by auto
    qed
  qed
qed

lemma downloads_retrieve:
  assumes "honest_net env net near" and "parse_address (e_crates env) address_hex = Inr address"
    and "retrieve (e_crates env) (e_se env) (net_fetch (e_crates env) net near) address = (log, x)"
    and "list_all (\<lambda>a. length a = 32) log" and "in_service env (chunk_nodes (e_serde env) net) near (requests_for near log + n) w"
    and "downloads env address_hex w out w'"
  shows "out = x \<and> in_service env (chunk_nodes (e_serde env) net) near n w'"
proof -
  let ?fetch = "net_fetch (e_crates env) net near" and ?w0 = "w\<lparr>chunks_fetched := 0\<rparr>"
  have first: "\<exists>w1. get_direct env address ?w0 = (Ready (?fetch address), w1)
      \<and> in_service env (chunk_nodes (e_serde env) net) near (requests_for near l + n) w1" if "log = address # l" for l
    using get_direct_serving [OF assms(1) parse_address_length [OF assms(2)], of "requests_for near l + n" ?w0] assms(5) that
    by (simp add: add.assoc)
  from assms(3) show ?thesis
  proof (cases rule: retrieve_cases)
    case (missing e)
    with first [of "[]"] assms(2,6) show ?thesis by (auto simp: downloads_def)
  next
    case (no_map bytes e)
    with first [of "[]"] assms(2,6) show ?thesis by (auto simp: downloads_def)
  next
    case (rounds bytes r l y)
    obtain w1 where w1: "get_direct env address ?w0 = (Ready (Inr bytes), w1)"
      "in_service env (chunk_nodes (e_serde env) net) near (requests_for near l + n) w1" using first [OF rounds(3)] rounds(1) by auto
    obtain z where z: "rounds_any env r (w1\<lparr>chunks_fetched := chunks_fetched w1 + 1\<rparr>) z w'"
      "out = res_bind z (finish (e_crates env) (e_se env))"
      using assms(2,6) w1(1) rounds(2) by (auto simp: downloads_def Let_def)
    from rounds_any_retrieve [OF assms(1) z(1) rounds(4)] assms(4) rounds(3,5) w1(2) z(2) show ?thesis by simp
  qed
qed

end
