(* ===== verification/Roundtrip.thy ===== *)
theory Roundtrip
  imports Network
begin

text \<open>
  What was uploaded can be retrieved: the items \<open>upload\<close> stores (\<open>upload_items\<close>) are what \<open>retrieve\<close>
  needs to give the data back. The behaviour of the \<open>self_encryption\<close> crate this rests on is
  \<open>se_faithful\<close>.
\<close>

section \<open>The crate\<close>

text \<open>
  \<open>encrypt\<close> gives a root map that lists the hashes of its chunks and decrypts them to the data; serialized
  maps parse back; \<open>shrink_data_map\<close> either leaves the map alone or gives a child map of wrapper chunks,
  each under its hash, from which \<open>get_root_data_map\<close> recovers the map.
\<close>

definition se_faithful :: "crates \<Rightarrow> 'm self_encryption \<Rightarrow> bool" where
  "se_faithful cr se \<longleftrightarrow>
     (\<forall>data m chunks m' wrappers bs. se_encrypt se data = Inr (m, chunks) \<longrightarrow> shrink_data_map se m = Inr (m', wrappers) \<longrightarrow>
        data_map_to_vec se m' = Inr bs \<longrightarrow>
        data_map_from_slice se bs = Inr m' \<and> \<not> map_is_child se m \<and> map_infos se m = map (blake3_hash cr) chunks
        \<and> se_decrypt se m chunks = Inr data \<and> list_all (\<lambda>(n, c). blake3_hash cr c = n) wrappers
        \<and> (if map_is_child se m'
           then set (map_infos se m') \<subseteq> fst ` set wrappers
             \<and> (\<forall>f. list_all (\<lambda>(n, c). f n = Inr c) wrappers \<longrightarrow> get_root_data_map se m' f = Inr m)
           else m' = m))"

text \<open>One level of wrappers at most: the map that is uploaded names every wrapper chunk.\<close>

definition one_level :: "'m self_encryption \<Rightarrow> byte list \<Rightarrow> bool" where
  "one_level se data \<longleftrightarrow>
     (\<forall>m chunks m' wrappers. se_encrypt se data = Inr (m, chunks) \<longrightarrow> shrink_data_map se m = Inr (m', wrappers) \<longrightarrow>
        fst ` set wrappers \<subseteq> set (map_infos se m'))"

section \<open>Rounds over a store\<close>

text \<open>Everything in \<open>as\<close> can be fetched and is what its address says.\<close>

definition fetchable :: "crates \<Rightarrow> (byte list \<Rightarrow> byte list result) \<Rightarrow> byte list list \<Rightarrow> bool" where
  "fetchable cr fetch as \<longleftrightarrow> list_all (\<lambda>a. \<exists>b. fetch a = Inr b \<and> blake3_hash cr b = a) as"

definition cache_from :: "(byte list \<Rightarrow> byte list result) \<Rightarrow> 'm Retrieval \<Rightarrow> bool" where
  "cache_from fetch r \<longleftrightarrow> (\<forall>a b. cache r a = Some b \<longrightarrow> fetch a = Inr b)"

lemma supply_fetches_ok:
  assumes "verify_complete cr se"
  shows "fetchable cr fetch as \<Longrightarrow> cache_from fetch r \<Longrightarrow>
     \<exists>c. supply_fetches cr se (map (\<lambda>a. (a, fetch a)) as) r = Inr (r\<lparr>cache := c\<rparr>)
       \<and> cache_from fetch (r\<lparr>cache := c\<rparr>) \<and> (\<forall>a. c a = None \<longleftrightarrow> cache r a = None \<and> a \<notin> set as)"
proof (induction as arbitrary: r)
  case Nil
  then show ?case by (intro exI [of _ "cache r"]) simp
next
  case (Cons a as)
  then obtain b where b: "fetch a = Inr b" "blake3_hash cr b = a" by (auto simp: fetchable_def)
  let ?r = "r\<lparr>cache := (cache r)(a \<mapsto> b)\<rparr>"
  have "verify_chunk se a b = Inr b" using assms b(2) unfolding verify_complete_def by blast
  then have s: "retrieval_supply cr se a b r = Inr ?r" by (simp add: retrieval_supply_def)
  have "fetchable cr fetch as" "cache_from fetch ?r"
    using Cons.prems b(1) by (auto simp: fetchable_def cache_from_def)
  from Cons.IH [OF this] obtain c where c: "supply_fetches cr se (map (\<lambda>a. (a, fetch a)) as) ?r = Inr (?r\<lparr>cache := c\<rparr>)"
    "cache_from fetch (?r\<lparr>cache := c\<rparr>)" "\<forall>x. c x = None \<longleftrightarrow> cache ?r x = None \<and> x \<notin> set as" by blast
  with s b(1) show ?case by (intro exI [of _ c]) (auto simp: cache_from_def)
qed

text \<open>A round with a resolved map ends with the map complete.\<close>

lemma round_resolved:
  assumes "verify_complete cr se" and "fetchable cr fetch (map_infos se (r_map r))" and "cache_from fetch r"
    and "root_resolved r"
  shows "\<exists>log c. retrieve_round cr se fetch r = (log, Inr (r\<lparr>cache := c\<rparr>)) \<and> set log \<subseteq> set (map_infos se (r_map r))
     \<and> is_complete se (r\<lparr>cache := c\<rparr>) \<and> cache_from fetch (r\<lparr>cache := c\<rparr>)"
proof (cases "is_complete se r")
  case True
  with assms(3) show ?thesis by (intro exI [of _ "[]"] exI [of _ "cache r"]) (simp add: retrieve_round_def)
next
  case False
  have "fetchable cr fetch (required_addresses se r)"
    using assms(2) by (auto simp: fetchable_def required_addresses_def list_all_iff)
  from supply_fetches_ok [OF assms(1) this assms(3)] obtain c where c:
    "supply_fetches cr se (map (\<lambda>a. (a, fetch a)) (required_addresses se r)) r = Inr (r\<lparr>cache := c\<rparr>)"
    "cache_from fetch (r\<lparr>cache := c\<rparr>)" "\<forall>a. c a = None \<longleftrightarrow> cache r a = None \<and> a \<notin> set (required_addresses se r)" by blast
  have "required_addresses se (r\<lparr>cache := c\<rparr>) = []"
    using c(3) by (auto simp: required_addresses_def filter_empty_conv)
  with False c(1,2) assms(4) show ?thesis
    by (intro exI [of _ "required_addresses se r"] exI [of _ c])
      (auto simp: retrieve_round_def advance_def is_complete_def required_addresses_def)
qed

text \<open>A round with a child map whose wrappers can all be fetched resolves it.\<close>

lemma round_child:
  assumes "verify_complete cr se" and "fetchable cr fetch (map_infos se (r_map r))" and "cache_from fetch r"
    and "\<not> root_resolved r"
    and "\<And>f. (\<And>a b. a \<in> set (map_infos se (r_map r)) \<Longrightarrow> fetch a = Inr b \<Longrightarrow> f a = Inr b) \<Longrightarrow>
       get_root_data_map se (r_map r) f = Inr m"
  shows "\<exists>log c. retrieve_round cr se fetch r = (log, Inr (r\<lparr>cache := c, r_map := m, root_resolved := True\<rparr>))
     \<and> set log \<subseteq> set (map_infos se (r_map r)) \<and> cache_from fetch (r\<lparr>cache := c, r_map := m, root_resolved := True\<rparr>)"
proof -
  have "fetchable cr fetch (required_addresses se r)"
    using assms(2) by (auto simp: fetchable_def required_addresses_def list_all_iff)
  from supply_fetches_ok [OF assms(1) this assms(3)] obtain c where c:
    "supply_fetches cr se (map (\<lambda>a. (a, fetch a)) (required_addresses se r)) r = Inr (r\<lparr>cache := c\<rparr>)"
    "cache_from fetch (r\<lparr>cache := c\<rparr>)" "\<forall>a. c a = None \<longleftrightarrow> cache r a = None \<and> a \<notin> set (required_addresses se r)" by blast
  let ?r = "r\<lparr>cache := c\<rparr>"
  have q: "required_addresses se ?r = []"
    using c(3) by (auto simp: required_addresses_def filter_empty_conv)
  have "get_root_data_map se (r_map r) (fetch_cached cr ?r) = Inr m"
  proof (rule assms(5))
    fix a b assume a: "a \<in> set (map_infos se (r_map r))" "fetch a = Inr b"
    then obtain b' where "c a = Some b'" using q by (auto simp: required_addresses_def filter_empty_conv)
    with c(2) a(2) show "fetch_cached cr ?r a = Inr b" by (auto simp: cache_from_def fetch_cached_def)
  qed
  then have "advance cr se ?r = Inr (?r\<lparr>r_map := m, root_resolved := True\<rparr>)"
    using q assms(4) by (simp add: advance_def)
  with c assms(4) show ?thesis
    by (intro exI [of _ "required_addresses se r"] exI [of _ c])
      (auto simp: retrieve_round_def is_complete_def required_addresses_def cache_from_def)
qed

lemma finish_from:
  assumes "is_complete se r" and "cache_from fetch r" and "map_infos se (r_map r) = map (blake3_hash cr) cs"
    and "\<And>c. c \<in> set cs \<Longrightarrow> fetch (blake3_hash cr c) = Inr c" and "se_decrypt se (r_map r) cs = Inr out"
  shows "finish cr se r = Inr out"
proof -
  have "cache r (blake3_hash cr c) = Some c" if "c \<in> set cs" for c
    using assms(1,2) assms(4) [OF that] that
    by (auto simp: is_complete_def required_addresses_def filter_empty_conv assms(3) cache_from_def)
  then have "map Some cs = map (cache r) (map_infos se (r_map r))" by (simp add: assms(3))
  with assms(1,5) show ?thesis unfolding finish_Inr by blast
qed

section \<open>Round trip\<close>

lemma upload_items_Inr:
  "upload_items env data = Inr (items, address) \<longleftrightarrow>
     (\<exists>m chunks m' wrappers bs. se_encrypt (e_se env) data = Inr (m, chunks)
        \<and> shrink_data_map (e_se env) m = Inr (m', wrappers) \<and> data_map_to_vec (e_se env) m' = Inr bs
        \<and> address = blake3_hash (e_crates env) bs
        \<and> items = map (\<lambda>c. (blake3_hash (e_crates env) c, c)) chunks @ wrappers @ [(address, bs)])"
  by (auto simp: upload_items_def Let_def res_iff)

text \<open>The round after which the retrieval has the root map of what was uploaded, wrapped or not.\<close>

lemma first_round:
  assumes "verify_complete cr se" and "fetchable cr fetch (map_infos se m)"
    and wrap: "\<And>n c. (n, c) \<in> set wrappers \<Longrightarrow> fetch n = Inr c \<and> blake3_hash cr c = n"
    and named: "fst ` set wrappers \<subseteq> set (map_infos se m')"
    and root: "if map_is_child se m' then set (map_infos se m') \<subseteq> fst ` set wrappers
             \<and> (\<forall>f. list_all (\<lambda>(n, c). f n = Inr c) wrappers \<longrightarrow> get_root_data_map se m' f = Inr m) else m' = m"
  shows "\<exists>log c. retrieve_round cr se fetch \<lparr>r_map = m', root_resolved = (\<not> map_is_child se m'), cache = Map.empty\<rparr>
       = (log, Inr \<lparr>r_map = m, root_resolved = True, cache = c\<rparr>) \<and> set log \<subseteq> set (map_infos se m')
     \<and> cache_from fetch \<lparr>r_map = m, root_resolved = True, cache = c\<rparr>"
proof (cases "map_is_child se m'")
  case False
  with root assms(2) round_resolved [OF assms(1), of fetch "\<lparr>r_map = m', root_resolved = True, cache = Map.empty\<rparr>"]
  show ?thesis by (auto simp: cache_from_def)
next
  case True
  have "fetchable cr fetch (map_infos se m')" using wrap root True by (force simp: fetchable_def list_all_iff)
  moreover have "get_root_data_map se m' f = Inr m"
    if "\<And>a b. a \<in> set (map_infos se m') \<Longrightarrow> fetch a = Inr b \<Longrightarrow> f a = Inr b" for f
  proof -
    have "list_all (\<lambda>(n, c). f n = Inr c) wrappers"
      unfolding list_all_iff using that wrap named by force
    with root True show ?thesis by simp
  qed
  ultimately show ?thesis
    using round_child [OF assms(1), of fetch "\<lparr>r_map = m', root_resolved = False, cache = Map.empty\<rparr>" m] True
    by (auto simp: cache_from_def)
qed

text \<open>The round that completes it, and what \<open>finish\<close> then gives.\<close>

lemma last_round:
  assumes "verify_complete cr se" and "root_resolved r" and "cache_from fetch r"
    and "map_infos se (r_map r) = map (blake3_hash cr) cs" and got: "\<And>c. c \<in> set cs \<Longrightarrow> fetch (blake3_hash cr c) = Inr c"
    and "se_decrypt se (r_map r) cs = Inr out"
  shows "\<exists>log. then_round (\<lambda>r. ([], finish cr se r)) (then_round (retrieve_round cr se fetch) (pre, Inr r)) = (pre @ log, Inr out)
     \<and> set log \<subseteq> set (map_infos se (r_map r))"
proof -
  have "fetchable cr fetch (map_infos se (r_map r))" using got by (auto simp: assms(4) fetchable_def list_all_iff)
  from round_resolved [OF assms(1) this assms(3,2)] obtain log c where
    r: "retrieve_round cr se fetch r = (log, Inr (r\<lparr>cache := c\<rparr>))" "set log \<subseteq> set (map_infos se (r_map r))"
    "is_complete se (r\<lparr>cache := c\<rparr>)" "cache_from fetch (r\<lparr>cache := c\<rparr>)" by blast
  have "finish cr se (r\<lparr>cache := c\<rparr>) = Inr out"
    using finish_from [OF r(3,4) _ got] assms(4,6) by simp
  with r(1,2) show ?thesis by auto
qed

lemma retrieve_uploaded:
  assumes "se_faithful (e_crates env) (e_se env)" and "one_level (e_se env) data" and "verify_complete (e_crates env) (e_se env)"
    and "upload_items env data = Inr (items, address)" and "list_all (\<lambda>(a, b). fetch a = Inr b) items"
  shows "snd (retrieve (e_crates env) (e_se env) fetch address) = Inr data
     \<and> set (fst (retrieve (e_crates env) (e_se env) fetch address)) \<subseteq> fst ` set items
     \<and> list_all (\<lambda>(a, b). blake3_hash (e_crates env) b = a) items"
proof -
  let ?cr = "e_crates env" and ?se = "e_se env"
  obtain m chunks m' wrappers bs where e: "se_encrypt ?se data = Inr (m, chunks)"
    "shrink_data_map ?se m = Inr (m', wrappers)" "data_map_to_vec ?se m' = Inr bs"
    and address: "address = blake3_hash ?cr bs"
    and items: "items = map (\<lambda>c. (blake3_hash ?cr c, c)) chunks @ wrappers @ [(address, bs)]"
    using assms(4) unfolding upload_items_Inr by blast
  have law: "data_map_from_slice ?se bs = Inr m'" "map_infos ?se m = map (blake3_hash ?cr) chunks"
    "se_decrypt ?se m chunks = Inr data" "list_all (\<lambda>(n, c). blake3_hash ?cr c = n) wrappers"
    and root: "if map_is_child ?se m' then set (map_infos ?se m') \<subseteq> fst ` set wrappers
             \<and> (\<forall>f. list_all (\<lambda>(n, c). f n = Inr c) wrappers \<longrightarrow> get_root_data_map ?se m' f = Inr m) else m' = m"
    using assms(1) e unfolding se_faithful_def by blast+
  have named: "fst ` set wrappers \<subseteq> set (map_infos ?se m')" using assms(2) e unfolding one_level_def by blast
  have got: "fetch (blake3_hash ?cr c) = Inr c" if "c \<in> set chunks" for c
    using that assms(5) by (auto simp: items list_all_iff)
  have wrap: "fetch n = Inr c \<and> blake3_hash ?cr c = n" if "(n, c) \<in> set wrappers" for n c
    using that assms(5) law(4) by (auto simp: items list_all_iff)
  have "fetchable ?cr fetch (map_infos ?se m)" using got by (auto simp: law(2) fetchable_def list_all_iff)
  from first_round [OF assms(3) this wrap named root] obtain l1 c where
    r1: "retrieve_round ?cr ?se fetch \<lparr>r_map = m', root_resolved = (\<not> map_is_child ?se m'), cache = Map.empty\<rparr>
       = (l1, Inr \<lparr>r_map = m, root_resolved = True, cache = c\<rparr>)" "set l1 \<subseteq> set (map_infos ?se m')"
    "cache_from fetch \<lparr>r_map = m, root_resolved = True, cache = c\<rparr>" by blast
  have "\<exists>l2. then_round (\<lambda>r. ([], finish ?cr ?se r)) (then_round (retrieve_round ?cr ?se fetch)
        (address # l1, Inr \<lparr>r_map = m, root_resolved = True, cache = c\<rparr>)) = ((address # l1) @ l2, Inr data)
      \<and> set l2 \<subseteq> set (map_infos ?se (r_map \<lparr>r_map = m, root_resolved = True, cache = c\<rparr>))"
    by (rule last_round [OF assms(3) _ r1(3) _ got]) (simp add: law(2), simp add: law(2), assumption, simp, rule law(3))
  then obtain l2 where
    r2: "then_round (\<lambda>r. ([], finish ?cr ?se r)) (then_round (retrieve_round ?cr ?se fetch)
        (address # l1, Inr \<lparr>r_map = m, root_resolved = True, cache = c\<rparr>)) = (address # l1 @ l2, Inr data)"
    "set l2 \<subseteq> set (map_infos ?se m)" by auto
  have "fetch address = Inr bs" "retrieval_begin ?se address bs
      = Inr \<lparr>r_map = m', root_resolved = (\<not> map_is_child ?se m'), cache = Map.empty\<rparr>"
    using assms(3,5) law(1) address by (auto simp: items retrieval_begin_def verify_complete_def)
  with r1(1) r2(1) have "retrieve ?cr ?se fetch address = (address # l1 @ l2, Inr data)" by (simp add: retrieve_def)
  moreover have "set (map_infos ?se m) \<subseteq> fst ` set items" unfolding law(2) items by force
  moreover have "set (map_infos ?se m') \<subseteq> fst ` set items"
    using root calculation(2) by (auto simp: items split: if_splits)
  moreover have "address \<in> fst ` set items" by (simp add: items)
  moreover have "list_all (\<lambda>(a, b). blake3_hash ?cr b = a) items"
    using wrap address by (auto simp: items list_all_iff)
  ultimately show ?thesis using r1(2) r2(2) by auto
qed

end
