(* ===== verification/Downloads.thy ===== *)
theory Downloads
  imports Roundtrip Test_World
begin

text \<open>
  The properties of downloading: safety against any network, refinement of \<open>retrieve\<close> over an honest one,
  and the round trip with \<open>upload\<close>.
\<close>

section \<open>Any network\<close>

text \<open>Whatever bootstrap node and peers do, if \<open>fetch_chunk\<close> returns bytes, they hash to the 32-byte
  address the text spells.\<close>
lemma fetch_chunk_sound:
  assumes "fetch_chunk env address_hex w = (Ready (Inr bytes), w')"
  shows "parse_address (e_crates env) address_hex = Inr (blake3_hash (e_crates env) bytes)
     \<and> length (blake3_hash (e_crates env) bytes) = 32"
  using assms get_direct_hash parse_address_length unfolding fetch_chunk_def by (fastforce simp: res_iff)

text \<open>No node can make \<open>download\<close> deliver anything but the file: if it returns bytes,
  the address text parses and they are what that address denotes, provided \<open>verify_chunk\<close> checks the
  hash and \<open>get_root_data_map\<close> yields root maps.\<close>
lemma download_sound:
  assumes "verify_correct (e_crates env) (e_se env)" and "root_correct (e_se env)"
    and "download env address_hex w = (Ready (Inr out), w')"
  shows "\<exists>address. parse_address (e_crates env) address_hex = Inr address
     \<and> denotes (e_crates env) (e_se env) address out"
  by (rule download_denotes [OF assms])

section \<open>An honest network\<close>

text \<open> C4. Over a network of honest nodes, \<open>download\<close> is \<open>retrieve\<close>: it does not block, it returns exactly the
  result, bytes or error, that \<open>retrieve\<close> computes from what the responsible peers store, in at most two
  rounds after the data map; and the client stays in service for the next call. Enough sequence numbers
  must be left for one discovery and one GET per responsible peer for each address fetched.\<close>
theorem download_refines:
  assumes "honest_net env net near" and "parse_address (e_crates env) address_hex = Inr address"
    and "retrieve (e_crates env) (e_se env) (net_fetch (e_crates env) net near) address = (log, x)"
    and "list_all (\<lambda>a. length a = 32) log" and "in_service env (chunk_nodes (e_serde env) net) near (requests_for near log + n) w"
  shows "\<exists>w'. download env address_hex w = (Ready x, w') \<and> in_service env (chunk_nodes (e_serde env) net) near n w'"
  by (rule download_retrieve [OF assms])


section \<open>Round trip\<close>

lemma parse_address_encoded:
  assumes "hex_correct cr" and "length a = 32"
  shows "parse_address cr (hex_encode cr a) = Inr a"
proof -
  have "lower_hex c \<Longrightarrow> graphic c" for c by (auto simp: lower_hex_def graphic_def)
  then have "list_all graphic (hex_encode cr a)" using assms(1) by (auto simp: hex_correct_def list_all_iff)
  with assms show ?thesis by (simp add: parse_address_def trim_graphic hex_correct_def sized_def)
qed


section \<open>Instances\<close>

lemma mini_se_faithful: "se_faithful test_crates mini_se" "one_level mini_se d"
  by (auto simp: se_faithful_def one_level_def mini_to_vec_def mini_from_slice_def simp del: test_crates_sel)

text \<open>A node that holds the items of the one-byte file \<open>[7]\<close>.\<close>

definition file_items :: "(byte list \<times> byte list) list" where
  "file_items = (let v = mini_to_vec (False, [mini_hash [7]]); u = mini_to_vec (True, [mini_hash v]) in
     [(mini_hash [7], [7]), (mini_hash v, v), (mini_hash u, u)])"

definition file_address :: "byte list" where
  "file_address = mini_hash (mini_to_vec (True, [mini_hash (mini_to_vec (False, [mini_hash [7]]))]))"

definition file_world :: test_world where
  "file_world = \<lparr>tw_store = map_of file_items, tw_near = (\<lambda>_. [test_peer]), tw_quote = (\<lambda>_. signed_quote), tw_stored = False\<rparr>"

lemma file_upload: "upload_items (test_env t p) [7] = Inr (file_items, file_address)"
  by (simp add: upload_items_def file_items_def file_address_def Let_def del: test_crates_sel)

lemma file_items_distinct: "distinct (map fst file_items)"
proof -
  have "be_val [] = 0" by (simp add: be_val_def)
  then show ?thesis
    by (simp add: file_items_def mini_hash_def mini_to_vec_def be_val_snoc be_val_bytes be_bytes_inj be_val_Cons Let_def)
qed

lemma test_peer_ok: "wf_PeerConnectInfo test_peer \<and> pci_peer_id test_peer = test_peer_id" "bulk (sv_PeerConnectInfo test_peer) \<le> 100"
  by (simp_all add: wf_PeerConnectInfo_def test_peer_def ascii_is_utf8 is_ascii_def test_peer_id_def sv_PeerConnectInfo_def)

lemma file_items_ok: "map_of file_items a = Some b \<Longrightarrow> length b \<le> 4 * 1024 * 1024 \<and> mini_hash b = a"
proof -
  have "list_all (\<lambda>(a, b). length b \<le> 4 * 1024 * 1024 \<and> mini_hash b = a) file_items"
    by (simp add: file_items_def mini_to_vec_def Let_def)
  then show "map_of file_items a = Some b \<Longrightarrow> length b \<le> 4 * 1024 * 1024 \<and> mini_hash b = a"
    using map_of_SomeD [of file_items a b] by (auto simp: list_all_iff)
qed

lemma file_world_ok: "test_world_ok file_world"
  using test_peer_ok file_items_ok by (simp add: test_world_ok_def file_world_def)

lemma file_stored: "list_all (\<lambda>(a, b). net_fetch test_crates (\<lambda>_. tw_store file_world) (tw_near file_world) a = Inr b) file_items"
  using file_items_distinct
  by (auto simp: list_all_iff net_fetch_def peers_fetch_def file_world_def)


text \<open>A client of that node with sequence numbers to spare, and its download of the file.\<close>

lemma file_client:
  assumes "n < unat MAX_SEQ"
  shows "\<exists>w. in_service (test_env file_world p) (chunk_nodes test_serde (\<lambda>_. tw_store file_world)) (tw_near file_world) n w"
  using test_in_service [OF file_world_ok _ assms, of "chunk_nodes test_serde (\<lambda>_. tw_store file_world)"]
    test_world_serves(1) [OF file_world_ok] unfolding chunk_nodes_def by blast

lemma file_retrieve_from:
  assumes "list_all (\<lambda>(a, b). fetch a = Inr b) file_items"
  shows "retrieve test_crates mini_se fetch file_address = (rev (map fst file_items), Inr [7])"
proof -
  define v where "v = mini_to_vec (False, [mini_hash [7]])"
  define u where "u = mini_to_vec (True, [mini_hash v])"
  have items: "file_items = [(mini_hash [7], [7]), (mini_hash v, v), (mini_hash u, u)]"
    by (simp add: file_items_def u_def v_def Let_def)
  have f: "fetch (mini_hash [7]) = Inr [7]" "fetch (mini_hash v) = Inr v" "fetch (mini_hash u) = Inr u"
    using assms by (simp_all add: items)
  have d: "mini_hash [7] \<noteq> mini_hash v" using file_items_distinct by (simp add: items)
  have s: "mini_from_slice u = Inr (True, [mini_hash v])" "mini_from_slice v = Inr (False, [mini_hash [7]])"
    by (simp_all add: u_def v_def mini_to_vec_def mini_from_slice_def)
  have a: "file_address = mini_hash u" by (simp add: file_address_def u_def v_def)
  show ?thesis
    using d by (simp add: retrieve_def retrieve_round_def retrieval_begin_def required_addresses_def is_complete_def
        retrieval_supply_def advance_def fetch_cached_def finish_def a f s items)
qed

lemmas file_retrieve = file_retrieve_from [OF file_stored]

lemma file_requests:
  "requests_for (tw_near file_world) (rev (map fst file_items)) = 6"
  "list_all (\<lambda>a. length a = 32) (rev (map fst file_items))"
  by (simp_all add: file_world_def file_items_def Let_def)

lemma file_address_text: "parse_address test_crates (hex_enc file_address) = Inr file_address"
  using parse_address_encoded [OF test_crates_hex, of file_address] by (simp add: file_address_def)

definition file_env :: "mini_map env" where
  "file_env = test_env file_world (\<lambda>_. NeverSettles)"

lemma file_env_sel [simp]: "e_crates file_env = test_crates" "e_serde file_env = test_serde" "e_se file_env = mini_se"
  by (simp_all add: file_env_def)

definition file_net :: "byte list \<Rightarrow> byte list \<rightharpoonup> byte list" where
  "file_net = (\<lambda>_. tw_store file_world)"

lemmas file_facts = test_honest_net [OF file_world_ok, of "\<lambda>_. NeverSettles", folded file_env_def file_net_def]
  file_retrieve [folded file_net_def] file_stored [folded file_net_def] file_requests file_address_text

lemma file_service: "\<exists>w. in_service file_env (chunk_nodes test_serde file_net) (tw_near file_world) 6 w"
  using file_client [of 6] by (auto simp: MAX_SEQ_def file_env_def file_net_def)

lemma download_refines_witness:
  "\<exists>w w'. download file_env (hex_enc file_address) w = (Ready (Inr [7]), w')"
proof -
  obtain w where "in_service file_env (chunk_nodes test_serde file_net) (tw_near file_world) 6 w" using file_service by blast
  with download_refines [of file_env file_net "tw_near file_world" "hex_enc file_address" file_address
      "rev (map fst file_items)" "Inr [7]" 0 w] file_facts
  show ?thesis by auto
qed


lemma download_sound_witness:
  "\<exists>w w'. download file_env (hex_enc file_address) w = (Ready (Inr [7]), w')
     \<and> denotes test_crates mini_se file_address [7]"
proof -
  obtain w where "in_service file_env (chunk_nodes test_serde file_net) (tw_near file_world) 6 w" using file_service by blast
  with download_retrieve [of file_env file_net "tw_near file_world" "hex_enc file_address" file_address
      "rev (map fst file_items)" "Inr [7]" 0 w] file_facts
  obtain w' where w': "download file_env (hex_enc file_address) w = (Ready (Inr [7]), w')" by auto
  from download_sound [OF _ _ this] mini_se_correct file_address_text w' show ?thesis by auto
qed

lemma fetch_chunk_sound_witness:
  "\<exists>w w'. fetch_chunk file_env (hex_enc (mini_hash [7])) w = (Ready (Inr [7]), w')
     \<and> parse_address test_crates (hex_enc (mini_hash [7])) = Inr (mini_hash [7])"
proof -
  obtain w where "in_service file_env (chunk_nodes test_serde file_net) (tw_near file_world) 6 w" using file_service by blast
  then have "in_service file_env (chunk_nodes test_serde file_net) (tw_near file_world) (Suc (length (tw_near file_world (mini_hash [7]))) + 0) w"
    by (auto simp: file_world_def intro: in_service_mono)
  with get_direct_serving [of file_env file_net "tw_near file_world" "mini_hash [7]" 0 w] file_facts
  obtain w' where "get_direct file_env (mini_hash [7]) w = (Ready (Inr [7]), w')"
    by (auto simp: file_items_def Let_def)
  moreover have "parse_address test_crates (hex_enc (mini_hash [7])) = Inr (mini_hash [7])"
    using parse_address_encoded [OF test_crates_hex, of "mini_hash [7]"] by simp
  ultimately have "fetch_chunk file_env (hex_enc (mini_hash [7])) w = (Ready (Inr [7]), w')"
    by (simp add: fetch_chunk_def)
  with fetch_chunk_sound [OF this] show ?thesis by (auto simp: mini_hash_def)
qed

end
