(* ===== verification/Schedules.thy ===== *)
theory Schedules
  imports Interleaving Downloads
begin

text \<open>
  The properties of downloading under every interleaving of the futures of \<open>join_all\<close>: what a download
  delivers, that every schedule ends, and that over honest nodes none of it depends on the schedule.
\<close>

section \<open>Any network\<close>

text \<open>No node and no schedule can make \<open>download\<close> deliver anything but the file: however the fetches of
  each round interleave, if bytes are returned, the address text parses and they are what that address
  denotes, provided \<open>verify_chunk\<close> checks the hash and \<open>get_root_data_map\<close> yields root maps. The pool is
  left with authenticated sessions, even where two fetches dialled the same peer.\<close>
lemma schedules_sound:
  assumes "verify_correct (e_crates env) (e_se env)" and "root_correct (e_se env)" and "client_run env w"
    and "downloads env address_hex w (Inr out) w'"
  shows "(\<exists>address. parse_address (e_crates env) address_hex = Inr address
       \<and> denotes (e_crates env) (e_se env) address out) \<and> client_ok env w'"
  using downloads_denotes [OF assms(1,2,4)] downloads_client [OF assms(4)] client_run_ok [OF assms(3)]
  by (simp add: client_step_def)

section \<open>An honest network\<close>

text \<open>Every schedule of the fetches of a round ends, after finitely many steps whatever the nodes answer; and
  over honest nodes, when no future can move any more, all of them have returned what the responsible
  peers store: none waits for ever, for a node or for a lock.\<close>
lemma schedules_end:
  assumes "honest_net env net near" and "list_all (\<lambda>a. length a = 32) as"
    and "in_service env (chunk_nodes (e_serde env) net) near (requests_for near as + n) w"
    and "(fetch_any env as)\<^sup>*\<^sup>* (replicate (length as) Discovering, w) (fs, w')" and "\<nexists>s. fetch_any env as (fs, w') s"
  shows "wf {(s', s). fetch_any env as s s'} \<and> fs = map (\<lambda>a. Fetched (net_fetch (e_crates env) net near a)) as"
  using fetch_any_wf stuck_joined [OF assms] by blast

text \<open>Over a network of honest nodes the schedule makes no difference: some schedule returns, every schedule
  that returns has exactly the result \<open>retrieve\<close> computes from what the responsible peers store, and the
  client stays in service for the next call.\<close>
lemma schedules_agree:
  assumes "honest_net env net near" and "parse_address (e_crates env) address_hex = Inr address"
    and "retrieve (e_crates env) (e_se env) (net_fetch (e_crates env) net near) address = (log, x)"
    and "list_all (\<lambda>a. length a = 32) log" and "in_service env (chunk_nodes (e_serde env) net) near (requests_for near log + n) w"
  shows "(\<exists>w'. downloads env address_hex w x w')
     \<and> (\<forall>out w'. downloads env address_hex w out w' \<longrightarrow> out = x \<and> in_service env (chunk_nodes (e_serde env) net) near n w')"
  using download_retrieve [OF assms] download_downloads downloads_retrieve [OF assms] by blast

section \<open>Instances\<close>

lemma file_downloads:
  "\<exists>w w'. client_run file_env w \<and> in_service file_env (chunk_nodes test_serde file_net) (tw_near file_world) 6 w
     \<and> downloads file_env (hex_enc file_address) w (Inr [7]) w'"
proof -
  have sv: "chunk_nodes test_serde file_net test_peer_id (test_session file_world)"
    using test_world_serves(1) [OF file_world_ok] by (simp add: chunk_nodes_def file_net_def)
  have "6 < unat MAX_SEQ" by (simp add: MAX_SEQ_def)
  from test_in_service [where serves = "chunk_nodes test_serde file_net", OF file_world_ok sv this, of "\<lambda>_. NeverSettles" "[]" 0 "[]"]
  obtain w where w: "client_connect file_env [] 0 [] [] = Ready (Inr w)"
    "in_service file_env (chunk_nodes test_serde file_net) (tw_near file_world) 6 w"
    unfolding file_env_def by blast
  with download_retrieve [of file_env file_net "tw_near file_world" "hex_enc file_address" file_address
      "rev (map fst file_items)" "Inr [7]" 0 w] file_facts
  obtain w' where "download file_env (hex_enc file_address) w = (Ready (Inr [7]), w')" by auto
  from download_downloads [OF this] w(2) client_run.connected [OF w(1)] show ?thesis by blast
qed

lemma schedules_sound_witness:
  "\<exists>w w'. downloads file_env (hex_enc file_address) w (Inr [7]) w' \<and> denotes test_crates mini_se file_address [7]
     \<and> client_ok file_env w'"
proof -
  obtain w w' where "client_run file_env w" "downloads file_env (hex_enc file_address) w (Inr [7]) w'"
    using file_downloads by blast
  with schedules_sound [OF _ _ this] mini_se_correct file_address_text show ?thesis by auto
qed

lemma schedules_agree_witness:
  "\<exists>w w'. downloads file_env (hex_enc file_address) w (Inr [7]) w'
     \<and> in_service file_env (chunk_nodes test_serde file_net) (tw_near file_world) 0 w'"
proof -
  obtain w where "in_service file_env (chunk_nodes test_serde file_net) (tw_near file_world) 6 w" using file_downloads by blast
  with schedules_agree [of file_env file_net "tw_near file_world" "hex_enc file_address" file_address
      "rev (map fst file_items)" "Inr [7]" 0 w] file_facts
  show ?thesis by auto
qed

lemma schedules_end_witness:
  "\<exists>as w w'. length as = 3 \<and> (fetch_any file_env as)\<^sup>*\<^sup>* (replicate (length as) Discovering, w)
     (map (\<lambda>a. Fetched (net_fetch test_crates file_net (tw_near file_world) a)) as, w')"
proof -
  let ?as = "rev (map fst file_items)"
  obtain w where w: "in_service file_env (chunk_nodes test_serde file_net) (tw_near file_world) (6 + 0) w"
    using file_downloads by auto
  note net = file_facts(1)
  obtain xs w' where "join_all (map (get_direct file_env) ?as) w = (Ready xs, w')"
    using join_all_serving [OF net, of ?as 0 w] w file_requests by auto
  from join_all_joined [OF this] have run: "(fetch_any file_env ?as)\<^sup>*\<^sup>* (replicate (length ?as) Discovering, w) (map Fetched xs, w')"
    by (simp add: joined_def)
  have "\<nexists>s. fetch_any file_env ?as (map Fetched xs, w') s" by (auto simp: fetch_any_iff)
  with schedules_end [OF net _ _ run, of 0] w file_requests
  have "map Fetched xs = map (\<lambda>a. Fetched (net_fetch test_crates file_net (tw_near file_world) a)) ?as" by simp
  moreover have "length ?as = 3" by (simp add: file_items_def Let_def)
  ultimately show ?thesis using run by metis
qed

end
