(* ===== verification/Tasks.thy ===== *)
theory Tasks
  imports Futures
begin

text \<open>
  The exported methods of \<open>src/lib.rs\<close> as tasks, for a page that does not wait for one call before it makes
  the next. A task is what is left of an \<open>async fn\<close>: it has returned, or it will never be woken again, or it
  runs from one await to the next on whatever the client's state is by then, or it waits for a \<open>join_all\<close>
  whose futures (\<open>fetching\<close>) move on their own. Each definition follows the function of the same name in
  \<open>Client\<close>, split where the code awaits; reading the counter of a connection for a request number and
  sending the request are different steps, as they are in \<open>Futures\<close>.
\<close>

section \<open>Tasks\<close>

datatype 'a task =
    Return "'a result"
  | Stuck
  | Step "client \<Rightarrow> 'a task \<times> client"
  | Joining "byte list list" "fetching list" "(nat \<Rightarrow> byte list result) \<Rightarrow> 'a task"

text \<open>A task followed by a continuation: for its result, for its value (\<open>.await?\<close>), for its value at once.\<close>

primrec task_then :: "'a task \<Rightarrow> ('a result \<Rightarrow> 'b task) \<Rightarrow> 'b task" where
  "task_then (Return r) k = k r"
| "task_then Stuck k = Stuck"
| "task_then (Step f) k = Step (\<lambda>w. map_prod (\<lambda>t. task_then t k) id (f w))"
| "task_then (Joining as fs g) k = Joining as fs (\<lambda>x. task_then (g x) k)"

definition task_bind :: "'a task \<Rightarrow> ('a \<Rightarrow> 'b task) \<Rightarrow> 'b task" where
  "task_bind t k = task_then t (\<lambda>r. case r of Inl e \<Rightarrow> Return (Inl e) | Inr x \<Rightarrow> k x)"

definition task_map :: "('a \<Rightarrow> 'b) \<Rightarrow> 'a task \<Rightarrow> 'b task" where
  "task_map f t = task_bind t (\<lambda>x. Return (Inr (f x)))"

lemma task_bind_Inr: "task_bind (Return (Inr x)) k = k x"
  by (simp add: task_bind_def)

text \<open>One step: an operation that nobody can come between, to its result.\<close>

definition act :: "(client, 'a) async \<Rightarrow> 'a task" where
  "act f = Step (\<lambda>w. case f w of (Pending, w1) \<Rightarrow> (Stuck, w1) | (Ready r, w1) \<Rightarrow> (Return r, w1))"

text \<open>A typed request on a connection: the counter is read, and then the lock awaited.\<close>

definition numbered :: "(client \<Rightarrow> nat) \<Rightarrow> (u64 \<Rightarrow> (NodeConnection, 'a) async) \<Rightarrow> 'a task" where
  "numbered handle f = Step (\<lambda>w. (act (on_conn (handle w) (f (request_number (handle w) w))), w))"

section \<open>Downloading\<close>

text \<open>The second half of \<open>connection_for\<close>: the \<open>d\<close>-th dial ends, and a connection goes into the pool.\<close>

definition dial :: "'m env \<Rightarrow> nat \<Rightarrow> PeerConnectInfo \<Rightarrow> (client, nat) async" where
  "dial env d peer w =
     (case conn_connect (e_crates env) (e_rtc env d) d (pci_ip peer) (pci_port peer)
             (hex_encode (e_crates env) (pci_cert_hash peer)) (Some (pci_peer_id peer)) of
        Pending \<Rightarrow> (Pending, w)
      | Ready (Inl e) \<Rightarrow> fail e w
      | Ready (Inr c) \<Rightarrow> ok (length (conns w))
          (w\<lparr>conns := conns w @ [c], pool := AList.update (pci_peer_id peer) (length (conns w)) (pool w)\<rparr>))"

definition connection_task :: "'m env \<Rightarrow> PeerConnectInfo \<Rightarrow> nat task" where
  "connection_task env peer = Step (\<lambda>w.
     case map_of (pool w) (pci_peer_id peer) of
       Some h \<Rightarrow> (Return (Inr h), w)
     | None \<Rightarrow> (act (dial env (dials w) peer), w\<lparr>dials := Suc (dials w)\<rparr>))"

text \<open>\<open>get_direct\<close> is a future of \<open>Futures\<close>, here awaited alone.\<close>

definition get_direct_task :: "byte list \<Rightarrow> byte list task" where
  "get_direct_task address = Joining [address] [Discovering] (\<lambda>x. Return (x 0))"

function download_rounds_task :: "'m env \<Rightarrow> 'm Retrieval \<Rightarrow> 'm Retrieval task" where
  "download_rounds_task env r =
     (if is_complete (e_se env) r then Return (Inr r)
      else
        (let addrs = required_addresses (e_se env) r in
         Joining addrs (replicate (length addrs) Discovering) (\<lambda>x. Step (\<lambda>w.
           (case supply_fetched env (zip addrs (map x [0..<length addrs])) r w of
              (Pending, w1) \<Rightarrow> (Stuck, w1)
            | (Ready (Inl e), w1) \<Rightarrow> (Return (Inl e), w1)
            | (Ready (Inr r1), w1) \<Rightarrow>
                (case advance (e_crates env) (e_se env) r1 of
                   Inl e \<Rightarrow> (Return (Inl e), w1)
                 | Inr r2 \<Rightarrow> (download_rounds_task env r2, w1)))))))"
  by pat_completeness auto

termination
proof (relation "measure (\<lambda>(env, r). rounds_left (e_se env) r)")
  fix env :: "'m env" and r addrs x w y w1 z r1 r2
  assume "\<not> is_complete (e_se env) r" and addrs: "addrs = required_addresses (e_se env) r"
    and s: "(y, w1) = supply_fetched env (zip addrs (map x [0..<length addrs])) r w" "y = Ready z" "z = Inr r1"
    and a: "advance (e_crates env) (e_se env) r1 = Inr r2"
  moreover obtain got where "map fst got = addrs" "supply_all (e_crates env) (e_se env) got r = Inr r1"
    using supply_fetched_all [of env "zip addrs (map x [0..<length addrs])" r w r1 w1] s by auto
  ultimately show "((env, r2), env, r) \<in> measure (\<lambda>(env, r). rounds_left (e_se env) r)"
    using round_progress by fastforce
qed simp

declare download_rounds_task.simps [simp del]

definition download_task :: "'m env \<Rightarrow> string \<Rightarrow> byte list task" where
  "download_task env address_hex =
     task_bind (Return (parse_address (e_crates env) address_hex)) (\<lambda>address.
     task_bind (act (modify (\<lambda>w. w\<lparr>chunks_fetched := 0\<rparr>))) (\<lambda>_.
     task_bind (get_direct_task address) (\<lambda>map_bytes.
     task_bind (act (modify (\<lambda>w. w\<lparr>chunks_fetched := chunks_fetched w + 1\<rparr>))) (\<lambda>_.
     task_bind (Return (retrieval_begin (e_se env) address map_bytes)) (\<lambda>retrieval.
     task_bind (download_rounds_task env retrieval) (\<lambda>retrieval.
     Return (finish (e_crates env) (e_se env) retrieval)))))))"

definition fetch_chunk_task :: "'m env \<Rightarrow> string \<Rightarrow> byte list task" where
  "fetch_chunk_task env address_hex =
     task_bind (Return (parse_address (e_crates env) address_hex)) get_direct_task"

section \<open>Diagnostics\<close>

text \<open>
  The browser's part of a relayed connection touches nothing that is shared, so dialling, the request to the
  relay and the new connection's first request are one step once the request number has been read.
\<close>

definition relay_and_get ::
    "'m env \<Rightarrow> nat \<Rightarrow> u64 \<Rightarrow> byte list \<Rightarrow> string \<Rightarrow> byte list \<Rightarrow> (client, nat) async" where
  "relay_and_get env d i target stun_addr address =
     await (on_bootstrap (conn_connect_relayed (e_crates env) (signal_relay_as (e_crates env) (e_serde env) i target)
              (e_rtc env d) d stun_addr target))
       (\<lambda>conn w.
          (case get_verified (e_crates env) (e_serde env) address conn of
             (Pending, _) \<Rightarrow> (Pending, w)
           | (Ready (Inl e), _) \<Rightarrow> fail e w
           | (Ready (Inr bytes), _) \<Rightarrow> ok (length bytes) w))"

definition relayed_fetch_task :: "'m env \<Rightarrow> string \<Rightarrow> string \<Rightarrow> string \<Rightarrow> nat task" where
  "relayed_fetch_task env target_peer_id_hex stun_addr address_hex =
     task_bind (Return (parse_address (e_crates env) target_peer_id_hex)) (\<lambda>target.
     task_bind (Return (parse_address (e_crates env) address_hex)) (\<lambda>address.
     Step (\<lambda>w. (Step (\<lambda>w1.
        (act (relay_and_get env (dials w) (request_number (bootstrap w1) w1) target stun_addr address), w1)),
        w\<lparr>dials := Suc (dials w)\<rparr>))))"

definition closest_peers_json_task :: "'m env \<Rightarrow> string \<Rightarrow> string task" where
  "closest_peers_json_task env address_hex =
     task_bind (Return (parse_address (e_crates env) address_hex)) (\<lambda>address.
     task_map (peers_json (e_crates env))
       (numbered bootstrap (\<lambda>i. closest_peers_as (e_crates env) (e_serde env) i address)))"

section \<open>Uploading\<close>

definition try_quote_task ::
    "'m env \<Rightarrow> PeerConnectInfo \<Rightarrow> byte list \<Rightarrow> nat \<Rightarrow> (Quote \<times> bool \<times> byte list option) task" where
  "try_quote_task env peer address data_size =
     task_bind (connection_task env peer) (\<lambda>h.
     task_bind (act (on_conn h (request_quote (e_crates env) (e_serde env) address data_size)))
       (\<lambda>(quote_bytes, already_stored, commitment).
     task_bind (Return (map_err (\<lambda>e. ''quote parse: '' @ display_payment_error e)
              (parse_quote (rmp_from_slice (e_serde env)) quote_bytes))) (\<lambda>quote.
       if content quote \<noteq> address then Return (Inl ''quote is for a different address'')
       else if blake3_hash (e_crates env) (pub_key quote) \<noteq> pci_peer_id peer
       then Return (Inl ''quote public key does not match the peer id'')
       else if \<not> verify_quote (e_crates env) quote then Return (Inl ''quote signature verification failed'')
       else Return (Inr (quote, already_stored, commitment)))))"

primrec quote_attempts_task ::
    "'m env \<Rightarrow> PeerConnectInfo \<Rightarrow> byte list \<Rightarrow> nat \<Rightarrow> nat \<Rightarrow> string
      \<Rightarrow> (Quote \<times> bool \<times> byte list option) task" where
  "quote_attempts_task env peer address data_size 0 last_err = Return (Inl last_err)"
| "quote_attempts_task env peer address data_size (Suc k) last_err =
     task_then (try_quote_task env peer address data_size) (\<lambda>r.
       case r of
         Inr q \<Rightarrow> Return (Inr q)
       | Inl e \<Rightarrow> Step (\<lambda>w. (quote_attempts_task env peer address data_size k e,
           if k = 0 then w else w\<lparr>pool := AList.delete (pci_peer_id peer) (pool w)\<rparr>)))"

primrec collect_quotes_task ::
    "'m env \<Rightarrow> byte list \<Rightarrow> nat \<Rightarrow> PeerConnectInfo list \<Rightarrow> QuotedPeer list \<Rightarrow> nat \<Rightarrow> QuotedPeer list option task" where
  "collect_quotes_task env address data_size [] quoted already_stored_count = Return (Inr (Some quoted))"
| "collect_quotes_task env address data_size (peer # peers) quoted already_stored_count =
     task_then (quote_attempts_task env peer address data_size QUOTE_ATTEMPTS ''no attempt'') (\<lambda>r.
       case r of
         Inl last_err \<Rightarrow>
           Return (Inl (''close-group peer '' @ hex_encode (e_crates env) (pci_peer_id peer)
             @ '' did not give a valid quote for '' @ hex_encode (e_crates env) address
             @ '' after 3 tries: '' @ last_err))
       | Inr (quote, already_stored, commitment) \<Rightarrow>
           if already_stored \<and> already_stored_count + 1 \<ge> CLOSE_GROUP_MAJORITY then Return (Inr None)
           else
             task_bind (connection_task env peer) (\<lambda>h.
               collect_quotes_task env address data_size peers
                 (quoted @ [\<lparr>qp_peer_id = pci_peer_id peer, qp_conn = h, qp_quote = quote,
                             qp_commitment = commitment\<rparr>])
                 (already_stored_count + (if already_stored then 1 else 0))))"

primrec put_attempts_task ::
    "'m env \<Rightarrow> nat \<Rightarrow> byte list \<Rightarrow> byte list \<Rightarrow> byte list \<Rightarrow> nat \<Rightarrow> string \<Rightarrow> (bool \<times> string) task" where
  "put_attempts_task env h address data proof_bytes 0 last_err = Return (Inr (False, last_err))"
| "put_attempts_task env h address data proof_bytes (Suc k) last_err =
     task_then (act (on_conn h (put_chunk (e_crates env) (e_serde env) address data proof_bytes))) (\<lambda>r.
       case r of
         Inr accepted \<Rightarrow> Return (Inr (accepted, last_err))
       | Inl e \<Rightarrow> put_attempts_task env h address data proof_bytes k e)"

primrec put_all_task ::
    "'m env \<Rightarrow> byte list \<Rightarrow> byte list \<Rightarrow> byte list \<Rightarrow> QuotedPeer list \<Rightarrow> nat \<Rightarrow> string \<Rightarrow> (nat \<times> string) task" where
  "put_all_task env address data proof_bytes [] accepted last_err = Return (Inr (accepted, last_err))"
| "put_all_task env address data proof_bytes (peer # peers) accepted last_err =
     task_bind (put_attempts_task env (qp_conn peer) address data proof_bytes QUOTE_ATTEMPTS last_err) (\<lambda>(yes, last1).
       put_all_task env address data proof_bytes peers (accepted + (if yes then 1 else 0)) last1)"

definition pay_quotes_task :: "'m env \<Rightarrow> byte list \<Rightarrow> byte list \<Rightarrow> QuotedPeer list \<Rightarrow> byte list task" where
  "pay_quotes_task env token vault quoted =
     (let cr = e_crates env; quotes = map qp_quote quoted in
      task_bind (Return (payment_split cr quotes)) (\<lambda>payments.
      let total = total_amount payments; approve = approve_calldata vault total in
      task_bind (act (call_pay env (to_hex cr token) (hex_0x cr approve))) (\<lambda>_.
      task_bind (act (call_pay env (to_hex cr vault) (hex_0x cr (pay_for_quotes_calldata cr payments)))) (\<lambda>tx_hex.
      task_bind (Return (parse_tx_hash cr tx_hex)) (\<lambda>tx_hash.
      let peer_quotes = map (\<lambda>q. (qp_peer_id q, qp_quote q)) quoted;
          sidecars = List.map_filter qp_commitment quoted in
      Return (map_err (\<lambda>e. ''proof serialize failed: '' @ display_payment_error e)
        (serialize_single_node_proof (rmp_to_vec (e_serde env)) peer_quotes tx_hash sidecars)))))))"

definition put_phase_task ::
    "'m env \<Rightarrow> byte list \<Rightarrow> byte list \<Rightarrow> byte list \<Rightarrow> QuotedPeer list \<Rightarrow> unit task" where
  "put_phase_task env address data proof_bytes quoted =
     task_bind (put_all_task env address data proof_bytes quoted 0 []) (\<lambda>(accepted, last_err).
       if accepted < CLOSE_GROUP_MAJORITY
       then Return (Inl (''chunk '' @ hex_encode (e_crates env) address @ '' accepted by only ''
              @ show_nat accepted @ '' of 7 peers: '' @ last_err))
       else Return (Inr ()))"

definition store_one_task ::
    "'m env \<Rightarrow> byte list \<Rightarrow> byte list \<Rightarrow> byte list \<Rightarrow> byte list \<Rightarrow> unit task" where
  "store_one_task env address data token vault =
     task_bind (numbered bootstrap (\<lambda>i. closest_peers_as (e_crates env) (e_serde env) i address)) (\<lambda>peers.
     if length peers < CLOSE_GROUP_SIZE
     then Return (Inl (''need at least 7 responsible peers for '' @ hex_encode (e_crates env) address
            @ '', discovery returned '' @ show_nat (length peers)))
     else
       task_bind (collect_quotes_task env address (length data) (take CLOSE_GROUP_SIZE peers) [] 0) (\<lambda>found.
       case found of
         None \<Rightarrow> Return (Inr ())
       | Some quoted \<Rightarrow>
           task_bind (pay_quotes_task env token vault quoted)
             (\<lambda>proof_bytes. put_phase_task env address data proof_bytes quoted)))"

primrec store_items_task ::
    "'m env \<Rightarrow> byte list \<Rightarrow> byte list \<Rightarrow> (byte list \<times> byte list) list \<Rightarrow> unit task" where
  "store_items_task env token vault [] = Return (Inr ())"
| "store_items_task env token vault (item # items) =
     task_bind (store_one_task env (fst item) (snd item) token vault) (\<lambda>_. store_items_task env token vault items)"

definition upload_task :: "'m env \<Rightarrow> byte list \<Rightarrow> string \<Rightarrow> string \<Rightarrow> string task" where
  "upload_task env data token_addr_hex vault_addr_hex =
     task_bind (Return (parse_eth_address (e_crates env) token_addr_hex)) (\<lambda>token.
     task_bind (Return (parse_eth_address (e_crates env) vault_addr_hex)) (\<lambda>vault.
     task_bind (Return (upload_items env data)) (\<lambda>(items, map_address).
     task_bind (store_items_task env token vault items) (\<lambda>_.
     Return (Inr (hex_encode (e_crates env) map_address))))))"

section \<open>The page\<close>

datatype page_call =
    Download string
  | FetchChunk string
  | Upload "byte list" string string
  | RelayedFetch string string string
  | ClosestPeersJson string

datatype page_value = Bytes "byte list" | Text string | Count nat

fun call_task :: "'m env \<Rightarrow> page_call \<Rightarrow> page_value task" where
  "call_task env (Download address_hex) = task_map Bytes (download_task env address_hex)"
| "call_task env (FetchChunk address_hex) = task_map Bytes (fetch_chunk_task env address_hex)"
| "call_task env (Upload data token_hex vault_hex) = task_map Text (upload_task env data token_hex vault_hex)"
| "call_task env (RelayedFetch target_hex stun address_hex) =
     task_map Count (relayed_fetch_task env target_hex stun address_hex)"
| "call_task env (ClosestPeersJson address_hex) = task_map Text (closest_peers_json_task env address_hex)"

text \<open>
  One step of a task: up to its next await; a step of one of the futures it joins; or, once all of them have
  returned, on with their results.
\<close>

inductive task_step :: "'m env \<Rightarrow> 'a task \<times> client \<Rightarrow> 'a task \<times> client \<Rightarrow> bool" for env where
  runs: "f w = (t, w') \<Longrightarrow> task_step env (Step f, w) (t, w')"
| fetches: "i < length fs \<Longrightarrow> active (fs ! i) \<Longrightarrow> fetch_step env (as ! i) (fs ! i) w = (f, w') \<Longrightarrow>
     task_step env (Joining as fs k, w) (Joining as (fs[i := f]) k, w')"
| joins: "length xs = length as \<Longrightarrow> task_step env (Joining as (map Fetched xs) k, w) (k (\<lambda>i. xs ! i), w)"

inductive_simps task_step_simps [simp]:
  "task_step env (Return r, w) s"
  "task_step env (Stuck, w) s"
  "task_step env (Step f, w) s"

inductive_cases task_step_JoiningE: "task_step env (Joining as fs k, w) s"

text \<open>The calls of the page that are under way, and a step of any of them.\<close>

type_synonym page = "(page_call \<times> page_value task) list \<times> client"

inductive calls_step :: "'m env \<Rightarrow> page \<Rightarrow> page \<Rightarrow> bool" for env where
  "i < length cs \<Longrightarrow> cs ! i = (c, t) \<Longrightarrow> task_step env (t, w) (t', w') \<Longrightarrow>
     calls_step env (cs, w) (cs[i := (c, t')], w')"

lemma calls_step_calls: "calls_step env s s' \<Longrightarrow> map fst (fst s') = map fst (fst s)"
  by (erule calls_step.cases) (metis fst_conv list_update_id map_update)

text \<open>The life of a page: it connects, and from then on makes any call at any time.\<close>

inductive page_run :: "'m env \<Rightarrow> page \<Rightarrow> bool" for env where
  connected: "client_connect env ip port cert_hash_hex peer_id_hex = Ready (Inr w) \<Longrightarrow> page_run env ([], w)"
| called: "page_run env (cs, w) \<Longrightarrow> page_run env (cs @ [(c, call_task env c)], w)"
| moved: "page_run env s \<Longrightarrow> calls_step env s s' \<Longrightarrow> page_run env s'"

end
