(* ===== verification/Delivery.thy ===== *)
theory Delivery
  imports Interleaving Tasks
begin

text \<open>
  Tasks that overlap, over honest nodes. \<open>fulfils\<close> says of a task that it will return what it
  should after at most \<open>k\<close> more requests, whatever the other calls do meanwhile with the requests set aside
  for them: no task hangs, and none of the results depends on the order of the steps. Here it is shown of
  the calls that read.
\<close>

section \<open>Tasks that deliver\<close>

text \<open>What the others can do to the client: open connections.\<close>

definition extends :: "(nat \<Rightarrow> node_session) \<Rightarrow> client \<Rightarrow> (nat \<Rightarrow> node_session) \<Rightarrow> client \<Rightarrow> bool" where
  "extends sess w sess' w' \<longleftrightarrow> bootstrap w' = bootstrap w \<and> length (conns w) \<le> length (conns w')
     \<and> (\<forall>h < length (conns w). sess' h = sess h)"

lemma extends_refl [simp]: "extends sess w sess w"
  by (simp add: extends_def)

lemma extends_trans: "extends s1 w1 s2 w2 \<Longrightarrow> extends s2 w2 s3 w3 \<Longrightarrow> extends s1 w1 s3 w3"
  by (auto simp: extends_def)

text \<open>What is returned has a property that holds from then on, whatever the others do.\<close>

inductive fulfils :: "'m env \<Rightarrow> (byte list \<Rightarrow> node_session \<Rightarrow> bool) \<Rightarrow> (byte list \<Rightarrow> byte list \<rightharpoonup> byte list)
    \<Rightarrow> (byte list \<Rightarrow> PeerConnectInfo list) \<Rightarrow> ('a result \<Rightarrow> (nat \<Rightarrow> node_session) \<Rightarrow> client \<Rightarrow> bool)
    \<Rightarrow> 'a task \<Rightarrow> nat \<Rightarrow> (nat \<Rightarrow> node_session) \<Rightarrow> client \<Rightarrow> bool"
  for env serves net near P where
  Return: "(\<And>sess' w'. extends sess w sess' w' \<Longrightarrow> P r sess' w') \<Longrightarrow> fulfils env serves net near P (Return r) k sess w"
| Step: "(\<And>sess' w' n. extends sess w sess' w' \<Longrightarrow> serving env serves near sess' (k + n) w' \<Longrightarrow>
       \<exists>k' sess''. serving env serves near sess'' (k' + n) (snd (f w'))
         \<and> extends sess' w' sess'' (snd (f w')) \<and> fulfils env serves net near P (fst (f w')) k' sess'' (snd (f w'))) \<Longrightarrow>
     fulfils env serves net near P (Step f) k sess w"
| Joining: "length fs = length as \<Longrightarrow> length ks = length as \<Longrightarrow> list_all (\<lambda>a. length a = 32) as \<Longrightarrow>
     (\<forall>i < length as. on_course env net near sess w (as ! i) (fs ! i) (ks ! i)) \<Longrightarrow>
     (\<And>x sess' w'. extends sess w sess' w' \<Longrightarrow> (\<forall>i < length as. x i = net_fetch (e_crates env) net near (as ! i)) \<Longrightarrow>
       fulfils env serves net near P (g x) rest sess' w') \<Longrightarrow>
     fulfils env serves net near P (Joining as fs g) (sum_list ks + rest) sess w"

inductive_cases fulfils_ReturnE: "fulfils env serves net near P (Return r) k sess w"
inductive_cases fulfils_StuckE: "fulfils env serves net near P Stuck k sess w"
inductive_cases fulfils_StepE: "fulfils env serves net near P (Step f) k sess w"
inductive_cases fulfils_JoiningE: "fulfils env serves net near P (Joining as fs g) k sess w"

lemma on_course_extends:
  "on_course env net near sess w a f k \<Longrightarrow> extends sess w sess' w' \<Longrightarrow> on_course env net near sess' w' a f k"
  unfolding extends_def by (rule on_course_mono) auto

lemma fulfils_later:
  assumes "fulfils env serves net near P t k sess w" and "extends sess w sess' w'"
  shows "fulfils env serves net near P t k sess' w'"
proof -
  note later = extends_trans [OF assms(2)]
  from assms(1) show ?thesis
  proof cases
    case (Return r)
    with later show ?thesis by (auto intro: fulfils.Return)
  next
    case (Step f)
    show ?thesis unfolding Step(1) by (rule fulfils.Step) (rule Step(2) [OF later])
  next
    case (Joining fs as ks g rest)
    show ?thesis
      unfolding Joining(1,2)
      by (rule fulfils.Joining [OF Joining(3-5)])
        (use Joining(6,7) later on_course_extends [OF _ assms(2)] in blast)+
  qed
qed

text \<open>More requests may be set aside than are needed.\<close>

lemma fulfils_more: "fulfils env serves net near P t k sess w \<Longrightarrow> fulfils env serves net near P t (k + m) sess w"
proof (induction rule: fulfils.induct)
  case (Return sess w r k)
  then show ?case by (rule fulfils.Return)
next
  case (Step sess w k f)
  show ?case
  proof (rule fulfils.Step)
    fix sess' w' n assume e: "extends sess w sess' w'"
      and "serving env serves near sess' (k + m + n) w'"
    then have "serving env serves near sess' (k + (m + n)) w'" by (simp add: add.assoc)
    from Step [OF e this] obtain k' sess'' where
      "serving env serves near sess'' (k' + (m + n)) (snd (f w'))"
      "extends sess' w' sess'' (snd (f w'))" "fulfils env serves net near P (fst (f w')) (k' + m) sess'' (snd (f w'))"
      by blast
    then show "\<exists>k' sess''. serving env serves near sess'' (k' + n) (snd (f w'))
         \<and> extends sess' w' sess'' (snd (f w')) \<and> fulfils env serves net near P (fst (f w')) k' sess'' (snd (f w'))"
      by (intro exI [of _ "k' + m"] exI [of _ sess'']) (simp add: add.assoc)
  qed
next
  case (Joining fs as ks sess w g rest)
  show ?case
    unfolding add.assoc by (rule fulfils.Joining [OF Joining(1-4)]) (rule Joining(6))
qed

lemma fulfils_weaken:
  assumes "fulfils env serves net near Q t k sess w" and "k \<le> l"
    and "\<And>r sess' w'. extends sess w sess' w' \<Longrightarrow> Q r sess' w' \<Longrightarrow> P r sess' w'"
  shows "fulfils env serves net near P t l sess w"
proof -
  have "fulfils env serves net near P t k sess w"
    using assms(1,3)
  proof (induction rule: fulfils.induct)
    case (Step sess w k f)
    show ?case
    proof (rule fulfils.Step)
      fix sess' w' n assume e: "extends sess w sess' w'" and sv: "serving env serves near sess' (k + n) w'"
      from Step(1) [OF e sv] obtain k' sess'' where s: "serving env serves near sess'' (k' + n) (snd (f w'))"
        "extends sess' w' sess'' (snd (f w'))"
        "(\<And>r s v. extends sess'' (snd (f w')) s v \<Longrightarrow> Q r s v \<Longrightarrow> P r s v) \<Longrightarrow>
           fulfils env serves net near P (fst (f w')) k' sess'' (snd (f w'))" by blast
      from s(3) [OF Step(2) [OF extends_trans [OF extends_trans [OF e s(2)]]]] s(1,2)
      show "\<exists>k' sess''. serving env serves near sess'' (k' + n) (snd (f w')) \<and> extends sess' w' sess'' (snd (f w'))
         \<and> fulfils env serves net near P (fst (f w')) k' sess'' (snd (f w'))" by blast
    qed
  next
    case (Joining fs as ks sess w g rest)
    show ?case
      by (rule fulfils.Joining [OF Joining(1-4)])
        (rule Joining(6), assumption, assumption, rule Joining(7), erule extends_trans)
  qed (auto intro: fulfils.Return)
  from fulfils_more [OF this, of "l - k"] assms(2) show ?thesis by simp
qed

lemma fulfils_then:
  assumes "fulfils env serves net near Q t k sess w"
    and "\<And>r sess' w'. extends sess w sess' w' \<Longrightarrow> Q r sess' w' \<Longrightarrow> fulfils env serves net near P (g r) l sess' w'"
  shows "fulfils env serves net near P (task_then t g) (k + l) sess w"
  using assms
proof (induction rule: fulfils.induct)
  case (Return sess w r k)
  from fulfils_more [OF Return(2) [OF extends_refl Return(1) [OF extends_refl]], of k]
  show ?case by (simp add: add.commute)
next
  case (Step sess w k f)
  show ?case
    unfolding task_then.simps
  proof (rule fulfils.Step)
    fix sess' w' n assume e: "extends sess w sess' w'"
      and "serving env serves near sess' (k + l + n) w'"
    then have "serving env serves near sess' (k + (l + n)) w'" by (simp add: add.assoc)
    from Step(1) [OF e this] obtain k' sess'' where s:
      "serving env serves near sess'' (k' + (l + n)) (snd (f w'))" "extends sess' w' sess'' (snd (f w'))"
      "(\<And>r s u. extends sess'' (snd (f w')) s u \<Longrightarrow> Q r s u \<Longrightarrow> fulfils env serves net near P (g r) l s u) \<Longrightarrow>
         fulfils env serves net near P (task_then (fst (f w')) g) (k' + l) sess'' (snd (f w'))"
      by blast
    from s(3) [OF Step(2) [OF extends_trans [OF extends_trans [OF e s(2)]]]] s(1,2)
    show "\<exists>k' sess''. serving env serves near sess'' (k' + n) (snd (map_prod (\<lambda>t. task_then t g) id (f w')))
        \<and> extends sess' w' sess'' (snd (map_prod (\<lambda>t. task_then t g) id (f w')))
        \<and> fulfils env serves net near P (fst (map_prod (\<lambda>t. task_then t g) id (f w'))) k' sess''
            (snd (map_prod (\<lambda>t. task_then t g) id (f w')))"
      by (intro exI [of _ "k' + l"] exI [of _ sess'']) (simp add: add.assoc)
  qed
next
  case (Joining fs as ks sess w g' rest)
  show ?case
    unfolding task_then.simps add.assoc
    by (rule fulfils.Joining [OF Joining(1-4)]) (rule Joining(6), assumption, assumption, rule Joining(7), erule extends_trans)
qed

text \<open>A continuation that only meets values.\<close>

lemma fulfils_bind:
  assumes "fulfils env serves net near (\<lambda>r s v. \<exists>x. r = Inr x \<and> Q x s v) t k sess w"
    and "\<And>x sess' w'. extends sess w sess' w' \<Longrightarrow> Q x sess' w' \<Longrightarrow> fulfils env serves net near P (g x) l sess' w'"
  shows "fulfils env serves net near P (task_bind t g) (k + l) sess w"
  unfolding task_bind_def by (rule fulfils_then [OF assms(1)]) (use assms(2) in auto)

lemma fulfils_bind_eq:
  assumes "fulfils env serves net near (\<lambda>r s v. r = Inr x) t k sess w"
    and "\<And>sess' w'. extends sess w sess' w' \<Longrightarrow> fulfils env serves net near P (g x) l sess' w'"
  shows "fulfils env serves net near P (task_bind t g) (k + l) sess w"
  unfolding task_bind_def by (rule fulfils_then [OF assms(1)]) (use assms(2) in auto)

text \<open>One operation.\<close>

lemma fulfils_act:
  assumes "\<And>sess' w' n. extends sess w sess' w' \<Longrightarrow> serving env serves near sess' (k + n) w' \<Longrightarrow>
      \<exists>r w'' sess''. f w' = (Ready r, w'') \<and> serving env serves near sess'' n w'' \<and> extends sess' w' sess'' w''
        \<and> (\<forall>s v. extends sess'' w'' s v \<longrightarrow> P r s v)"
  shows "fulfils env serves net near P (act f) k sess w"
  unfolding act_def
proof (rule fulfils.Step)
  fix sess' w' n assume "extends sess w sess' w'" "serving env serves near sess' (k + n) w'"
  from assms [OF this] obtain r w'' sess'' where f: "f w' = (Ready r, w'')" "serving env serves near sess'' n w''"
    "extends sess' w' sess'' w''" "\<forall>s v. extends sess'' w'' s v \<longrightarrow> P r s v" by blast
  let ?next = "case f w' of (Pending, w1) \<Rightarrow> (Stuck, w1) | (Ready r, w1) \<Rightarrow> (Return r, w1)"
  have n: "?next = (Return r, w'')" by (simp add: f(1))
  show "\<exists>k' sess''. serving env serves near sess'' (k' + n) (snd ?next) \<and> extends sess' w' sess'' (snd ?next)
      \<and> fulfils env serves net near P (fst ?next) k' sess'' (snd ?next)"
    unfolding n using f(2-4) by (intro exI [of _ 0] exI [of _ sess'']) (auto intro: fulfils.Return)
qed

text \<open>A step that sends nothing.\<close>

lemma fulfils_quiet:
  assumes "\<And>sess' w' n. extends sess w sess' w' \<Longrightarrow> serving env serves near sess' n w' \<Longrightarrow>
      fulfils env serves net near P (t w') k sess' (u w')"
    and "\<And>sess' w' n. serving env serves near sess' n w' \<Longrightarrow> serving env serves near sess' n (u w') \<and> extends sess' w' sess' (u w')"
  shows "fulfils env serves net near P (Step (\<lambda>w. (t w, u w))) k sess w"
proof (rule fulfils.Step)
  fix sess' w' n assume "extends sess w sess' w'" "serving env serves near sess' (k + n) w'"
  with assms show "\<exists>k' sess''. serving env serves near sess'' (k' + n) (snd (t w', u w')) \<and> extends sess' w' sess'' (snd (t w', u w'))
      \<and> fulfils env serves net near P (fst (t w', u w')) k' sess'' (snd (t w', u w'))"
    by (intro exI [of _ k] exI [of _ sess']) simp
qed

text \<open>One request on a connection.\<close>

lemma fulfils_request:
  assumes "h < length (conns w)"
    and "\<And>n c. synced (e_crates env) (sess h) (Suc n) c \<Longrightarrow> \<exists>c'. f c = (Ready r, c') \<and> synced (e_crates env) (sess h) n c'"
  shows "fulfils env serves net near (\<lambda>x s v. x = r) (act (on_conn h f)) 1 sess w"
proof (rule fulfils_act)
  fix sess' w' n assume e: "extends sess w sess' w'" and sv: "serving env serves near sess' (1 + n) w'"
  have h: "h < length (conns w')" "sess' h = sess h" using e assms(1) by (auto simp: extends_def)
  have "synced (e_crates env) (sess' h) (Suc n) (conns w' ! h)" using sv h(1) by (simp add: serving_def)
  from assms(2) [OF this [unfolded h(2)]] obtain c where c: "f (conns w' ! h) = (Ready r, c)" "synced (e_crates env) (sess' h) n c"
    using h(2) by auto
  obtain w'' where w'': "on_conn h f w' = (Ready r, w'')" "serving env serves near sess' n w''"
    using serving_on_conn [where f = f, OF sv [simplified] h(1) c] by blast
  moreover have "extends sess' w' sess' w''" using w''(1) by (auto simp: extends_def on_conn_def split: prod.splits)
  ultimately show "\<exists>x w'' sess''. on_conn h f w' = (Ready x, w'') \<and> serving env serves near sess'' n w''
      \<and> extends sess' w' sess'' w'' \<and> (\<forall>s v. extends sess'' w'' s v \<longrightarrow> x = r)" by blast
qed

text \<open>A step of such a task, with \<open>n\<close> requests set aside for the others.\<close>

lemma fetch_step_extends:
  assumes "fetch_step env a f w = (f', w')" and "\<forall>h < length (conns w). sess' h = sess h"
  shows "extends sess w sess' w'"
  using fetch_step_client [OF assms(1)] assms(2) by (simp add: extends_def client_step_def)

lemma sum_list_others: "i < length ks \<Longrightarrow> sum_list (ks[i := l]) = l + sum_list (ks[i := 0 :: nat])"
  by (induction ks arbitrary: i) (auto split: nat.split simp: nth_Cons')

lemma fulfils_fetches:
  assumes "holding env serves net near" and "fulfils env serves net near P (Joining as fs g) k sess w"
    and "serving env serves near sess (k + n) w" and "i < length fs" and "active (fs ! i)"
    and "fetch_step env (as ! i) (fs ! i) w = (f, w')"
  shows "\<exists>k' sess'. fulfils env serves net near P (Joining as (fs[i := f]) g) k' sess' w' \<and> extends sess w sess' w'
     \<and> serving env serves near sess' (k' + n) w'"
proof -
  obtain ks rest where k: "k = sum_list ks + rest" "length fs = length as"
    "length ks = length as" "list_all (\<lambda>a. length a = 32) as"
    "\<forall>i < length as. on_course env net near sess w (as ! i) (fs ! i) (ks ! i)"
    and g: "\<And>x sess' w'. extends sess w sess' w' \<Longrightarrow> (\<forall>i < length as. x i = net_fetch (e_crates env) net near (as ! i)) \<Longrightarrow>
       fulfils env serves net near P (g x) rest sess' w'"
    using assms(2) by (rule fulfils_JoiningE) blast
  have i: "i < length as" using assms(4) k(2) by simp
  let ?others = "sum_list (ks[i := 0])"
  have "sum_list ks = ks ! i + ?others" using sum_list_others [of i ks "ks ! i"] i k(3) by simp
  then have "serving env serves near sess (ks ! i + (?others + rest + n)) w"
    using assms(3) k(1) by (simp add: add.assoc)
  moreover have "length (as ! i) = 32" using k(4) i by (simp add: list_all_length)
  ultimately obtain l sess' where n: "on_course env net near sess' w' (as ! i) f l"
    "serving env serves near sess' (l + (?others + rest + n)) w'" "\<forall>h < length (conns w). sess' h = sess h"
    using fetch_step_on_course [OF assms(1) _ _ _ assms(6,5)] k(5) i by metis
  note e = fetch_step_extends [OF assms(6) n(3)]
  have "on_course env net near sess' w' (as ! j) (fs[i := f] ! j) (ks[i := l] ! j)" if "j < length as" for j
    using that n(1) on_course_extends [OF k(5) [rule_format, OF that] e] k(2,3) by (cases "j = i") auto
  then have "fulfils env serves net near P (Joining as (fs[i := f]) g) (sum_list (ks[i := l]) + rest) sess' w'"
    using k(2-4) by (intro fulfils.Joining g extends_trans [OF e]) auto
  moreover have "sum_list (ks[i := l]) + rest + n = l + (?others + rest + n)"
    using sum_list_others [of i ks l] i k(3) by simp
  ultimately show ?thesis using n(2) e by metis
qed

lemma fulfils_step:
  assumes "holding env serves net near" and "task_step env (t, w) (t', w')" and "fulfils env serves net near P t k sess w"
    and "serving env serves near sess (k + n) w"
  shows "\<exists>k' sess'. fulfils env serves net near P t' k' sess' w' \<and> extends sess w sess' w'
     \<and> serving env serves near sess' (k' + n) w'"
  using assms(2)
proof cases
  case (runs f)
  from assms(3) [unfolded runs(1)] show ?thesis
  proof (rule fulfils_StepE)
    assume "\<And>sess' w' n. extends sess w sess' w' \<Longrightarrow> serving env serves near sess' (k + n) w' \<Longrightarrow>
       \<exists>k' sess''. serving env serves near sess'' (k' + n) (snd (f w'))
         \<and> extends sess' w' sess'' (snd (f w')) \<and> fulfils env serves net near P (fst (f w')) k' sess'' (snd (f w'))"
    from this [OF extends_refl assms(4)] runs(2) show ?thesis by auto
  qed
next
  case (fetches i fs as f g)
  from fulfils_fetches [OF assms(1) assms(3) [unfolded fetches(1)] assms(4) fetches(3-5)] show ?thesis
    unfolding fetches(2) .
next
  case (joins xs as g)
  from assms(3) [unfolded joins(1)] obtain ks rest where k: "k = sum_list ks + rest"
    "\<forall>i < length as. on_course env net near sess w (as ! i) (map Fetched xs ! i) (ks ! i)"
    and g: "\<And>x sess' w'. extends sess w sess' w' \<Longrightarrow> (\<forall>i < length as. x i = net_fetch (e_crates env) net near (as ! i)) \<Longrightarrow>
       fulfils env serves net near P (g x) rest sess' w'"
    by (rule fulfils_JoiningE) blast
  have "\<forall>i < length as. xs ! i = net_fetch (e_crates env) net near (as ! i)" using k(2) joins(4) by simp
  from g [OF extends_refl this] joins(2,3) serving_mono [OF assms(4), of "rest + n"] k(1)
  show ?thesis by (intro exI [of _ rest] exI [of _ sess]) simp
qed

section \<open>The calls\<close>

text \<open>In any state, with \<open>k\<close> requests set aside.\<close>

definition always :: "'m env \<Rightarrow> (byte list \<Rightarrow> node_session \<Rightarrow> bool) \<Rightarrow> (byte list \<Rightarrow> byte list \<rightharpoonup> byte list)
    \<Rightarrow> (byte list \<Rightarrow> PeerConnectInfo list) \<Rightarrow> 'a result \<Rightarrow> 'a task \<Rightarrow> nat \<Rightarrow> bool" where
  "always env serves net near x t k \<longleftrightarrow> (\<forall>sess w. fulfils env serves net near (\<lambda>r s v. r = x) t k sess w)"

lemma always_Return [simp]: "always env serves net near x (Return x) k"
  by (simp add: always_def fulfils.Return)

lemma always_then:
  "always env serves net near x t k \<Longrightarrow> always env serves net near y (g x) l \<Longrightarrow> always env serves net near y (task_then t g) (k + l)"
  unfolding always_def by (blast intro: fulfils_then)

lemma always_bind:
  assumes "always env serves net near x t k"
    and "case x of Inl e \<Rightarrow> y = Inl e | Inr v \<Rightarrow> always env serves net near y (g v) l"
  shows "always env serves net near y (task_bind t g) (k + l)"
  unfolding task_bind_def using assms by (intro always_then [OF assms(1)]) (auto split: sum.splits)

lemma always_bind_Return:
  assumes "case r of Inl e \<Rightarrow> x = Inl e | Inr v \<Rightarrow> always env serves net near x (g v) k"
  shows "always env serves net near x (task_bind (Return r) g) k"
  using always_bind [OF always_Return [of env serves net near r 0] assms] by simp

lemma always_map: "always env serves net near x t k \<Longrightarrow> always env serves net near (res_bind x (\<lambda>v. Inr (h v))) (task_map h t) k"
  using always_bind [of env serves net near x t k "res_bind x (\<lambda>v. Inr (h v))" "\<lambda>v. Return (Inr (h v))" 0]
  by (simp add: task_map_def split: sum.split)

lemma extends_counter [simp]: "extends sess w sess (w\<lparr>chunks_fetched := m\<rparr>)"
  by (simp add: extends_def)

lemma serving_counter [simp]:
  "serving env serves near sess n (w\<lparr>chunks_fetched := m\<rparr>) \<longleftrightarrow> serving env serves near sess n w"
  by (simp add: serving_def)

lemma always_counter: "always env serves net near (Inr ()) (act (modify (\<lambda>w. w\<lparr>chunks_fetched := m w\<rparr>))) 0"
  unfolding always_def by (intro allI fulfils_act) (auto simp: modify_def ok_def)

lemma always_counting:
  assumes "always env serves net near x t k"
  shows "always env serves net near x (task_bind (act (modify (\<lambda>w. w\<lparr>chunks_fetched := m w\<rparr>))) (\<lambda>_. t)) k"
  using always_bind [OF always_counter, where y = x and g = "\<lambda>_. t" and l = k] assms by simp

lemma always_get_direct:
  assumes "length a = 32"
  shows "always env serves net near (net_fetch (e_crates env) net near a) (get_direct_task a) (Suc (length (near a)))"
proof -
  have "fulfils env serves net near (\<lambda>r s v. r = net_fetch (e_crates env) net near a) (get_direct_task a)
      (sum_list [Suc (length (near a))] + 0) sess w" for sess w
    unfolding get_direct_task_def using assms by (intro fulfils.Joining) (auto intro: fulfils.Return)
  then show ?thesis by (simp add: always_def)
qed

lemma always_closest:
  assumes "honest_peers env serves near" and "length a = 32"
  shows "always env serves net near (Inr (near a)) (numbered bootstrap (\<lambda>i. closest_peers_as (e_crates env) (e_serde env) i a)) 1"
proof -
  have laws: "aead_correct (e_crates env)" "aead_seals (e_crates env)" "codecs (e_serde env)"
    using assms(1) by (simp_all add: honest_peers_def)
  have "fulfils env serves net near (\<lambda>r s v. r = Inr (near a))
      (act (on_conn (bootstrap w) (closest_peers_as (e_crates env) (e_serde env) i a))) 1 sess w"
    if sv: "serving env serves near sess n w" for i n sess w
  proof (rule fulfils_request)
    show "bootstrap w < length (conns w)" using sv by (simp add: serving_def)
    have "discovers (e_serde env) (sess (bootstrap w)) near" using sv by (simp add: serving_def)
    from closest_peers_as_synced [OF laws _ this assms(2)]
    show "\<exists>c'. closest_peers_as (e_crates env) (e_serde env) i a c = (Ready (Inr (near a)), c')
        \<and> synced (e_crates env) (sess (bootstrap w)) n c'" if "synced (e_crates env) (sess (bootstrap w)) (Suc n) c" for n c
      using that by blast
  qed
  then show ?thesis unfolding always_def numbered_def by (intro allI fulfils_quiet) simp_all
qed

text \<open>A round, and then what follows it.\<close>

lemma always_round:
  assumes "retrieve_round (e_crates env) (e_se env) (net_fetch (e_crates env) net near) r = (log, y)"
    and "list_all (\<lambda>a. length a = 32) log"
    and "case y of Inl e \<Rightarrow> x = Inl e | Inr r' \<Rightarrow> always env serves net near x (download_rounds_task env r') k"
  shows "always env serves net near x (download_rounds_task env r) (requests_for near log + k)"
proof (cases "is_complete (e_se env) r")
  case True
  then have "log = []" "y = Inr r" using assms(1) by (auto simp: retrieve_round_def)
  with assms(3) show ?thesis by simp
next
  case False
  let ?fetch = "net_fetch (e_crates env) net near" and ?addrs = "required_addresses (e_se env) r"
  let ?P = "\<lambda>r s v. r = x"
  have log: "log = ?addrs" and y: "y = res_bind (supply_fetches (e_crates env) (e_se env) (map (\<lambda>a. (a, ?fetch a)) ?addrs) r)
      (advance (e_crates env) (e_se env))"
    using assms(1) False by (auto simp: retrieve_round_def)
  let ?f = "\<lambda>g w. (case supply_fetched env (zip ?addrs (map g [0..<length ?addrs])) r w of
              (Pending, w1) \<Rightarrow> (Stuck, w1)
            | (Ready (Inl e), w1) \<Rightarrow> (Return (Inl e), w1)
            | (Ready (Inr r1), w1) \<Rightarrow>
                (case advance (e_crates env) (e_se env) r1 of
                   Inl e \<Rightarrow> (Return (Inl e), w1)
                 | Inr r2 \<Rightarrow> (download_rounds_task env r2, w1)))"
  have after: "fulfils env serves net near ?P (Step (?f g)) k sess w"
    if "\<forall>i < length ?addrs. g i = ?fetch (?addrs ! i)" for g sess w
  proof (rule fulfils.Step)
    fix sess' w' n assume sv: "serving env serves near sess' (k + n) w'"
    have items: "zip ?addrs (map g [0..<length ?addrs]) = map (\<lambda>a. (a, ?fetch a)) ?addrs"
      using that by (intro nth_equalityI) simp_all
    obtain m where "supply_fetched env (map (\<lambda>a. (a, ?fetch a)) ?addrs) r w' =
        (Ready (supply_fetches (e_crates env) (e_se env) (map (\<lambda>a. (a, ?fetch a)) ?addrs) r), w'\<lparr>chunks_fetched := m\<rparr>)"
      using supply_fetched_pure by blast
    then have "\<exists>t. ?f g w' = (t, w'\<lparr>chunks_fetched := m\<rparr>) \<and> always env serves net near x t k"
      using assms(3) items y by (auto split: sum.splits)
    with sv show "\<exists>k' sess''. serving env serves near sess'' (k' + n) (snd (?f g w'))
         \<and> extends sess' w' sess'' (snd (?f g w')) \<and> fulfils env serves net near ?P (fst (?f g w')) k' sess'' (snd (?f g w'))"
      by (intro exI [of _ k] exI [of _ sess']) (auto simp: always_def)
  qed
  let ?ks = "map (\<lambda>a. Suc (length (near a))) ?addrs"
  have "fulfils env serves net near ?P (download_rounds_task env r) (sum_list ?ks + k) sess w" for sess w
    unfolding download_rounds_task.simps [of env r] if_not_P [OF False] Let_def
    by (rule fulfils.Joining) (use after assms(2) log in auto)
  then show ?thesis by (simp add: always_def requests_for_def log)
qed

lemma always_rounds:
  assumes "then_round (retrieve_round (e_crates env) (e_se env) (net_fetch (e_crates env) net near))
       (retrieve_round (e_crates env) (e_se env) (net_fetch (e_crates env) net near) r) = (log, y)"
    and "list_all (\<lambda>a. length a = 32) log"
  shows "always env serves net near y (download_rounds_task env r) (requests_for near log)"
proof -
  let ?round = "retrieve_round (e_crates env) (e_se env) (net_fetch (e_crates env) net near)"
  obtain l1 y1 where r1: "?round r = (l1, y1)" by force
  show ?thesis
  proof (cases y1)
    case (Inl e)
    with r1 assms(1) have "log = l1" "y = Inl e" by simp_all
    with Inl always_round [OF r1, where x = y and k = 0] assms(2) show ?thesis by simp
  next
    case (Inr r')
    obtain l2 y2 where r2: "?round r' = (l2, y2)" by force
    with r1 Inr assms(1) have log: "log = l1 @ l2" "y = y2" by simp_all
    have "is_complete (e_se env) r''" if "y2 = Inr r''" for r''
      using retrieve_round_left [OF r1 [unfolded Inr]] retrieve_round_left [OF r2 [unfolded that]]
        complete_rounds_left by (metis diff_is_0_eq le_zero_eq one_add_one le_diff_conv order_trans)
    then have "case y2 of Inl e \<Rightarrow> y = Inl e | Inr r'' \<Rightarrow> always env serves net near y (download_rounds_task env r'') 0"
      using log(2) by (auto simp: download_rounds_task.simps split: sum.split)
    from always_round [OF r2 _ this] assms(2) log(1)
    have "always env serves net near y (download_rounds_task env r') (requests_for near l2)" by simp
    with always_round [OF r1, where x = y and k = "requests_for near l2"] Inr assms(2) log(1) show ?thesis by simp
  qed
qed

lemma always_download:
  assumes "parse_address (e_crates env) hex = Inr a" and "list_all (\<lambda>a. length a = 32) log"
    and "retrieve (e_crates env) (e_se env) (net_fetch (e_crates env) net near) a = (log, x)"
  shows "always env serves net near x (download_task env hex) (requests_for near log)"
proof -
  let ?fetch = "net_fetch (e_crates env) net near"
  let ?rest = "\<lambda>bytes. task_bind (Return (retrieval_begin (e_se env) a bytes)) (\<lambda>retrieval.
     task_bind (download_rounds_task env retrieval) (\<lambda>retrieval. Return (finish (e_crates env) (e_se env) retrieval)))"
  have all: "always env serves net near x (download_task env hex) (Suc (length (near a)) + k)"
    if "case ?fetch a of Inl e \<Rightarrow> x = Inl e | Inr bytes \<Rightarrow> always env serves net near x (?rest bytes) k" for k
  proof -
    have "always env serves net near x (task_bind (act (modify (\<lambda>w. w\<lparr>chunks_fetched := 0\<rparr>))) (\<lambda>_.
       task_bind (get_direct_task a) (\<lambda>map_bytes.
       task_bind (act (modify (\<lambda>w. w\<lparr>chunks_fetched := chunks_fetched w + 1\<rparr>))) (\<lambda>_. ?rest map_bytes))))
       (Suc (length (near a)) + k)"
      using that parse_address_length [OF assms(1)]
      by (intro always_counting always_bind [OF always_get_direct]) (auto intro: always_counting split: sum.split)
    with assms(1) show ?thesis unfolding download_task_def by (intro always_bind_Return) simp
  qed
  from assms(3) show ?thesis
  proof (cases rule: retrieve_cases)
    case (missing e)
    with all [of 0] show ?thesis by simp
  next
    case (no_map bytes e)
    then have "always env serves net near x (?rest bytes) 0" by (intro always_bind_Return) simp
    with all [of 0] no_map show ?thesis by simp
  next
    case (rounds bytes r l y)
    have "list_all (\<lambda>a. length a = 32) l" using assms(2) rounds(3) by simp
    from always_bind [OF always_rounds [OF rounds(4) this], where y = x and g = "\<lambda>r. Return (finish (e_crates env) (e_se env) r)"
        and l = 0] rounds(2,5)
    have "always env serves net near x (?rest bytes) (requests_for near l)"
      by (intro always_bind_Return) (simp split: sum.split)
    with all [of "requests_for near l"] rounds(1,3) show ?thesis by simp
  qed
qed

end
