(* ===== verification/Relaying.thy ===== *)
theory Relaying
  imports Delivery
begin

text \<open>
  The relayed connection over an honest relay and an honest target: what the browser does for it, the one
  operation that \<open>relayed_fetch\<close> is once its request number has been read, and its task among other calls.
\<close>

section \<open>The operation\<close>

text \<open>What the browser does for a relayed connection whose far end is the node session \<open>s\<close>.\<close>

definition relayed_browser :: "crates \<Rightarrow> peer_connection \<Rightarrow> string \<Rightarrow> string \<Rightarrow> string \<Rightarrow> node_session \<Rightarrow> bool" where
  "relayed_browser cr pc stun offer_sdp answer s \<longleftrightarrow> (\<exists>offer.
     pc_new pc [''stun:'' @ stun] = Inr () \<and> pc_create_offer pc = Ready (Inr offer) \<and> pc_set_local pc offer = Ready (Inr ())
     \<and> pc_local_description pc offer (wait_for_ice_complete pc offer) = Some offer_sdp
     \<and> pc_set_remote pc offer answer = Ready (Inr ()) \<and> pc_ready_state pc offer answer (open_wait pc offer answer) = ''Open''
     \<and> honest_link cr s (pc_link pc offer answer))"

definition chunk_length :: "crates \<Rightarrow> (byte list \<rightharpoonup> byte list) \<Rightarrow> byte list \<Rightarrow> nat result" where
  "chunk_length cr store a = (case store a of Some b \<Rightarrow> Inr (length b) | None \<Rightarrow> Inl (''not found: '' @ hex_encode cr a))"

text \<open>Relay and target do their part for the dial with the draw \<open>d\<close>.\<close>

definition relayed_node :: "'m env \<Rightarrow> node_session \<Rightarrow> nat \<Rightarrow> string \<Rightarrow> byte list \<Rightarrow> (byte list \<rightharpoonup> byte list) \<Rightarrow> bool" where
  "relayed_node env relay d stun target store \<longleftrightarrow> (\<exists>offer answer s. relays (e_serde env) relay target offer answer
     \<and> relayed_browser (e_crates env) (e_rtc env d) stun offer answer s \<and> accepts_draw (e_crates env) s d
     \<and> blake3_hash (e_crates env) (ns_pk s) = target \<and> stores (e_serde env) s store)"

lemma connect_relayed_synced:
  assumes "aead_correct cr" and "aead_seals cr" and "kem_correct cr" and "codecs sc"
    and "synced cr relay (Suc n) c" and "relays sc relay target offer answer"
    and "relayed_browser cr pc stun offer answer s" and "accepts_draw cr s d" and "blake3_hash cr (ns_pk s) = target"
  shows "\<exists>c' conn. conn_connect_relayed cr (signal_relay_as cr sc i target) pc d stun target c = (Ready (Inr conn), c')
     \<and> synced cr relay n c' \<and> synced cr s 1 conn"
proof -
  obtain c' where r: "signal_relay_as cr sc i target offer c = (Ready (Inr answer), c')" "synced cr relay n c'"
    using signal_relay_as_synced [OF assms(1,2,4-6)] by blast
  obtain l where t: "transport_connect_via_relay pc stun (signal_relay_as cr sc i target) c = (Ready (Inr (from_open l)), c')"
    "honest_link cr s l"
    using assms(7) r(1) unfolding relayed_browser_def transport_via_relay_iff by blast
  have "1 < unat MAX_SEQ" by (simp add: MAX_SEQ_def)
  from establish_synced [OF assms(3) t(2) assms(8) _ this, of "Some target"] assms(9)
  obtain conn where "establish cr d (Some target) (from_open l) = Ready (Inr conn)" "synced cr s 1 conn" by auto
  with t(1) r(2) show ?thesis by (simp add: conn_connect_relayed_def await_def)
qed

lemma relay_and_get_serving:
  assumes "aead_correct (e_crates env)" and "aead_seals (e_crates env)" and "kem_correct (e_crates env)" and "codecs (e_serde env)"
    and "serving env serves near sess (Suc n) w" and "relayed_node env (sess (bootstrap w)) d stun target store"
    and "content_addressed (e_crates env) store" and "length a = 32"
  shows "\<exists>w'. relay_and_get env d i target stun a w = (Ready (chunk_length (e_crates env) store a), w')
     \<and> serving env serves near sess n w' \<and> extends sess w sess w'"
proof -
  let ?cr = "e_crates env" and ?dial = "conn_connect_relayed (e_crates env) (signal_relay_as (e_crates env) (e_serde env) i target)
      (e_rtc env d) d stun target"
  have b: "bootstrap w < length (conns w)" and sy: "synced ?cr (sess (bootstrap w)) (Suc n) (conns w ! bootstrap w)"
    using assms(5) by (simp_all add: serving_def)
  obtain offer answer s where node: "relays (e_serde env) (sess (bootstrap w)) target offer answer"
    "relayed_browser ?cr (e_rtc env d) stun offer answer s" "accepts_draw ?cr s d" "blake3_hash ?cr (ns_pk s) = target"
    "stores (e_serde env) s store"
    using assms(6) unfolding relayed_node_def by blast
  obtain c' conn where c: "?dial (conns w ! bootstrap w) = (Ready (Inr conn), c')"
    "synced ?cr (sess (bootstrap w)) n c'" "synced ?cr s 1 conn"
    using connect_relayed_synced [OF assms(1-4) sy node(1-4)] by blast
  obtain w' where w': "on_bootstrap ?dial w = (Ready (Inr conn), w')" "serving env serves near sess n w'"
    using serving_on_conn [where f = ?dial, OF assms(5) b c(1,2)] by (auto simp: on_bootstrap_def)
  obtain conn' where "get_verified ?cr (e_serde env) a conn = (Ready (lookup_result ?cr store a), conn')"
    using get_verified_synced [of ?cr "e_serde env" s 0 conn store a] assms(1,2,4,7,8) c(3) node(5) by auto
  with w'(1) have "relay_and_get env d i target stun a w = (Ready (chunk_length ?cr store a), w')"
    by (simp add: relay_and_get_def await_def lookup_result_def chunk_length_def ok_def fail_def split: option.split)
  moreover have "extends sess w sess w'"
    using w'(1) by (auto simp: extends_def on_bootstrap_def on_conn_def split: prod.splits)
  ultimately show ?thesis using w'(2) by blast
qed

section \<open>The task\<close>

text \<open>
  A relayed fetch among other calls: whichever number its dial gets, the bootstrap node relays its offer and
  an honest target answers.
\<close>

lemma fulfils_relayed_fetch:
  assumes "holding env serves net near" and "kem_correct (e_crates env)"
    and "\<forall>d. relayed_node env (sess (bootstrap w)) d stun target (net target)"
    and "bootstrap w < length (conns w)" and "length a = 32"
  shows "fulfils env serves net near (\<lambda>r s v. r = chunk_length (e_crates env) (net target) a)
     (Step (\<lambda>w. (Step (\<lambda>w1.
        (act (relay_and_get env (dials w) (request_number (bootstrap w1) w1) target stun a), w1)),
        w\<lparr>dials := Suc (dials w)\<rparr>))) 1 sess w"
    (is "fulfils env serves net near ?P (Step ?f) 1 sess w")
proof -
  have laws: "aead_correct (e_crates env)" "aead_seals (e_crates env)" "codecs (e_serde env)"
    "content_addressed (e_crates env) (net target)"
    using assms(1) by (simp_all add: holding_def honest_peers_def)
  have "fulfils env serves net near ?P (act (relay_and_get env d i target stun a)) 1 sess1 w1"
    if e: "extends sess w sess1 w1" for d i sess1 w1
  proof (rule fulfils_act)
    fix sess' w' n assume e': "extends sess1 w1 sess' w'" and sv: "serving env serves near sess' (1 + n) w'"
    have "sess' (bootstrap w') = sess (bootstrap w)" using extends_trans [OF e e'] assms(4) by (simp add: extends_def)
    then have "relayed_node env (sess' (bootstrap w')) d stun target (net target)" using assms(3) by simp
    from relay_and_get_serving [OF laws(1,2) assms(2) laws(3) sv [simplified] this laws(4) assms(5)]
    show "\<exists>r w'' sess''. relay_and_get env d i target stun a w' = (Ready r, w'') \<and> serving env serves near sess'' n w''
        \<and> extends sess' w' sess'' w'' \<and> (\<forall>s v. extends sess'' w'' s v \<longrightarrow> r = chunk_length (e_crates env) (net target) a)"
      by blast
  qed
  note dialled = this [OF extends_trans]
  show ?thesis
  proof (intro fulfils_quiet dialled)
    fix sess1 w1 sess2 w2 assume "extends sess w sess1 w1" "extends sess1 (w1\<lparr>dials := Suc (dials w1)\<rparr>) sess2 w2"
    then show "extends sess1 w1 sess2 w2" "extends sess w sess1 w1" by (simp_all add: extends_def)
  qed (simp_all add: serving_def extends_def)
qed

end
