(* ===== verification/Alone.thy ===== *)
theory Alone
  imports Tasks
begin

text \<open>
  A task that nothing interferes with does what the function of the same name in \<open>Client\<close> does: whenever
  the function returns, the task can run to the same result and the same state.
\<close>

section \<open>Runs\<close>

definition runs_to :: "'m env \<Rightarrow> 'a task \<Rightarrow> client \<Rightarrow> 'a result \<Rightarrow> client \<Rightarrow> bool" where
  "runs_to env t w r w' \<longleftrightarrow> (task_step env)\<^sup>*\<^sup>* (t, w) (Return r, w')"

definition implements :: "'m env \<Rightarrow> 'a task \<Rightarrow> (client, 'a) async \<Rightarrow> bool" where
  "implements env t f \<longleftrightarrow> (\<forall>w r w'. f w = (Ready r, w') \<longrightarrow> runs_to env t w r w')"

lemma implementsI: "(\<And>w r w'. f w = (Ready r, w') \<Longrightarrow> runs_to env t w r w') \<Longrightarrow> implements env t f"
  by (simp add: implements_def)

lemma implementsD: "implements env t f \<Longrightarrow> f w = (Ready r, w') \<Longrightarrow> runs_to env t w r w'"
  by (simp add: implements_def)

lemma runs_to_Return [simp]: "runs_to env (Return r) w r w"
  by (simp add: runs_to_def)

lemma runs_to_step: "task_step env (t, w) (t1, w1) \<Longrightarrow> runs_to env t1 w1 r w' \<Longrightarrow> runs_to env t w r w'"
  unfolding runs_to_def by (rule converse_rtranclp_into_rtranclp)

lemma runs_to_Step: "f w = (t1, w1) \<Longrightarrow> runs_to env t1 w1 r w' \<Longrightarrow> runs_to env (Step f) w r w'"
  by (rule runs_to_step) simp_all

lemma task_step_then:
  assumes "task_step env (t, w) (t', w')"
  shows "task_step env (task_then t k, w) (task_then t' k, w')"
  using assms by cases (simp_all add: fetches joins [where k = "\<lambda>x. task_then (g x) k" for g, simplified])

lemma runs_to_then:
  assumes "runs_to env t w r w1" and "runs_to env (k r) w1 x w'"
  shows "runs_to env (task_then t k) w x w'"
proof -
  have "(task_step env)\<^sup>*\<^sup>* s s' \<Longrightarrow>
      (task_step env)\<^sup>*\<^sup>* (task_then (fst s) k, snd s) (task_then (fst s') k, snd s')" for s s'
  proof (induction rule: rtranclp_induct)
    case (step s1 s2)
    from step(2) have "task_step env (task_then (fst s1) k, snd s1) (task_then (fst s2) k, snd s2)"
      by (intro task_step_then) simp
    with step(3) show ?case by simp
  qed simp
  from this [of "(t, w)" "(Return r, w1)"] assms show ?thesis by (simp add: runs_to_def)
qed

lemma implements_Return [simp]:
  "implements env (Return r) (lift_res r)"
  "implements env (Return (Inr x)) (ok x)"
  "implements env (Return (Inl e)) (fail e)"
  by (auto simp: implements_def lift_res_def ok_def fail_def)

lemma runs_to_act: "f w = (Ready r, w') \<Longrightarrow> runs_to env (act f) w r w'"
  unfolding act_def by (rule runs_to_Step [where ?w1.0 = w']) (simp, simp)

lemma implements_act [simp]: "implements env (act f) f"
  by (simp add: implements_def runs_to_act)

lemma implements_await:
  assumes "implements env t f" and "\<And>x. implements env (k x) (g x)"
  shows "implements env (task_bind t k) (await f g)"
proof (rule implementsI)
  fix w r w' assume a: "await f g w = (Ready r, w')"
  obtain y w1 where f: "f w = (Ready y, w1)"
    using a by (cases "f w") (auto simp: await_def split: poll.splits)
  have "runs_to env (case y of Inl e \<Rightarrow> Return (Inl e) | Inr x \<Rightarrow> k x) w1 r w'"
    using a f implementsD [OF assms(2)] by (cases y) auto
  with implementsD [OF assms(1) f] show "runs_to env (task_bind t k) w r w'"
    unfolding task_bind_def by (rule runs_to_then)
qed

lemma implements_map: "implements env t f \<Longrightarrow> implements env (task_map h t) (await f (\<lambda>x. ok (h x)))"
  unfolding task_map_def by (rule implements_await) simp_all

lemma implements_closest:
  "implements env (numbered bootstrap (\<lambda>i. closest_peers_as cr sc i a)) (on_bootstrap (closest_peers cr sc a))"
proof (rule implementsI)
  fix w r w' assume "on_bootstrap (closest_peers cr sc a) w = (Ready r, w')"
  then have "runs_to env (act (on_conn (bootstrap w) (closest_peers_as cr sc (request_number (bootstrap w) w) a))) w r w'"
    by (intro runs_to_act) (simp add: on_bootstrap_def on_conn_numbered)
  then
  show "runs_to env (numbered bootstrap (\<lambda>i. closest_peers_as cr sc i a)) w r w'"
    unfolding numbered_def by (rule runs_to_Step [OF refl])
qed

section \<open>Downloading\<close>

lemma implements_connection: "implements env (connection_task env peer) (connection_for env peer)"
proof (rule implementsI)
  fix w r w' assume c: "connection_for env peer w = (Ready r, w')"
  show "runs_to env (connection_task env peer) w r w'"
  proof (cases "map_of (pool w) (pci_peer_id peer)")
    case (Some h)
    with c show ?thesis
      unfolding connection_task_def by (intro runs_to_Step [where ?w1.0 = w]) (auto simp: connection_for_def ok_def)
  next
    case None
    let ?w1 = "w\<lparr>dials := Suc (dials w)\<rparr>"
    have "runs_to env (act (dial env (dials w) peer)) ?w1 r w'"
      using c None
      by (intro runs_to_act) (auto simp: connection_for_def dial_def Let_def split: poll.splits sum.splits)
    with None show ?thesis
      unfolding connection_task_def by (intro runs_to_Step [where ?w1.0 = ?w1]) auto
  qed
qed

lemma fetch_any_task: "(fetch_any env as)\<^sup>*\<^sup>* s s' \<Longrightarrow>
    (task_step env)\<^sup>*\<^sup>* (Joining as (fst s) k, snd s) (Joining as (fst s') k, snd s')"
proof (induction rule: rtranclp_induct)
  case (step s1 s2)
  from step(2) have "task_step env (Joining as (fst s1) k, snd s1) (Joining as (fst s2) k, snd s2)"
    by cases (simp add: fetches)
  with step(3) show ?case by simp
qed simp

lemma runs_to_joined:
  assumes "joined env as w fetched w1" and "length fetched = length as" and "runs_to env (k (\<lambda>i. fetched ! i)) w1 r w'"
  shows "runs_to env (Joining as (replicate (length as) Discovering) k) w r w'"
proof -
  have "(task_step env)\<^sup>*\<^sup>* (Joining as (replicate (length as) Discovering) k, w) (Joining as (map Fetched fetched) k, w1)"
    using fetch_any_task [of env as "(replicate (length as) Discovering, w)" "(map Fetched fetched, w1)" k] assms(1)
    by (simp add: joined_def)
  also have "task_step env (Joining as (map Fetched fetched) k, w1) (k (\<lambda>i. fetched ! i), w1)"
    by (rule joins) (rule assms(2))
  finally show ?thesis using assms(3) unfolding runs_to_def by (rule rtranclp_trans)
qed

lemma joined_length: "joined env as w fetched w' \<Longrightarrow> length fetched = length as"
proof -
  have "(fetch_any env as)\<^sup>*\<^sup>* s s' \<Longrightarrow> length (fst s') = length (fst s)" for s s'
    by (induction rule: rtranclp_induct) (auto elim: fetch_any.cases)
  from this [of "(replicate (length as) Discovering, w)" "(map Fetched fetched, w')"]
  show "joined env as w fetched w' \<Longrightarrow> length fetched = length as" by (simp add: joined_def)
qed

lemma implements_get_direct: "implements env (get_direct_task a) (get_direct env a)"
proof (rule implementsI)
  fix w r w' assume g: "get_direct env a w = (Ready r, w')"
  have "joined env [a] w [r] w'" using join_all_joined [of env "[a]" w "[r]" w'] g by simp
  from runs_to_joined [OF this, of "\<lambda>x. Return (x 0)" r w'] show "runs_to env (get_direct_task a) w r w'"
    by (simp add: get_direct_task_def)
qed

lemma map_nth_all: "length xs = n \<Longrightarrow> map (\<lambda>i. xs ! i) [0..<n] = xs"
  using map_nth [of xs] by simp

text \<open>All schedules of \<open>Futures\<close> are schedules of the task.\<close>

lemma runs_to_round:
  assumes "\<not> is_complete (e_se env) r" and "joined env (required_addresses (e_se env) r) w fetched w1"
    and "supply_fetched env (zip (required_addresses (e_se env) r) fetched) r w1 = (Ready y, w2)"
    and "case y of Inl e \<Rightarrow> x = Inl e \<and> w' = w2
      | Inr r1 \<Rightarrow> (case advance (e_crates env) (e_se env) r1 of Inl e \<Rightarrow> x = Inl e \<and> w' = w2
          | Inr r2 \<Rightarrow> runs_to env (download_rounds_task env r2) w2 x w')"
  shows "runs_to env (download_rounds_task env r) w x w'"
proof -
  let ?addrs = "required_addresses (e_se env) r"
  note len = joined_length [OF assms(2)]
  show ?thesis
    unfolding download_rounds_task.simps [of env r] Let_def if_not_P [OF assms(1)]
  proof (rule runs_to_joined [OF assms(2) len])
    show "runs_to env (Step (\<lambda>w.
           (case supply_fetched env (zip ?addrs (map (\<lambda>i. fetched ! i) [0..<length ?addrs])) r w of
              (Pending, w1) \<Rightarrow> (Stuck, w1)
            | (Ready (Inl e), w1) \<Rightarrow> (Return (Inl e), w1)
            | (Ready (Inr r1), w1) \<Rightarrow>
                (case advance (e_crates env) (e_se env) r1 of
                   Inl e \<Rightarrow> (Return (Inl e), w1)
                 | Inr r2 \<Rightarrow> (download_rounds_task env r2, w1))))) w1 x w'"
      using assms(3,4) unfolding map_nth_all [OF len]
      by (cases y) (auto split: sum.splits intro!: runs_to_Step)
  qed
qed

lemma rounds_any_runs: "rounds_any env r w x w' \<Longrightarrow> runs_to env (download_rounds_task env r) w x w'"
proof (induction rule: rounds_any.induct)
  case (complete r w)
  then show ?case by (simp add: download_rounds_task.simps [of env r])
next
  case (refused r w fetched w1 e w2)
  from runs_to_round [OF refused] show ?case by simp
next
  case (unresolved r w fetched w1 r1 w2 e)
  from runs_to_round [OF unresolved(1-3)] unresolved(4) show ?case by simp
next
  case (another r w fetched w1 r1 w2 r2 x w3)
  from runs_to_round [OF another(1-3)] another(4,6) show ?case by simp
qed

lemma implements_download: "implements env (download_task env a) (download env a)"
proof -
  have "implements env (download_rounds_task env r) (download_rounds env r)" for r
    by (rule implementsI) (rule rounds_any_runs [OF download_rounds_any])
  then show ?thesis
    unfolding download_task_def download_def
    by (intro implements_await implements_Return implements_act implements_get_direct)
qed

lemma implements_fetch_chunk: "implements env (fetch_chunk_task env a) (fetch_chunk env a)"
  unfolding fetch_chunk_task_def fetch_chunk_def by (intro implements_await implements_Return implements_get_direct)

lemma implements_closest_peers_json: "implements env (closest_peers_json_task env a) (closest_peers_json env a)"
  unfolding closest_peers_json_task_def closest_peers_json_def
  by (intro implements_await implements_Return implements_map implements_closest)

lemma await_cong_at:
  assumes "f w = f' w" and "\<And>x w1. f w = (Ready (Inr x), w1) \<Longrightarrow> g x w1 = g' x w1"
  shows "await f g w = await f' g' w"
proof -
  obtain y w1 where f: "f w = (y, w1)" by force
  moreover have "f' w = (y, w1)" using f assms(1) by simp
  ultimately show ?thesis using assms(2) by (cases y) (auto simp: await_def split: sum.split)
qed

lemma js_future_same: "js_future what p c = (Ready (Inr x), c1) \<Longrightarrow> c1 = c"
  by (auto simp: js_future_def split: poll.splits)

lemma relay_numbered:
  "conn_connect_via_relay cr sc pc d stun target c
     = conn_connect_relayed cr (signal_relay_as cr sc (ucast (next_seq c)) target) pc d stun target c"
  unfolding conn_connect_via_relay_def conn_connect_relayed_def transport_connect_via_relay_def
  by (intro await_cong_at refl) (auto simp: lift_res_def signal_relay_def dest!: js_future_same)

text \<open>With the number it would read, the operation is what \<open>relayed_fetch\<close> does after its texts are parsed.\<close>

lemma relay_and_get_numbered:
  "relay_and_get env d (request_number (bootstrap w) w) target stun address w =
     await (on_bootstrap (conn_connect_via_relay (e_crates env) (e_serde env) (e_rtc env d) d stun target))
       (\<lambda>conn w.
          (case get_verified (e_crates env) (e_serde env) address conn of
             (Pending, _) \<Rightarrow> (Pending, w)
           | (Ready (Inl e), _) \<Rightarrow> fail e w
           | (Ready (Inr bytes), _) \<Rightarrow> ok (length bytes) w)) w"
  unfolding relay_and_get_def
  by (rule await_cong_at [OF _ refl]) (simp add: on_bootstrap_def on_conn_def relay_numbered request_number_def)

lemma relayed_fetch_numbered:
  assumes "parse_address (e_crates env) target_hex = Inr target" and "parse_address (e_crates env) address_hex = Inr address"
  shows "relayed_fetch env target_hex stun address_hex w =
     relay_and_get env (dials w) (request_number (bootstrap w) w) target stun address (w\<lparr>dials := Suc (dials w)\<rparr>)"
  using relay_and_get_numbered [of env "dials w" "w\<lparr>dials := Suc (dials w)\<rparr>"] assms
  by (simp add: relayed_fetch_def lift_res_def await_def Let_def request_number_def)

lemma implements_relayed_fetch: "implements env (relayed_fetch_task env t stun a) (relayed_fetch env t stun a)"
proof -
  have fetch: "(let w1 = w\<lparr>dials := Suc (dials w)\<rparr> in
       await (on_bootstrap (conn_connect_via_relay (e_crates env) (e_serde env) (e_rtc env (dials w)) (dials w) stun target))
         (\<lambda>conn w2.
            (case get_verified (e_crates env) (e_serde env) address conn of
               (Pending, _) \<Rightarrow> (Pending, w2)
             | (Ready (Inl e), _) \<Rightarrow> fail e w2
             | (Ready (Inr bytes), _) \<Rightarrow> ok (length bytes) w2)) w1)
      = relay_and_get env (dials w) (request_number (bootstrap w) w) target stun address (w\<lparr>dials := Suc (dials w)\<rparr>)"
    for target address w
    using relay_and_get_numbered [of env "dials w" "w\<lparr>dials := Suc (dials w)\<rparr>"] by (simp add: request_number_def)
  have "implements env (Step (\<lambda>w. (Step (\<lambda>w1.
        (act (relay_and_get env (dials w) (request_number (bootstrap w1) w1) target stun address), w1)),
        w\<lparr>dials := Suc (dials w)\<rparr>)))
      (\<lambda>w. relay_and_get env (dials w) (request_number (bootstrap w) w) target stun address (w\<lparr>dials := Suc (dials w)\<rparr>))"
    for target address
    by (intro implementsI runs_to_Step [OF refl] runs_to_act) (simp add: request_number_def)
  then show ?thesis
    unfolding relayed_fetch_task_def relayed_fetch_def fetch by (intro implements_await implements_Return)
qed

section \<open>Uploading\<close>

lemma implements_try_quote: "implements env (try_quote_task env peer a n) (try_quote env peer a n)"
  unfolding try_quote_task_def try_quote_def
  by (intro implements_await implements_connection implements_act)
    (auto intro!: implements_await split: prod.split)

lemma implements_quote_attempts:
  "implements env (quote_attempts_task env peer a n k last_err) (quote_attempts env peer a n k last_err)"
proof (induction k arbitrary: last_err)
  case (Suc k)
  show ?case
  proof (rule implementsI)
    fix w r w' assume q: "quote_attempts env peer a n (Suc k) last_err w = (Ready r, w')"
    then obtain y w1 where t: "try_quote env peer a n w = (Ready y, w1)"
      by (auto split: prod.splits poll.splits)
    show "runs_to env (quote_attempts_task env peer a n (Suc k) last_err) w r w'"
      unfolding quote_attempts_task.simps
    proof (rule runs_to_then [OF implementsD [OF implements_try_quote t]])
      show "runs_to env (case y of Inr q \<Rightarrow> Return (Inr q) | Inl e \<Rightarrow> Step (\<lambda>w. (quote_attempts_task env peer a n k e,
           if k = 0 then w else w\<lparr>pool := AList.delete (pci_peer_id peer) (pool w)\<rparr>))) w1 r w'"
        using q t implementsD [OF Suc] by (cases y) (auto simp: ok_def intro!: runs_to_Step [OF refl])
    qed
  qed
qed (simp add: implements_def ok_def fail_def)

lemma implements_collect_quotes:
  "implements env (collect_quotes_task env a n peers quoted m) (collect_quotes env a n peers quoted m)"
proof (induction peers arbitrary: quoted m)
  case (Cons peer peers)
  show ?case
  proof (rule implementsI)
    fix w r w' assume q: "collect_quotes env a n (peer # peers) quoted m w = (Ready r, w')"
    then obtain y w1 where t: "quote_attempts env peer a n QUOTE_ATTEMPTS ''no attempt'' w = (Ready y, w1)"
      by (auto split: prod.splits poll.splits)
    note first = implementsD [OF implements_quote_attempts t]
    show "runs_to env (collect_quotes_task env a n (peer # peers) quoted m) w r w'"
    proof (cases "\<exists>quote stored cm. y = Inr (quote, stored, cm) \<and> \<not> (stored \<and> m + 1 \<ge> CLOSE_GROUP_MAJORITY)")
      case True
      then obtain quote stored cm where y: "y = Inr (quote, stored, cm)" "\<not> (stored \<and> m + 1 \<ge> CLOSE_GROUP_MAJORITY)"
        by blast
      let ?rest = "\<lambda>h. (quoted @ [\<lparr>qp_peer_id = pci_peer_id peer, qp_conn = h, qp_quote = quote, qp_commitment = cm\<rparr>])"
      let ?m = "m + (if stored then 1 else 0)"
      have "await (connection_for env peer) (\<lambda>h. collect_quotes env a n peers (?rest h) ?m) w1 = (Ready r, w')"
        using q t y by (auto simp: await_def fail_def split: prod.splits poll.splits sum.splits)
      then have "runs_to env (task_bind (connection_task env peer) (\<lambda>h. collect_quotes_task env a n peers (?rest h) ?m)) w1 r w'"
        by (rule implementsD [OF implements_await [OF implements_connection Cons]])
      with y show ?thesis unfolding collect_quotes_task.simps by (intro runs_to_then [OF first]) auto
    next
      case False
      with q t show ?thesis
        unfolding collect_quotes_task.simps
        by (intro runs_to_then [OF first]) (cases y; auto simp: ok_def fail_def split: prod.splits if_splits)
    qed
  qed
qed (simp add: implements_def ok_def fail_def)

lemma implements_put_attempts:
  "implements env (put_attempts_task env h a data p k last_err) (put_attempts env h a data p k last_err)"
proof (induction k arbitrary: last_err)
  case (Suc k)
  let ?put = "on_conn h (put_chunk (e_crates env) (e_serde env) a data p)"
  show ?case
  proof (rule implementsI)
    fix w r w' assume q: "put_attempts env h a data p (Suc k) last_err w = (Ready r, w')"
    then obtain y w1 where t: "?put w = (Ready y, w1)" by (auto split: prod.splits poll.splits)
    then have "runs_to env (act ?put) w y w1" by (rule implementsD [OF implements_act])
    then show "runs_to env (put_attempts_task env h a data p (Suc k) last_err) w r w'"
      unfolding put_attempts_task.simps
      by (rule runs_to_then) (use q t implementsD [OF Suc] in \<open>cases y; auto simp: ok_def\<close>)
  qed
qed (simp add: implements_def ok_def fail_def)

lemma implements_put_all:
  "implements env (put_all_task env a data p quoted m last_err) (put_all env a data p quoted m last_err)"
proof (induction quoted arbitrary: m last_err)
  case (Cons q quoted)
  have "put_all env a data p (q # quoted) m last_err =
      await (put_attempts env (qp_conn q) a data p QUOTE_ATTEMPTS last_err)
        (\<lambda>(yes, last1). put_all env a data p quoted (m + (if yes then 1 else 0)) last1)"
    by (rule ext) (auto simp: await_def fail_def split: prod.splits poll.splits sum.splits)
  with Cons show ?case by (auto intro!: implements_await implements_put_attempts)
qed (simp add: implements_def ok_def fail_def)

lemma implements_pay_quotes: "implements env (pay_quotes_task env token vault quoted) (pay_quotes env token vault quoted)"
  unfolding pay_quotes_task_def pay_quotes_def Let_def
  by (intro implements_await implements_Return implements_act)

lemma implements_store_one: "implements env (store_one_task env a data token vault) (store_one env a data token vault)"
  unfolding store_one_task_def put_phase_task_def store_one_def
  by (intro implements_await implements_closest)
    (auto intro!: implements_await implements_collect_quotes implements_pay_quotes implements_put_all split: option.split prod.split)

lemma implements_store_items: "implements env (store_items_task env token vault items) (store_items env token vault items)"
proof (induction items)
  case (Cons item items)
  have "store_items env token vault (item # items) =
      await (store_one env (fst item) (snd item) token vault) (\<lambda>_. store_items env token vault items)"
    by (rule ext) (cases item, simp)
  with Cons show ?case by (simp add: implements_await implements_store_one)
qed (simp add: implements_def ok_def fail_def)

lemma implements_upload: "implements env (upload_task env data token vault) (upload env data token vault)"
  unfolding upload_task_def upload_def
  by (intro implements_await implements_Return)
    (auto intro!: implements_await implements_store_items)

section \<open>Calls\<close>

text \<open>A call of the page by the function of the program, its result as a value of the page.\<close>

fun call_alone :: "'m env \<Rightarrow> page_call \<Rightarrow> (client, page_value) async" where
  "call_alone env (Download address_hex) = await (download env address_hex) (\<lambda>x. ok (Bytes x))"
| "call_alone env (FetchChunk address_hex) = await (fetch_chunk env address_hex) (\<lambda>x. ok (Bytes x))"
| "call_alone env (Upload data token_hex vault_hex) = await (upload env data token_hex vault_hex) (\<lambda>x. ok (Text x))"
| "call_alone env (RelayedFetch target_hex stun address_hex) =
     await (relayed_fetch env target_hex stun address_hex) (\<lambda>x. ok (Count x))"
| "call_alone env (ClosestPeersJson address_hex) = await (closest_peers_json env address_hex) (\<lambda>x. ok (Text x))"

lemma implements_call: "implements env (call_task env c) (call_alone env c)"
  by (cases c) (simp_all add: implements_map implements_download implements_fetch_chunk implements_upload
      implements_relayed_fetch implements_closest_peers_json)

lemma runs_to_calls:
  assumes "runs_to env t w r w'" and "i < length cs" and "cs ! i = (c, t)"
  shows "(calls_step env)\<^sup>*\<^sup>* (cs, w) (cs[i := (c, Return r)], w')"
proof -
  have "(calls_step env)\<^sup>*\<^sup>* (cs, w) (cs[i := (c, fst s)], snd s)" if "(task_step env)\<^sup>*\<^sup>* (t, w) s" for s
    using that
  proof (induction rule: rtranclp_induct)
    case base
    then show ?case using assms(2,3) list_update_id [of cs i] by simp
  next
    case (step s1 s2)
    have "task_step env (fst s1, snd s1) (fst s2, snd s2)" using step(2) by simp
    from calls_step.intros [OF _ _ this, of i "cs[i := (c, fst s1)]" c] assms(2)
    have "calls_step env (cs[i := (c, fst s1)], snd s1) ((cs[i := (c, fst s1)])[i := (c, fst s2)], snd s2)" by simp
    with step(3) show ?case by simp
  qed
  from this [of "(Return r, w')"] assms(1) show ?thesis by (simp add: runs_to_def)
qed

lemma call_alone_calls:
  assumes "call_alone env c w = (Ready r, w')" and "i < length cs" and "cs ! i = (c, call_task env c)"
  shows "(calls_step env)\<^sup>*\<^sup>* (cs, w) (cs[i := (c, Return r)], w')"
  by (rule runs_to_calls [OF implementsD [OF implements_call assms(1)] assms(2,3)])

lemma calls_steps_calls: "(calls_step env)\<^sup>*\<^sup>* s s' \<Longrightarrow> map fst (fst s') = map fst (fst s)"
  by (induction rule: rtranclp_induct) (simp_all add: calls_step_calls)

lemma page_run_later: "(calls_step env)\<^sup>*\<^sup>* s s' \<Longrightarrow> page_run env s \<Longrightarrow> page_run env s'"
  by (induction rule: rtranclp_induct) (blast intro: page_run.moved)+

end
