(* ===== verification/Relay.thy ===== *)
theory Relay
  imports Downloads Relaying Alone
begin

text \<open>
  The relayed connection: \<open>relayed_fetch\<close> of \<open>src/lib.rs\<close> over \<open>connect_via_relay\<close> of \<open>src/conn.rs\<close> and
  \<open>src/webrtc.rs\<close>. The offer and the answer pass through the bootstrap node, which may change them; what is
  fetched is bound to the target's identity and to the address all the same.
\<close>

section \<open>Any network\<close>

text \<open>Whatever the relay, the network and the target do: if \<open>relayed_fetch\<close> returns a length, both texts
  parse, and it is the length of bytes that hash to the address, received over a session that a handshake
  with the key of the named target authenticated. The client's pool and its other connections are as
  before: only the signaling request was made, on the bootstrap connection.\<close>
lemma relayed_fetch_sound:
  assumes "relayed_fetch env target_hex stun address_hex w = (Ready (Inr n), w')"
  shows "\<exists>target bytes c c'. parse_address (e_crates env) target_hex = Inr target
     \<and> parse_address (e_crates env) address_hex = Inr (blake3_hash (e_crates env) bytes) \<and> n = length bytes
     \<and> authenticated (e_crates env) c \<and> peer_id c = target
     \<and> get_verified (e_crates env) (e_serde env) (blake3_hash (e_crates env) bytes) c = (Ready (Inr bytes), c')
     \<and> pool w' = pool w \<and> (\<forall>h. h \<noteq> bootstrap w \<longrightarrow> conns w' ! h = conns w ! h)"
proof -
  obtain target address where p: "parse_address (e_crates env) target_hex = Inr target"
    "parse_address (e_crates env) address_hex = Inr address"
    using assms by (auto simp: relayed_fetch_def res_iff)
  let ?w1 = "w\<lparr>dials := Suc (dials w)\<rparr>"
  obtain c w2 where b: "on_bootstrap (conn_connect_via_relay (e_crates env) (e_serde env) (e_rtc env (dials w)) (dials w) stun target) ?w1
      = (Ready (Inr c), w2)" and g: "(case get_verified (e_crates env) (e_serde env) address c of
             (Pending, _) \<Rightarrow> (Pending, w2) | (Ready (Inl e), _) \<Rightarrow> fail e w2
           | (Ready (Inr bytes), _) \<Rightarrow> ok (length bytes) w2) = (Ready (Inr n), w')"
    using assms by (auto simp: relayed_fetch_def p lift_res_def await_def Let_def split: prod.splits poll.splits sum.splits)
  obtain bytes c' where v: "get_verified (e_crates env) (e_serde env) address c = (Ready (Inr bytes), c')"
    "n = length bytes" "w' = w2"
    using g by (auto simp: ok_def fail_def split: prod.splits poll.splits sum.splits)
  have "blake3_hash (e_crates env) bytes = address" using v(1) by (simp add: get_verified_Inr)
  moreover obtain relay relay' where "conn_connect_via_relay (e_crates env) (e_serde env) (e_rtc env (dials w)) (dials w) stun target relay
      = (Ready (Inr c), relay')" and w2: "w2 = ?w1\<lparr>conns := (conns w)[bootstrap w := relay']\<rparr>"
    using b by (auto simp: on_bootstrap_def on_conn_Inr)
  from conn_connect_via_relay_Inr [OF this(1)] have "authenticated (e_crates env) c" "peer_id c = target" by simp_all
  moreover have "pool w' = pool w" "\<forall>h. h \<noteq> bootstrap w \<longrightarrow> conns w' ! h = conns w ! h"
    using w2 v(3) by simp_all
  ultimately show ?thesis using p v by metis
qed

section \<open>An honest relay and target\<close>

lemma relayed_fetch_serving:
  assumes "aead_correct (e_crates env)" and "aead_seals (e_crates env)" and "kem_correct (e_crates env)" and "codecs (e_serde env)"
    and "parse_address (e_crates env) target_hex = Inr target" and "parse_address (e_crates env) address_hex = Inr a"
    and "serving env serves near sess (Suc n) w" and "relays (e_serde env) (sess (bootstrap w)) target offer answer"
    and "relayed_browser (e_crates env) (e_rtc env (dials w)) stun offer answer s"
    and "accepts_draw (e_crates env) s (dials w)" and "blake3_hash (e_crates env) (ns_pk s) = target"
    and "stores (e_serde env) s store" and "content_addressed (e_crates env) store"
  shows "\<exists>w'. relayed_fetch env target_hex stun address_hex w =
       (Ready (case store a of Some b \<Rightarrow> Inr (length b) | None \<Rightarrow> Inl (''not found: '' @ hex_encode (e_crates env) a)), w')
     \<and> serving env serves near sess n w'"
proof -
  let ?w1 = "w\<lparr>dials := Suc (dials w)\<rparr>"
  have "serving env serves near sess (Suc n) ?w1" using assms(7) by (simp add: serving_def)
  moreover have "relayed_node env (sess (bootstrap ?w1)) (dials w) stun target store"
    using assms(8-12) by (auto simp: relayed_node_def)
  moreover have "length a = 32" using assms(6) parse_address_length by blast
  ultimately show ?thesis
    using relay_and_get_serving [OF assms(1-4) _ _ assms(13)] relayed_fetch_numbered [OF assms(5,6)]
    unfolding chunk_length_def by metis
qed

text \<open> C24. A relayed fetch completes when relay and target play their part: if the bootstrap node relays the
  gathered offer and brings back the answer, the browser connects to the target with it, and the target is
  an honest node, then \<open>relayed_fetch\<close> returns the length of the chunk the target stores, or its refusal if
  it stores none, after one request on the bootstrap connection.\<close>
theorem relayed_fetch_completes:
  assumes "aead_correct (e_crates env)" and "aead_seals (e_crates env)" and "kem_correct (e_crates env)" and "codecs (e_serde env)"
    and "parse_address (e_crates env) target_hex = Inr target" and "parse_address (e_crates env) address_hex = Inr a"
    and "serving env serves near sess (Suc n) w" and "relays (e_serde env) (sess (bootstrap w)) target offer answer"
    and "relayed_browser (e_crates env) (e_rtc env (dials w)) stun offer answer s"
    and "accepts_draw (e_crates env) s (dials w)" and "blake3_hash (e_crates env) (ns_pk s) = target"
    and "stores (e_serde env) s store" and "content_addressed (e_crates env) store"
  shows "\<exists>w'. relayed_fetch env target_hex stun address_hex w =
       (Ready (case store a of Some b \<Rightarrow> Inr (length b) | None \<Rightarrow> Inl (''not found: '' @ hex_encode (e_crates env) a)), w')
     \<and> serving env serves near sess n w'"
  by (rule relayed_fetch_serving [OF assms])

section \<open>Instances\<close>

definition relay_offer :: string where
  "relay_offer = ''a=ice-ufrag:x'' @ crlf @ ''a=ice-pwd:y'' @ crlf"

lemma test_browser: "relayed_browser test_crates (test_pc t) [] relay_offer ''v=0'' (test_session t)"
  using test_link_honest [of t] by (simp add: relayed_browser_def test_pc_def relay_offer_def)

lemma test_relays_offer: "relays test_serde (test_session t) test_peer_id relay_offer ''v=0''"
  by (rule test_relays) (simp_all add: test_peer_id_def relay_offer_def crlf_def ascii_is_utf8 is_ascii_def)

lemma relay_scene:
  "\<exists>w sess. serving file_env (\<lambda>_ s. relays test_serde s test_peer_id relay_offer ''v=0'') (tw_near file_world) sess (Suc 0) w
     \<and> relays test_serde (sess (bootstrap w)) test_peer_id relay_offer ''v=0''"
proof -
  let ?serves = "\<lambda>_ :: byte list. \<lambda>s. relays test_serde s test_peer_id relay_offer ''v=0''"
  note test_relays_offer [of file_world]
  moreover have "Suc 0 < unat MAX_SEQ" by (simp add: MAX_SEQ_def)
  ultimately obtain w where w: "client_connect file_env [] 0 [] [] = Ready (Inr w)"
    "in_service file_env ?serves (tw_near file_world) (Suc 0) w"
    using test_in_service [where serves = ?serves, OF file_world_ok, of "Suc 0" "\<lambda>_. NeverSettles" "[]" 0 "[]"]
    unfolding file_env_def by blast
  then obtain sess where sess: "serving file_env ?serves (tw_near file_world) sess (Suc 0) w" by (auto simp: in_service_def)
  have "\<exists>pid. map_of (pool w) pid = Some (bootstrap w)"
    using w(1) by (auto simp: client_connect_def split: sum.splits poll.splits)
  with sess have "relays test_serde (sess (bootstrap w)) test_peer_id relay_offer ''v=0''" by (auto simp: serving_def)
  with sess show ?thesis by blast
qed

lemma file_browser: "relayed_browser test_crates (e_rtc file_env k) [] relay_offer ''v=0'' (test_session file_world)"
  using test_browser by (simp add: file_env_def)

lemma file_target: "parse_address test_crates (hex_enc test_peer_id) = Inr test_peer_id"
  using parse_address_encoded [OF test_crates_hex, of test_peer_id] by (simp add: test_peer_id_def)

lemmas relay_facts = file_target file_browser test_accepts test_node_id test_world_serves(1,3) [OF file_world_ok]
  test_crates_aead test_crates_seals test_crates_kem test_serde_codecs

lemma file_hash:
  "parse_address test_crates (hex_enc (mini_hash [7])) = Inr (mini_hash [7])"
  "tw_store file_world (mini_hash [7]) = Some [7]"
  using parse_address_encoded [OF test_crates_hex, of "mini_hash [7]"] by (simp_all add: file_world_def file_items_def Let_def)

lemma relayed_fetch_completes_witness:
  "\<exists>w w'. relayed_fetch file_env (hex_enc test_peer_id) [] (hex_enc (mini_hash [7])) w = (Ready (Inr 1), w')"
proof -
  obtain w sess where w: "serving file_env (\<lambda>_ s. relays test_serde s test_peer_id relay_offer ''v=0'') (tw_near file_world) sess (Suc 0) w"
    "relays test_serde (sess (bootstrap w)) test_peer_id relay_offer ''v=0''" using relay_scene by blast
  from relayed_fetch_completes [of file_env "hex_enc test_peer_id" test_peer_id "hex_enc (mini_hash [7])" "mini_hash [7]"
      _ "tw_near file_world" sess 0 w relay_offer "''v=0''" "[]" "test_session file_world" "tw_store file_world"]
    w file_hash relay_facts
  show ?thesis by fastforce
qed

lemma relayed_fetch_sound_witness:
  "\<exists>w w' bytes c c'. relayed_fetch file_env (hex_enc test_peer_id) [] (hex_enc (mini_hash [7])) w = (Ready (Inr 1), w')
     \<and> pool w' = pool w \<and> length bytes = 1 \<and> peer_id c = test_peer_id
     \<and> get_verified test_crates test_serde (mini_hash bytes) c = (Ready (Inr bytes), c')"
proof -
  obtain w sess where w: "serving file_env (\<lambda>_ s. relays test_serde s test_peer_id relay_offer ''v=0'') (tw_near file_world) sess (Suc 0) w"
    "relays test_serde (sess (bootstrap w)) test_peer_id relay_offer ''v=0''" using relay_scene by blast
  from relayed_fetch_serving [of file_env "hex_enc test_peer_id" test_peer_id "hex_enc (mini_hash [7])" "mini_hash [7]"
      _ "tw_near file_world" sess 0 w relay_offer "''v=0''" "[]" "test_session file_world" "tw_store file_world"]
    w file_hash relay_facts
  obtain w' where r: "relayed_fetch file_env (hex_enc test_peer_id) [] (hex_enc (mini_hash [7])) w = (Ready (Inr 1), w')"
    by fastforce
  from relayed_fetch_sound [OF this] obtain bytes c c' where "pool w' = pool w" "length bytes = 1" "peer_id c = test_peer_id"
    "get_verified test_crates test_serde (mini_hash bytes) c = (Ready (Inr bytes), c')"
    using file_target by (auto simp: mini_hash_def)
  with r show ?thesis by blast
qed

end
