(* ===== verification/Store.thy ===== *)
theory Store
  imports Client_Steps
begin

text \<open>
  Storing, whatever the network does: the lemmas about the quote, payment and PUT phases of \<open>store_one\<close> in
  \<open>src/lib.rs\<close> that hold with no assumption on any node.
\<close>

section \<open>Quotes\<close>

text \<open>A quote that may be paid: for this address, by this peer's key, with that key's signature.\<close>

definition good_quote :: "crates \<Rightarrow> byte list \<Rightarrow> byte list \<Rightarrow> Quote \<Rightarrow> bool" where
  "good_quote cr address pid q \<longleftrightarrow> content q = address \<and> blake3_hash cr (pub_key q) = pid \<and> verify_quote cr q"

lemma try_quote_Inr:
  "try_quote env peer address n w = (Ready (Inr (q, st, cm)), w') \<Longrightarrow>
     good_quote (e_crates env) address (pci_peer_id peer) q"
  by (auto simp: try_quote_def res_iff good_quote_def split: if_splits prod.splits)

lemma quote_attempts_Inr:
  "quote_attempts env peer address n k last_err w = (Ready (Inr (q, st, cm)), w') \<Longrightarrow>
     good_quote (e_crates env) address (pci_peer_id peer) q"
proof (induction k arbitrary: last_err w)
  case 0
  then show ?case by (simp add: fail_def)
next
  case (Suc k)
  obtain x w1 where t: "try_quote env peer address n w = (x, w1)" by force
  show ?case
  proof (cases "\<exists>e. x = Ready (Inl e)")
    case True
    then obtain e where "x = Ready (Inl e)" by blast
    with Suc.prems t show ?thesis by (auto intro: Suc.IH)
  next
    case False
    with Suc.prems t have "x = Ready (Inr (q, st, cm))" by (auto simp: ok_def split: poll.splits sum.splits)
    with t try_quote_Inr show ?thesis by blast
  qed
qed

definition good_peer :: "crates \<Rightarrow> byte list \<Rightarrow> QuotedPeer \<Rightarrow> bool" where
  "good_peer cr address q \<longleftrightarrow> good_quote cr address (qp_peer_id q) (qp_quote q)"

lemma collect_quotes_Inr:
  "collect_quotes env address n peers quoted m w = (Ready (Inr (Some qs)), w') \<Longrightarrow>
     \<exists>new. qs = quoted @ new \<and> map qp_peer_id new = map pci_peer_id peers
        \<and> list_all (good_peer (e_crates env) address) new"
proof (induction peers arbitrary: quoted m w)
  case Nil
  then show ?case by (simp add: ok_def)
next
  case (Cons peer peers)
  obtain q st cm w1 where a: "quote_attempts env peer address n QUOTE_ATTEMPTS ''no attempt'' w = (Ready (Inr (q, st, cm)), w1)"
    using Cons.prems by (auto simp: fail_def split: prod.splits poll.splits sum.splits)
  obtain h w2 where c: "connection_for env peer w1 = (Ready (Inr h), w2)"
    using Cons.prems a by (auto simp: fail_def ok_def split: prod.splits poll.splits sum.splits if_splits)
  let ?new = "\<lparr>qp_peer_id = pci_peer_id peer, qp_conn = h, qp_quote = q, qp_commitment = cm\<rparr>"
  have "\<exists>m'. collect_quotes env address n peers (quoted @ [?new]) m' w2 = (Ready (Inr (Some qs)), w')"
    using Cons.prems a c by (auto simp: ok_def split: if_splits)
  with Cons.IH obtain new where "qs = (quoted @ [?new]) @ new" "map qp_peer_id new = map pci_peer_id peers"
    "list_all (good_peer (e_crates env) address) new" by blast
  with quote_attempts_Inr [OF a] show ?case
    by (intro exI [of _ "?new # new"]) (simp add: good_peer_def [of "e_crates env" address ?new])
qed

text \<open>The handles of the quoted peers are connections of theirs.\<close>

definition own_handles :: "'m env \<Rightarrow> client \<Rightarrow> QuotedPeer list \<Rightarrow> bool" where
  "own_handles env w qs \<longleftrightarrow> list_all (\<lambda>q. qp_conn q < length (conns w) \<and> peer_id (conns w ! qp_conn q) = qp_peer_id q) qs"

lemma own_handles_step: "client_step env w w' \<Longrightarrow> own_handles env w qs \<Longrightarrow> own_handles env w' qs"
  by (fastforce simp: own_handles_def client_step_def list_all_iff)

lemma collect_quotes_handles:
  "collect_quotes env address n peers quoted m w = (Ready (Inr (Some qs)), w') \<Longrightarrow> client_ok env w \<Longrightarrow>
     own_handles env w quoted \<Longrightarrow> own_handles env w' qs"
proof (induction peers arbitrary: quoted m w)
  case Nil
  then show ?case by (simp add: ok_def)
next
  case (Cons peer peers)
  obtain q st cm w1 where a: "quote_attempts env peer address n QUOTE_ATTEMPTS ''no attempt'' w = (Ready (Inr (q, st, cm)), w1)"
    using Cons.prems by (auto simp: fail_def split: prod.splits poll.splits sum.splits)
  obtain h w2 where c: "connection_for env peer w1 = (Ready (Inr h), w2)"
    using Cons.prems a by (auto simp: fail_def ok_def split: prod.splits poll.splits sum.splits if_splits)
  let ?new = "\<lparr>qp_peer_id = pci_peer_id peer, qp_conn = h, qp_quote = q, qp_commitment = cm\<rparr>"
  obtain m' where r: "collect_quotes env address n peers (quoted @ [?new]) m' w2 = (Ready (Inr (Some qs)), w')"
    using Cons.prems a c by (auto simp: ok_def split: if_splits)
  have s1: "client_step env w w1" using stepsD [OF client.steps_quote_attempts a] .
  have s2: "client_step env w1 w2" using stepsD [OF client.steps_connection_for c] .
  have ok: "client_ok env w1" "client_ok env w2" using Cons.prems(2) s1 s2 by (simp_all add: client_step_def)
  have "own_handles env w2 (quoted @ [?new])"
    using own_handles_step [OF s2 own_handles_step [OF s1 Cons.prems(3)]] connection_for_Inr [OF c ok(1)]
    by (simp add: own_handles_def)
  from Cons.IH [OF r ok(2) this] show ?case .
qed

section \<open>Payments\<close>

text \<open>The two calls of \<open>pay\<close> for a split: approve the vault for the total, then pay the quotes.\<close>

definition payment_calls :: "crates \<Rightarrow> byte list \<Rightarrow> byte list \<Rightarrow> DataPayment list \<Rightarrow> (string \<times> string) list" where
  "payment_calls cr token vault payments =
     [(to_hex cr token, hex_0x cr (approve_calldata vault (total_amount payments))),
      (to_hex cr vault, hex_0x cr (pay_for_quotes_calldata cr payments))]"

lemma call_pay_calls: "call_pay env to calldata w = (r, w') \<Longrightarrow> w' = w\<lparr>pay_calls := pay_calls w @ [(to, calldata)]\<rparr>"
  by (auto simp: call_pay_def Let_def ok_def fail_def split: pay_reply.splits js_value.splits)

lemma pay_quotes_calls:
  assumes "pay_quotes env token vault quoted w = (r, w')"
  shows "case payment_split (e_crates env) (map qp_quote quoted) of
      Inl e \<Rightarrow> r = Ready (Inl e) \<and> w' = w
    | Inr payments \<Rightarrow> \<exists>k. 1 \<le> k \<and> k \<le> 2 \<and> ((\<exists>proof. r = Ready (Inr proof)) \<longrightarrow> k = 2)
        \<and> w' = w\<lparr>pay_calls := pay_calls w @ take k (payment_calls (e_crates env) token vault payments)\<rparr>"
proof (cases "payment_split (e_crates env) (map qp_quote quoted)")
  case (Inl e)
  with assms show ?thesis by (simp add: pay_quotes_def Let_def)
next
  case (Inr payments)
  let ?cr = "e_crates env"
  let ?a = "call_pay env (to_hex ?cr token) (hex_0x ?cr (approve_calldata vault (total_amount payments)))"
  let ?p = "call_pay env (to_hex ?cr vault) (hex_0x ?cr (pay_for_quotes_calldata ?cr payments))"
  obtain x w1 where a: "?a w = (x, w1)" by force
  note w1 = call_pay_calls [OF a]
  show ?thesis
  proof (cases "\<exists>s. x = Ready (Inr s)")
    case False
    with assms a Inr have "w' = w1" "\<forall>proof. r \<noteq> Ready (Inr proof)"
      by (auto simp: pay_quotes_def Let_def await_def lift_res_def split: poll.splits sum.splits)
    with Inr w1 show ?thesis by (auto simp: payment_calls_def intro!: exI [of _ 1])
  next
    case True
    then obtain s where s: "x = Ready (Inr s)" by blast
    obtain y w2 where p: "?p w1 = (y, w2)" by force
    note w2 = call_pay_calls [OF p]
    have "w' = w2"
      using assms a p Inr s
      by (auto simp: pay_quotes_def Let_def await_def lift_res_def split: poll.splits sum.splits)
    with Inr w1 w2 show ?thesis by (auto simp: payment_calls_def numeral_2_eq_2 intro!: exI [of _ 2])
  qed
qed

section \<open>PUTs\<close>

text \<open>The peer of a handle acknowledged the chunk, on an authenticated session of its own.\<close>

definition acknowledged :: "'m env \<Rightarrow> byte list \<Rightarrow> byte list \<Rightarrow> byte list \<Rightarrow> QuotedPeer \<Rightarrow> bool" where
  "acknowledged env address data proof_bytes q \<longleftrightarrow>
     (\<exists>c c'. peer_id c = qp_peer_id q \<and> authenticated (e_crates env) c
        \<and> put_chunk (e_crates env) (e_serde env) address data proof_bytes c = (Ready (Inr True), c'))"

lemma put_attempts_ack:
  "put_attempts env h address data proof_bytes k last_err w = (Ready (Inr (True, e)), w') \<Longrightarrow> client_ok env w \<Longrightarrow>
     own_handles env w [q] \<Longrightarrow> qp_conn q = h \<Longrightarrow> acknowledged env address data proof_bytes q"
proof (induction k arbitrary: last_err w)
  case 0
  then show ?case by (simp add: ok_def)
next
  case (Suc k)
  let ?put = "put_chunk (e_crates env) (e_serde env) address data proof_bytes"
  obtain x w1 where p: "on_conn h ?put w = (x, w1)" by force
  have s: "client_step env w w1" using stepsD [OF client.steps_on_conn [OF steps_quote_put(2)] p] .
  show ?case
  proof (cases "\<exists>e. x = Ready (Inl e)")
    case True
    then obtain e' where "x = Ready (Inl e')" by blast
    with Suc.prems p have "put_attempts env h address data proof_bytes k e' w1 = (Ready (Inr (True, e)), w')" by simp
    moreover have "client_ok env w1" using s Suc.prems(2) by (simp add: client_step_def)
    ultimately show ?thesis using Suc.IH own_handles_step [OF s Suc.prems(3)] Suc.prems(4) by blast
  next
    case False
    with Suc.prems(1) p have "x = Ready (Inr True)" by (auto simp: ok_def split: poll.splits sum.splits)
    with p obtain c' where "?put (conns w ! h) = (Ready (Inr True), c')" by (auto simp: on_conn_def split: prod.splits)
    with Suc.prems show ?thesis by (auto simp: acknowledged_def own_handles_def client_ok_def)
  qed
qed

lemma put_all_acks:
  "put_all env address data proof_bytes quoted n last_err w = (Ready (Inr (accepted, e)), w') \<Longrightarrow> client_ok env w \<Longrightarrow>
     own_handles env w quoted \<Longrightarrow> accepted \<le> n + length (filter (acknowledged env address data proof_bytes) quoted)"
proof (induction quoted arbitrary: n last_err w)
  case Nil
  then show ?case by (simp add: ok_def)
next
  case (Cons peer quoted)
  obtain yes e1 w1 where p: "put_attempts env (qp_conn peer) address data proof_bytes QUOTE_ATTEMPTS last_err w = (Ready (Inr (yes, e1)), w1)"
    and r: "put_all env address data proof_bytes quoted (n + (if yes then 1 else 0)) e1 w1 = (Ready (Inr (accepted, e)), w')"
    using Cons.prems(1) by (auto simp: fail_def split: prod.splits poll.splits sum.splits)
  have s: "client_step env w w1" using stepsD [OF client.steps_put_attempts p] .
  then have ok: "client_ok env w1" using Cons.prems(2) by (simp add: client_step_def)
  have own: "own_handles env w1 quoted" "own_handles env w [peer]"
    using own_handles_step [OF s, of quoted] Cons.prems(3) by (simp_all add: own_handles_def)
  have "acknowledged env address data proof_bytes peer" if yes
    using put_attempts_ack [of env "qp_conn peer" address data proof_bytes QUOTE_ATTEMPTS last_err w e1 w1 peer]
      p that Cons.prems(2) own(2) by simp
  with Cons.IH [OF r ok own(1)] show ?case by (auto split: if_splits)
qed

text \<open>\<open>put_chunk\<close> never answers \<open>Ok(false)\<close>.\<close>

lemma put_chunk_True:
  assumes "put_chunk cr sc address data proof_bytes c = (Ready (Inr b), c')"
  shows b
proof -
  have "(case m of
          PutResponse (PutSuccess _) \<Rightarrow> ok True
        | PutResponse (PutAlreadyExists _) \<Rightarrow> ok True
        | PutResponse (PutPaymentRequired message) \<Rightarrow> fail (''payment required: '' @ message)
        | PutResponse (PutError e) \<Rightarrow> fail (''put error: '' @ display_protocol_error e)
        | _ \<Rightarrow> fail ''unexpected response to put request'') w = (Ready (Inr b), w') \<Longrightarrow> b"
    for m and w w' :: NodeConnection
    by (auto simp: ok_def fail_def split: ChunkMessageBody.splits ChunkPutResponse.splits)
  with assms show ?thesis unfolding put_chunk_def Let_def await_Ready_Inr by blast
qed

section \<open>One chunk\<close>

text \<open>The last phase of \<open>store_one\<close>: PUT to the quoted peers and count.\<close>

definition put_phase ::
    "'m env \<Rightarrow> byte list \<Rightarrow> byte list \<Rightarrow> QuotedPeer list \<Rightarrow> byte list \<Rightarrow> (client, unit) async" where
  "put_phase env address data quoted proof_bytes =
     await (put_all env address data proof_bytes quoted 0 []) (\<lambda>(accepted, last_err).
       if accepted < CLOSE_GROUP_MAJORITY
       then fail (''chunk '' @ hex_encode (e_crates env) address @ '' accepted by only ''
              @ show_nat accepted @ '' of 7 peers: '' @ last_err)
       else ok ())"

lemma store_one_phases:
  "store_one env address data token vault =
     await (on_bootstrap (closest_peers (e_crates env) (e_serde env) address)) (\<lambda>peers.
     if length peers < CLOSE_GROUP_SIZE
     then fail (''need at least 7 responsible peers for '' @ hex_encode (e_crates env) address
            @ '', discovery returned '' @ show_nat (length peers))
     else
       await (collect_quotes env address (length data) (take CLOSE_GROUP_SIZE peers) [] 0) (\<lambda>found.
       case found of
         None \<Rightarrow> ok ()
       | Some quoted \<Rightarrow> await (pay_quotes env token vault quoted) (put_phase env address data quoted)))"
  unfolding store_one_def put_phase_def [abs_def] by (rule refl)

lemma put_phase_outcome:
  assumes "put_phase env address data quoted proof_bytes w = (r, w')" and "client_ok env w" and "own_handles env w quoted"
  shows "pay_calls w' = pay_calls w \<and> (r = Ready (Inr ()) \<longrightarrow>
     CLOSE_GROUP_MAJORITY \<le> length (filter (acknowledged env address data proof_bytes) quoted))"
proof
  have "steps unpaid (put_phase env address data quoted proof_bytes)"
    unfolding put_phase_def by (intro unpaid.steps_await unpaid.steps_put_all) auto
  from stepsD [OF this assms(1)] show "pay_calls w' = pay_calls w" by (simp add: unpaid_def)
  show "r = Ready (Inr ()) \<longrightarrow> CLOSE_GROUP_MAJORITY \<le> length (filter (acknowledged env address data proof_bytes) quoted)"
  proof
    assume "r = Ready (Inr ())"
    with assms(1) obtain accepted e w4 where
      "put_all env address data proof_bytes quoted 0 [] w = (Ready (Inr (accepted, e)), w4)" "CLOSE_GROUP_MAJORITY \<le> accepted"
      by (auto simp: put_phase_def res_iff not_less split: if_splits)
    with put_all_acks assms(2,3)
    show "CLOSE_GROUP_MAJORITY \<le> length (filter (acknowledged env address data proof_bytes) quoted)" by fastforce
  qed
qed

lemma pay_and_put_outcome:
  assumes "await (pay_quotes env token vault quoted) (put_phase env address data quoted) w = (r, w')"
    and "client_ok env w" and "own_handles env w quoted"
  shows "pay_calls w' = pay_calls w \<and> r \<noteq> Ready (Inr ()) \<or>
     (\<exists>payments k. payment_split (e_crates env) (map qp_quote quoted) = Inr payments \<and> 1 \<le> k \<and> k \<le> 2
        \<and> pay_calls w' = pay_calls w @ take k (payment_calls (e_crates env) token vault payments)
        \<and> (r = Ready (Inr ()) \<longrightarrow> k = 2 \<and> (\<exists>proof_bytes. CLOSE_GROUP_MAJORITY \<le>
              length (filter (acknowledged env address data proof_bytes) quoted))))"
proof -
  obtain z w1 where q: "pay_quotes env token vault quoted w = (z, w1)" by force
  have s: "client_step env w w1" using stepsD [OF client.steps_pay_quotes q] .
  have ok: "client_ok env w1" using s assms(2) by (simp add: client_step_def)
  have end_: "if \<exists>proof_bytes. z = Ready (Inr proof_bytes)
      then pay_calls w' = pay_calls w1 \<and> (r = Ready (Inr ()) \<longrightarrow> (\<exists>proof_bytes. CLOSE_GROUP_MAJORITY \<le>
              length (filter (acknowledged env address data proof_bytes) quoted)))
      else w' = w1 \<and> r \<noteq> Ready (Inr ())"
  proof (cases "\<exists>proof_bytes. z = Ready (Inr proof_bytes)")
    case True
    then obtain proof_bytes where "z = Ready (Inr proof_bytes)" by blast
    with assms(1) q have "put_phase env address data quoted proof_bytes w1 = (r, w')" by simp
    from put_phase_outcome [OF this ok own_handles_step [OF s assms(3)]] True show ?thesis by auto
  next
    case False
    with assms(1) q show ?thesis by (auto simp: await_def split: poll.splits sum.splits)
  qed
  note calls = pay_quotes_calls [OF q]
  show ?thesis
  proof (cases "payment_split (e_crates env) (map qp_quote quoted)")
    case (Inl e)
    with calls end_ show ?thesis by auto
  next
    case (Inr payments)
    with calls obtain k where "1 \<le> k" "k \<le> 2" "(\<exists>proof. z = Ready (Inr proof)) \<longrightarrow> k = 2"
      "w1 = w\<lparr>pay_calls := pay_calls w @ take k (payment_calls (e_crates env) token vault payments)\<rparr>" by auto
    with Inr end_ show ?thesis by (intro disjI2 exI [of _ payments] exI [of _ k]) (auto split: if_splits)
  qed
qed

text \<open>What \<open>store_one\<close> did, by its payments.\<close>

text \<open>Storing a chunk pays nothing, or it comes to the payment with seven good quotes on its own connections.\<close>

lemma store_one_quoted:
  assumes "store_one env address data token vault w = (r, w')" and "client_ok env w"
  shows "pay_calls w' = pay_calls w \<or>
     (\<exists>quoted w2. await (pay_quotes env token vault quoted) (put_phase env address data quoted) w2 = (r, w')
        \<and> client_ok env w2 \<and> own_handles env w2 quoted \<and> pay_calls w2 = pay_calls w
        \<and> length quoted = CLOSE_GROUP_SIZE \<and> list_all (good_peer (e_crates env) address) quoted)"
proof -
  let ?cr = "e_crates env"
  obtain x w1 where b: "on_bootstrap (closest_peers ?cr (e_serde env) address) w = (x, w1)" by force
  have u1: "pay_calls w1 = pay_calls w"
    using stepsD [OF unpaid.steps_on_bootstrap [OF steps_requests(2)] b] by (simp add: unpaid_def)
  have "client_step env w w1" using stepsD [OF client.steps_on_bootstrap [OF steps_requests(2)] b] .
  then have ok1: "client_ok env w1" using assms(2) by (simp add: client_step_def)
  show ?thesis
  proof (cases "\<exists>peers. x = Ready (Inr peers) \<and> CLOSE_GROUP_SIZE \<le> length peers")
    case False
    then have "w' = w1"
      using assms(1) b by (auto simp: store_one_def await_def fail_def not_less split: poll.splits sum.splits if_splits)
    with u1 show ?thesis by simp
  next
    case True
    then obtain peers where p: "x = Ready (Inr peers)" "CLOSE_GROUP_SIZE \<le> length peers" by blast
    obtain y w2 where c: "collect_quotes env address (length data) (take CLOSE_GROUP_SIZE peers) [] 0 w1 = (y, w2)" by force
    have u2: "pay_calls w2 = pay_calls w"
      using stepsD [OF unpaid.steps_collect_quotes c] u1 by (simp add: unpaid_def)
    have "client_step env w1 w2" using stepsD [OF client.steps_collect_quotes c] .
    then have ok2: "client_ok env w2" using ok1 by (simp add: client_step_def)
    show ?thesis
    proof (cases "\<exists>quoted. y = Ready (Inr (Some quoted))")
      case False
      then have "w' = w2"
        using assms(1) b c p by (auto simp: store_one_def await_def ok_def split: poll.splits sum.splits option.splits)
      with u2 show ?thesis by simp
    next
      case True
      then obtain quoted where y: "y = Ready (Inr (Some quoted))" by blast
      from collect_quotes_Inr [OF c [unfolded y]] have ids: "map qp_peer_id quoted = map pci_peer_id (take CLOSE_GROUP_SIZE peers)"
        and good: "list_all (good_peer ?cr address) quoted" by auto
      have seven: "length quoted = CLOSE_GROUP_SIZE" using arg_cong [OF ids, of length] p(2) by simp
      have own: "own_handles env w2 quoted"
        using collect_quotes_handles [OF c [unfolded y] ok1] by (simp add: own_handles_def)
      have "await (pay_quotes env token vault quoted) (put_phase env address data quoted) w2 = (r, w')"
        using assms(1) b c p y by (simp add: store_one_phases)
      with ok2 own u2 seven good show ?thesis by blast
    qed
  qed
qed

lemma store_one_outcome:
  assumes "store_one env address data token vault w = (r, w')" and "client_ok env w"
  shows "pay_calls w' = pay_calls w \<or>
     (\<exists>quoted payments k. length quoted = CLOSE_GROUP_SIZE \<and> list_all (good_peer (e_crates env) address) quoted
        \<and> payment_split (e_crates env) (map qp_quote quoted) = Inr payments \<and> 1 \<le> k \<and> k \<le> 2
        \<and> pay_calls w' = pay_calls w @ take k (payment_calls (e_crates env) token vault payments)
        \<and> (r = Ready (Inr ()) \<longrightarrow> k = 2 \<and> (\<exists>proof_bytes. CLOSE_GROUP_MAJORITY \<le>
              length (filter (acknowledged env address data proof_bytes) quoted))))"
  using store_one_quoted [OF assms]
proof (elim disjE exE conjE)
  fix quoted w2 assume *: "await (pay_quotes env token vault quoted) (put_phase env address data quoted) w2 = (r, w')"
    "client_ok env w2" "own_handles env w2 quoted" "pay_calls w2 = pay_calls w" "length quoted = CLOSE_GROUP_SIZE"
    "list_all (good_peer (e_crates env) address) quoted"
  from pay_and_put_outcome [OF *(1-3)] *(4-6) show ?thesis by auto
qed simp

end
