(* ===== verification/Storing.thy ===== *)
theory Storing
  imports Store Network
begin

text \<open>
  Storing over a network of honest nodes: when the responsible peers quote and accept the chunk and the
  page pays, \<open>store_one\<close> of \<open>src/lib.rs\<close> succeeds with two payment calls. Nothing in it asks the seven
  peers to be different nodes.
\<close>

section \<open>Nodes that store a chunk\<close>

text \<open>
  For one chunk: the node of identity \<open>pid\<close> quotes it with \<open>quote_of pid\<close>, does not store it yet, and accepts it
  with any of the given proofs.
\<close>

definition upload_node ::
    "crates \<Rightarrow> serde_crates \<Rightarrow> (byte list \<Rightarrow> Quote) \<Rightarrow> byte list \<Rightarrow> byte list \<Rightarrow> (byte list \<Rightarrow> bool)
      \<Rightarrow> byte list \<Rightarrow> node_session \<Rightarrow> bool" where
  "upload_node cr sc quote_of address data proofs pid s \<longleftrightarrow>
     good_quote cr address pid (quote_of pid)
     \<and> (\<exists>i quote_bytes. parse_quote (rmp_from_slice sc) quote_bytes = Inr (quote_of pid)
        \<and> answers_chunk sc s \<lparr>request_id = 1, body = QuoteRequest
             \<lparr>quote_address = address, quote_data_size = of_nat (length data), quote_data_type = DATA_TYPE_CHUNK\<rparr>\<rparr>
           \<lparr>request_id = i, body = QuoteResponse (QuoteSuccess quote_bytes False None)\<rparr>)
     \<and> (\<forall>proof_bytes. proofs proof_bytes \<longrightarrow> (\<exists>i. answers_chunk sc s \<lparr>request_id = 1, body = PutRequest
             \<lparr>put_address = address, put_content = data, payment_proof = Some proof_bytes\<rparr>\<rparr>
           \<lparr>request_id = i, body = PutResponse (PutSuccess address)\<rparr>))"

lemma serving_request:
  assumes "serving env serves near sess (Suc n) w" and "h < length (conns w)"
    and "\<And>c. synced (e_crates env) (sess h) (Suc n) c \<Longrightarrow>
       \<exists>c'. f c = (r, c') \<and> synced (e_crates env) (sess h) n c' \<and> peer_id c' = peer_id c"
  shows "\<exists>w'. on_conn h f w = (r, w') \<and> serving env serves near sess n w' \<and> length (conns w') = length (conns w)
     \<and> pay_calls w' = pay_calls w \<and> pool w' = pool w"
proof -
  have "synced (e_crates env) (sess h) (Suc n) (conns w ! h)" using assms(1,2) by (simp add: serving_def)
  from assms(3) [OF this] obtain c where c: "f (conns w ! h) = (r, c)" "synced (e_crates env) (sess h) n c" by blast
  from serving_on_conn [where f = f, OF assms(1,2) c] c(1) show ?thesis by (auto simp: on_conn_def)
qed

abbreviation storers ::
    "'m env \<Rightarrow> (byte list \<Rightarrow> Quote) \<Rightarrow> byte list \<Rightarrow> byte list \<Rightarrow> (byte list \<Rightarrow> bool) \<Rightarrow> byte list \<Rightarrow> node_session \<Rightarrow> bool" where
  "storers env quote_of address data proofs \<equiv> upload_node (e_crates env) (e_serde env) quote_of address data proofs"

section \<open>Quoting\<close>

lemma request_quote_synced:
  assumes "honest_peers env serves near" and "synced (e_crates env) s (Suc n) c"
    and "answers_chunk (e_serde env) s \<lparr>request_id = 1, body = QuoteRequest
             \<lparr>quote_address = address, quote_data_size = of_nat len, quote_data_type = DATA_TYPE_CHUNK\<rparr>\<rparr>
           \<lparr>request_id = i, body = QuoteResponse (QuoteSuccess quote_bytes st cm)\<rparr>"
  shows "\<exists>c'. request_quote (e_crates env) (e_serde env) address len c = (Ready (Inr (quote_bytes, st, cm)), c')
     \<and> synced (e_crates env) s n c' \<and> peer_id c' = peer_id c"
proof -
  from assms(1) have "aead_correct (e_crates env)" "aead_seals (e_crates env)" "codecs (e_serde env)"
    by (simp_all add: honest_peers_def)
  from chunk_round_trip_synced [OF this assms(2,3)] show ?thesis
    by (auto simp: request_quote_def Let_def ok_def)
qed

lemma put_chunk_synced:
  assumes "honest_peers env serves near" and "synced (e_crates env) s (Suc n) c"
    and "answers_chunk (e_serde env) s \<lparr>request_id = 1, body = PutRequest
             \<lparr>put_address = address, put_content = data, payment_proof = Some proof_bytes\<rparr>\<rparr>
           \<lparr>request_id = i, body = PutResponse (PutSuccess a)\<rparr>"
  shows "\<exists>c'. put_chunk (e_crates env) (e_serde env) address data proof_bytes c = (Ready (Inr True), c')
     \<and> synced (e_crates env) s n c' \<and> peer_id c' = peer_id c"
proof -
  from assms(1) have "aead_correct (e_crates env)" "aead_seals (e_crates env)" "codecs (e_serde env)"
    by (simp_all add: honest_peers_def)
  from chunk_round_trip_synced [OF this assms(2,3)] show ?thesis
    by (auto simp: put_chunk_def Let_def ok_def)
qed

lemma try_quote_serving:
  assumes "honest_peers env serves near" and "serves \<le> storers env quote_of address data proofs"
    and "serving env serves near sess (Suc n) w" and "peer \<in> set (near a)"
  shows "\<exists>h w' sess'. try_quote env peer address (length data) w = (Ready (Inr (quote_of (pci_peer_id peer), False, None)), w')
     \<and> serving env serves near sess' n w' \<and> map_of (pool w') (pci_peer_id peer) = Some h
     \<and> h < length (conns w') \<and> serves (pci_peer_id peer) (sess' h)
     \<and> pay_calls w' = pay_calls w \<and> length (conns w) \<le> length (conns w') \<and> (\<forall>k < length (conns w). sess' k = sess k)"
proof -
  let ?pid = "pci_peer_id peer"
  obtain h w1 sess1 where c: "connection_for env peer w = (Ready (Inr h), w1)"
    and s1: "serving env serves near sess1 (Suc n) w1" "h < length (conns w1)"
    and u: "serves ?pid (sess1 h)" and keep: "map_of (pool w1) ?pid = Some h" "pay_calls w1 = pay_calls w"
      "length (conns w) \<le> length (conns w1)" "\<forall>k < length (conns w). sess1 k = sess k"
    using connection_for_serving [OF assms(1,3,4)] by blast
  from predicate2D [OF assms(2) u] obtain i quote_bytes where q: "good_quote (e_crates env) address ?pid (quote_of ?pid)"
    "parse_quote (rmp_from_slice (e_serde env)) quote_bytes = Inr (quote_of ?pid)"
    "answers_chunk (e_serde env) (sess1 h) \<lparr>request_id = 1, body = QuoteRequest
             \<lparr>quote_address = address, quote_data_size = of_nat (length data), quote_data_type = DATA_TYPE_CHUNK\<rparr>\<rparr>
           \<lparr>request_id = i, body = QuoteResponse (QuoteSuccess quote_bytes False None)\<rparr>"
    unfolding upload_node_def by blast
  obtain w2 where w2: "on_conn h (request_quote (e_crates env) (e_serde env) address (length data)) w1
      = (Ready (Inr (quote_bytes, False, None)), w2)" "serving env serves near sess1 n w2"
    "length (conns w2) = length (conns w1)" "pay_calls w2 = pay_calls w1" "pool w2 = pool w1"
    using serving_request [OF s1 request_quote_synced [OF assms(1) _ q(3)]] by blast
  have "try_quote env peer address (length data) w = (Ready (Inr (quote_of ?pid, False, None)), w2)"
    using c w2(1) q(1,2) by (simp add: try_quote_def good_quote_def ok_def)
  with w2 u s1(2) keep show ?thesis by (intro exI [of _ h] exI [of _ w2] exI [of _ sess1]) simp
qed

text \<open>Every quoted peer has its handle in service.\<close>

definition quoted_handles :: "(byte list \<Rightarrow> node_session \<Rightarrow> bool) \<Rightarrow> (nat \<Rightarrow> node_session) \<Rightarrow> client \<Rightarrow> QuotedPeer list \<Rightarrow> bool" where
  "quoted_handles serves sess w qs \<longleftrightarrow>
     list_all (\<lambda>q. qp_conn q < length (conns w) \<and> serves (qp_peer_id q) (sess (qp_conn q))) qs"

definition quoted_of :: "(byte list \<Rightarrow> Quote) \<Rightarrow> PeerConnectInfo list \<Rightarrow> (byte list \<times> Quote) list" where
  "quoted_of quote_of peers = map (\<lambda>p. (pci_peer_id p, quote_of (pci_peer_id p))) peers"

lemma collect_quotes_serving:
  assumes "honest_peers env serves near" and "serves \<le> storers env quote_of address data proofs"
  shows "set peers \<subseteq> set (near a) \<Longrightarrow>
     serving env serves near sess (length peers + n) w \<Longrightarrow>
     quoted_handles serves sess w quoted \<Longrightarrow>
     \<exists>new w' sess'. collect_quotes env address (length data) peers quoted 0 w = (Ready (Inr (Some (quoted @ new))), w')
        \<and> serving env serves near sess' n w'
        \<and> quoted_handles serves sess' w' (quoted @ new)
        \<and> map (\<lambda>q. (qp_peer_id q, qp_quote q)) new = quoted_of quote_of peers \<and> map qp_commitment new = map (\<lambda>_. None) peers
        \<and> pay_calls w' = pay_calls w"
proof (induction peers arbitrary: quoted sess w)
  case Nil
  then show ?case by (auto simp: ok_def quoted_of_def)
next
  case (Cons peer peers)
  let ?pid = "pci_peer_id peer"
  have p: "peer \<in> set (near a)" and sv: "serving env serves near sess (Suc (length peers + n)) w"
    using Cons.prems(1,2) by simp_all
  obtain h w1 sess1 where t: "try_quote env peer address (length data) w = (Ready (Inr (quote_of ?pid, False, None)), w1)"
    and s1: "serving env serves near sess1 (length peers + n) w1" "map_of (pool w1) ?pid = Some h" "h < length (conns w1)"
    "serves ?pid (sess1 h)" "pay_calls w1 = pay_calls w" "length (conns w) \<le> length (conns w1)"
    "\<forall>k < length (conns w). sess1 k = sess k"
    using try_quote_serving [OF assms sv p] by blast
  let ?new = "\<lparr>qp_peer_id = ?pid, qp_conn = h, qp_quote = quote_of ?pid, qp_commitment = None\<rparr>"
  have a: "quote_attempts env peer address (length data) QUOTE_ATTEMPTS ''no attempt'' w
      = (Ready (Inr (quote_of ?pid, False, None)), w1)"
    using t by (simp add: QUOTE_ATTEMPTS_def numeral_3_eq_3 ok_def)
  have step: "collect_quotes env address (length data) (peer # peers) quoted 0 w
      = collect_quotes env address (length data) peers (quoted @ [?new]) 0 w1"
    using a s1(2) by (simp add: connection_for_def ok_def)
  have "quoted_handles serves sess1 w1 (quoted @ [?new])"
    using Cons.prems(3) s1 by (auto simp: quoted_handles_def list_all_iff)
  from Cons.IH [OF _ s1(1) this] Cons.prems(1) obtain new w' sess' where
    r: "collect_quotes env address (length data) peers (quoted @ [?new]) 0 w1 = (Ready (Inr (Some ((quoted @ [?new]) @ new))), w')"
    "serving env serves near sess' n w'" "quoted_handles serves sess' w' ((quoted @ [?new]) @ new)"
    "map (\<lambda>q. (qp_peer_id q, qp_quote q)) new = quoted_of quote_of peers" "map qp_commitment new = map (\<lambda>_. None) peers"
    "pay_calls w' = pay_calls w1" by auto
  with step s1(5) show ?case
    by (intro exI [of _ "?new # new"] exI [of _ w'] exI [of _ sess']) (simp add: quoted_of_def)
qed

section \<open>Putting\<close>

lemma put_all_serving:
  assumes "honest_peers env serves near" and "serves \<le> storers env quote_of address data proofs" and "proofs proof_bytes"
  shows "serving env serves near sess (length quoted + n) w \<Longrightarrow>
     quoted_handles serves sess w quoted \<Longrightarrow>
     \<exists>w' e. put_all env address data proof_bytes quoted m last_err w = (Ready (Inr (m + length quoted, e)), w')
        \<and> serving env serves near sess n w' \<and> pay_calls w' = pay_calls w"
proof (induction quoted arbitrary: m last_err w)
  case Nil
  then show ?case by (simp add: ok_def)
next
  case (Cons q quoted)
  have sv: "serving env serves near sess (Suc (length quoted + n)) w" and h: "qp_conn q < length (conns w)"
    and u: "serves (qp_peer_id q) (sess (qp_conn q))"
    using Cons.prems by (simp_all add: quoted_handles_def)
  obtain i where put: "answers_chunk (e_serde env) (sess (qp_conn q)) \<lparr>request_id = 1, body = PutRequest
             \<lparr>put_address = address, put_content = data, payment_proof = Some proof_bytes\<rparr>\<rparr>
           \<lparr>request_id = i, body = PutResponse (PutSuccess address)\<rparr>"
    using predicate2D [OF assms(2) u] assms(3) unfolding upload_node_def by blast
  obtain w1 where w1: "on_conn (qp_conn q) (put_chunk (e_crates env) (e_serde env) address data proof_bytes) w
      = (Ready (Inr True), w1)" "serving env serves near sess (length quoted + n) w1" "length (conns w1) = length (conns w)"
      "pay_calls w1 = pay_calls w"
    using serving_request [OF sv h put_chunk_synced [OF assms(1) _ put]] by blast
  have "put_attempts env (qp_conn q) address data proof_bytes QUOTE_ATTEMPTS last_err w = (Ready (Inr (True, last_err)), w1)"
    using w1(1) by (simp add: QUOTE_ATTEMPTS_def numeral_3_eq_3 ok_def)
  then have "put_all env address data proof_bytes (q # quoted) m last_err w
      = put_all env address data proof_bytes quoted (Suc m) last_err w1" by simp
  moreover have "quoted_handles serves sess w1 quoted"
    using Cons.prems(2) w1(3) by (simp add: quoted_handles_def)
  ultimately show ?case using Cons.IH [OF w1(2), of "Suc m" last_err] w1(4) by simp
qed

section \<open>Storing\<close>

lemma pay_quotes_pays:
  assumes "payment_split (e_crates env) (map qp_quote quoted) = Inr payments"
    and "e_pay env (length (pay_calls w)) = Resolves (JsString approved)"
    and "e_pay env (Suc (length (pay_calls w))) = Resolves (JsString tx_hex)"
    and "parse_tx_hash (e_crates env) tx_hex = Inr tx_hash"
    and "serialize_single_node_proof (rmp_to_vec (e_serde env)) (map (\<lambda>q. (qp_peer_id q, qp_quote q)) quoted) tx_hash
        (List.map_filter qp_commitment quoted) = Inr proof_bytes"
  shows "pay_quotes env token vault quoted w = (Ready (Inr proof_bytes),
     w\<lparr>pay_calls := pay_calls w @ payment_calls (e_crates env) token vault payments\<rparr>)"
  using assms by (simp add: pay_quotes_def payment_calls_def Let_def call_pay_def await_def lift_res_def ok_def)

lemma store_one_serving:
  assumes "honest_peers env serves near" and "serves \<le> storers env quote_of address data proofs"
    and "length address = 32" and "CLOSE_GROUP_SIZE \<le> length (near address)"
    and "in_service env serves near (15 + n) w"
    and "e_pay env (length (pay_calls w)) = Resolves (JsString approved)"
    and "e_pay env (Suc (length (pay_calls w))) = Resolves (JsString tx_hex)"
    and "parse_tx_hash (e_crates env) tx_hex = Inr tx_hash"
    and "serialize_single_node_proof (rmp_to_vec (e_serde env)) (quoted_of quote_of (take CLOSE_GROUP_SIZE (near address)))
        tx_hash [] = Inr proof_bytes" and "proofs proof_bytes"
  shows "\<exists>w' payments. store_one env address data token vault w = (Ready (Inr ()), w')
     \<and> payment_split (e_crates env) (map snd (quoted_of quote_of (take CLOSE_GROUP_SIZE (near address)))) = Inr payments
     \<and> pay_calls w' = pay_calls w @ payment_calls (e_crates env) token vault payments
     \<and> in_service env serves near n w'"
proof -
  let ?peers = "take CLOSE_GROUP_SIZE (near address)"
  have seven: "length ?peers = 7" using assms(4) by (simp add: CLOSE_GROUP_SIZE_def)
  obtain sess where sv: "serving env serves near sess (Suc (7 + (7 + n))) w"
    using assms(5) by (auto simp: in_service_def)
  then have d: "discovers (e_serde env) (sess (bootstrap w)) near" and b: "bootstrap w < length (conns w)"
    by (simp_all add: serving_def)
  have laws: "aead_correct (e_crates env)" "aead_seals (e_crates env)" "codecs (e_serde env)"
    using assms(1) by (simp_all add: honest_peers_def)
  obtain w1 where w1: "on_bootstrap (closest_peers (e_crates env) (e_serde env) address) w = (Ready (Inr (near address)), w1)"
    "serving env serves near sess (7 + (7 + n)) w1" "pay_calls w1 = pay_calls w"
    using serving_request [OF sv b closest_peers_synced [OF laws _ d assms(3)]] unfolding on_bootstrap_def by blast
  have "serving env serves near sess (length ?peers + (7 + n)) w1" using w1(2) seven by simp
  from collect_quotes_serving [OF assms(1,2) set_take_subset this, of "[]"]
  obtain quoted w2 sess2 where w2: "collect_quotes env address (length data) ?peers [] 0 w1 = (Ready (Inr (Some quoted)), w2)"
    "serving env serves near sess2 (7 + n) w2" "quoted_handles serves sess2 w2 quoted"
    "map (\<lambda>q. (qp_peer_id q, qp_quote q)) quoted = quoted_of quote_of ?peers" "map qp_commitment quoted = map (\<lambda>_. None) ?peers"
    "pay_calls w2 = pay_calls w"
    using w1(3) by (auto simp: quoted_handles_def)
  have len: "length quoted = 7" using arg_cong [OF w2(5), of length] seven by simp
  have quotes: "map qp_quote quoted = map snd (quoted_of quote_of ?peers)"
    using arg_cong [OF w2(4), of "map snd"] by (simp add: comp_def)
  have "List.map_filter qp_commitment quoted = List.map_filter id (map qp_commitment quoted)"
    by (simp add: List.map_filter_def comp_def filter_map)
  then have side: "List.map_filter qp_commitment quoted = []"
    unfolding w2(5) by (simp add: List.map_filter_def)
  obtain payments where split: "payment_split (e_crates env) (map qp_quote quoted) = Inr payments"
    using len by (simp add: payment_split_def CLOSE_GROUP_SIZE_def Let_def)
  let ?w3 = "w2\<lparr>pay_calls := pay_calls w2 @ payment_calls (e_crates env) token vault payments\<rparr>"
  have pay: "pay_quotes env token vault quoted w2 = (Ready (Inr proof_bytes), ?w3)"
    using assms(6-9) w2(4,6) side by (intro pay_quotes_pays [OF split]) simp_all
  have "serving env serves near sess2 (length quoted + n) ?w3" "quoted_handles serves sess2 ?w3 quoted"
    using w2(2,3) len by (simp_all add: serving_def quoted_handles_def)
  from put_all_serving [OF assms(1,2,10) this, of 0 "[]"] obtain w4 e where
    w4: "put_all env address data proof_bytes quoted 0 [] ?w3 = (Ready (Inr (7, e)), w4)" "serving env serves near sess2 n w4"
    "pay_calls w4 = pay_calls ?w3" using len by auto
  have "store_one env address data token vault w = (Ready (Inr ()), w4)"
    using w1(1) w2(1) pay w4(1) assms(4) by (simp add: store_one_def CLOSE_GROUP_MAJORITY_def ok_def)
  with split quotes w4(2,3) w2(6) show ?thesis by (auto simp: in_service_def)
qed

section \<open>Storing a file\<close>

text \<open>
  Nodes that quote and accept every chunk of a list, each with any proof made of the quotes of its close
  group, whatever the transaction; and a page that pays whenever it is asked to.
\<close>

definition close_quotes :: "(byte list \<Rightarrow> byte list \<Rightarrow> Quote) \<Rightarrow> (byte list \<Rightarrow> PeerConnectInfo list) \<Rightarrow> byte list
    \<Rightarrow> (byte list \<times> Quote) list" where
  "close_quotes quote_of near address = quoted_of (quote_of address) (take CLOSE_GROUP_SIZE (near address))"

definition proof_of :: "serde_crates \<Rightarrow> (byte list \<times> Quote) list \<Rightarrow> byte list \<Rightarrow> bool" where
  "proof_of sc quotes proof_bytes \<longleftrightarrow> (\<exists>tx_hash. length tx_hash = 32
     \<and> serialize_single_node_proof (rmp_to_vec sc) quotes tx_hash [] = Inr proof_bytes)"

definition accepting :: "'m env \<Rightarrow> (byte list \<Rightarrow> byte list \<Rightarrow> Quote) \<Rightarrow> (byte list \<Rightarrow> PeerConnectInfo list)
    \<Rightarrow> (byte list \<times> byte list) list \<Rightarrow> byte list \<Rightarrow> node_session \<Rightarrow> bool" where
  "accepting env quote_of near items pid s \<longleftrightarrow> list_all (\<lambda>(address, data).
     upload_node (e_crates env) (e_serde env) (quote_of address) address data
       (proof_of (e_serde env) (close_quotes quote_of near address)) pid s) items"

definition page_pays :: "'m env \<Rightarrow> bool" where
  "page_pays env \<longleftrightarrow> (\<forall>k. \<exists>tx_hex tx_hash. e_pay env k = Resolves (JsString tx_hex)
     \<and> parse_tx_hash (e_crates env) tx_hex = Inr tx_hash)"

text \<open>Seven peers near the address, and a proof that can be written down.\<close>

definition storable :: "'m env \<Rightarrow> (byte list \<Rightarrow> byte list \<Rightarrow> Quote) \<Rightarrow> (byte list \<Rightarrow> PeerConnectInfo list) \<Rightarrow> byte list \<Rightarrow> bool" where
  "storable env quote_of near address \<longleftrightarrow> length address = 32 \<and> CLOSE_GROUP_SIZE \<le> length (near address)
     \<and> (\<forall>tx_hash. length tx_hash = 32 \<longrightarrow> (\<exists>proof_bytes.
          serialize_single_node_proof (rmp_to_vec (e_serde env)) (close_quotes quote_of near address) tx_hash [] = Inr proof_bytes))"

lemma accepting_storers:
  assumes "(address, data) \<in> set items"
  shows "accepting env quote_of near items
     \<le> storers env (quote_of address) address data (proof_of (e_serde env) (close_quotes quote_of near address))"
  using assms by (fastforce simp: accepting_def list_all_iff)

lemma store_item_serving:
  assumes "honest_peers env (accepting env quote_of near all) near" and "page_pays env"
    and "(address, data) \<in> set all" and "storable env quote_of near address"
    and "in_service env (accepting env quote_of near all) near (15 + n) w"
  shows "\<exists>w' payments. store_one env address data token vault w = (Ready (Inr ()), w')
     \<and> payment_split (e_crates env) (map snd (close_quotes quote_of near address)) = Inr payments
     \<and> pay_calls w' = pay_calls w @ payment_calls (e_crates env) token vault payments
     \<and> in_service env (accepting env quote_of near all) near n w'"
proof -
  obtain approved tx_hex tx_hash where pay: "e_pay env (length (pay_calls w)) = Resolves (JsString approved)"
    "e_pay env (Suc (length (pay_calls w))) = Resolves (JsString tx_hex)"
    "parse_tx_hash (e_crates env) tx_hex = Inr tx_hash" using assms(2) unfolding page_pays_def by metis
  have len: "length tx_hash = 32" using pay(3) by (auto simp: parse_tx_hash_def sized_def Let_def res_iff split: if_splits)
  with assms(4) obtain pb where pb:
    "serialize_single_node_proof (rmp_to_vec (e_serde env)) (close_quotes quote_of near address) tx_hash [] = Inr pb"
    unfolding storable_def by blast
  then have "proof_of (e_serde env) (close_quotes quote_of near address) pb" using len unfolding proof_of_def by blast
  with store_one_serving [OF assms(1) accepting_storers [OF assms(3)] _ _ assms(5) pay, of pb] assms(4) pb
  show ?thesis by (simp add: storable_def close_quotes_def)
qed

lemma store_items_serving:
  assumes "honest_peers env (accepting env quote_of near all) near" and "page_pays env"
  shows "set items \<subseteq> set all \<Longrightarrow> list_all (\<lambda>(address, data). storable env quote_of near address) items \<Longrightarrow>
     in_service env (accepting env quote_of near all) near (15 * length items + n) w \<Longrightarrow>
     \<exists>w' splits. store_items env token vault items w = (Ready (Inr ()), w')
       \<and> list_all2 (\<lambda>(address, data) payments.
            payment_split (e_crates env) (map snd (close_quotes quote_of near address)) = Inr payments) items splits
       \<and> pay_calls w' = pay_calls w @ concat (map (payment_calls (e_crates env) token vault) splits)
       \<and> in_service env (accepting env quote_of near all) near n w'"
proof (induction items arbitrary: w)
  case Nil
  then show ?case by (simp add: ok_def)
next
  case (Cons item items)
  obtain address data where item: "item = (address, data)" by force
  have m: "(address, data) \<in> set all" and s: "storable env quote_of near address"
    and v: "in_service env (accepting env quote_of near all) near (15 + (15 * length items + n)) w"
    using Cons.prems item by (simp_all add: add.assoc)
  obtain w1 payments where w1: "store_one env address data token vault w = (Ready (Inr ()), w1)"
    "payment_split (e_crates env) (map snd (close_quotes quote_of near address)) = Inr payments"
    "pay_calls w1 = pay_calls w @ payment_calls (e_crates env) token vault payments"
    "in_service env (accepting env quote_of near all) near (15 * length items + n) w1"
    using store_item_serving [OF assms m s v] by blast
  from Cons.IH [OF _ _ w1(4)] Cons.prems(1,2) obtain w' splits where
    "store_items env token vault items w1 = (Ready (Inr ()), w')"
    "list_all2 (\<lambda>(address, data) payments.
        payment_split (e_crates env) (map snd (close_quotes quote_of near address)) = Inr payments) items splits"
    "pay_calls w' = pay_calls w1 @ concat (map (payment_calls (e_crates env) token vault) splits)"
    "in_service env (accepting env quote_of near all) near n w'" by auto
  with w1 item show ?case by (intro exI [of _ w'] exI [of _ "payments # splits"]) simp
qed

end
