(* ===== verification/Uploads.thy ===== *)
theory Uploads
  imports Storing Downloads
begin

text \<open>
  The properties of uploading: what the page is asked to pay, whatever the network does, and that storing
  succeeds over an honest one.
\<close>

section \<open>Any network\<close>


text \<open>The calls one item of an upload may make.\<close>

definition justified :: "'m env \<Rightarrow> byte list \<Rightarrow> byte list \<Rightarrow> byte list \<Rightarrow> (string \<times> string) list \<Rightarrow> bool" where
  "justified env token vault address calls \<longleftrightarrow> calls = [] \<or>
     (\<exists>quoted payments k. length quoted = CLOSE_GROUP_SIZE \<and> list_all (good_peer (e_crates env) address) quoted
        \<and> payment_split (e_crates env) (map qp_quote quoted) = Inr payments \<and> 1 \<le> k \<and> k \<le> 2
        \<and> calls = take k (payment_calls (e_crates env) token vault payments))"

lemma store_one_justified:
  assumes "store_one env address data token vault w = (r, w')" and "client_ok env w"
  shows "\<exists>calls. pay_calls w' = pay_calls w @ calls \<and> justified env token vault address calls"
  using store_one_outcome [OF assms] unfolding justified_def by fastforce

lemma store_items_justified:
  "store_items env token vault items w = (r, w') \<Longrightarrow> client_ok env w \<Longrightarrow>
     \<exists>segs. pay_calls w' = pay_calls w @ concat segs \<and> length segs \<le> length items
       \<and> list_all2 (justified env token vault) (map fst (take (length segs) items)) segs
       \<and> (r = Ready (Inr ()) \<longrightarrow> length segs = length items)"
proof (induction items arbitrary: w)
  case Nil
  then show ?case by (auto simp: ok_def)
next
  case (Cons item items)
  obtain address data where item: "item = (address, data)" by force
  obtain x w1 where s: "store_one env address data token vault w = (x, w1)" by force
  obtain calls where c: "pay_calls w1 = pay_calls w @ calls" "justified env token vault address calls"
    using store_one_justified [OF s Cons.prems(2)] by blast
  have "client_step env w w1" using stepsD [OF client.steps_store_one s] .
  then have ok: "client_ok env w1" using Cons.prems(2) by (simp add: client_step_def)
  show ?case
  proof (cases "x = Ready (Inr ())")
    case True
    with Cons.prems(1) s item have "store_items env token vault items w1 = (r, w')" by simp
    from Cons.IH [OF this ok] obtain segs where "pay_calls w' = pay_calls w1 @ concat segs" "length segs \<le> length items"
      "list_all2 (justified env token vault) (map fst (take (length segs) items)) segs"
      "r = Ready (Inr ()) \<longrightarrow> length segs = length items" by blast
    with c item show ?thesis by (intro exI [of _ "calls # segs"]) simp
  next
    case False
    with Cons.prems(1) s item have "w' = w1" "r \<noteq> Ready (Inr ())"
      by (auto simp: await_def split: poll.splits sum.splits)
    with c item show ?thesis by (intro exI [of _ "[calls]"]) simp
  qed
qed


section \<open>An honest network\<close>

text \<open>Storing works when everyone plays their part: over a network of honest nodes, if the closest peers
  discovery names quote and accept the chunk, the page pays and the proof can be serialized, \<open>store_one\<close>
  returns \<open>Ok\<close> after exactly the two payment calls. It takes the first seven peers as they come: no
  hypothesis says that they are seven different nodes.\<close>
lemma store_one_completes:
  assumes "honest_peers env (upload_node (e_crates env) (e_serde env) quote_of address data ((=) proof_bytes)) near"
    and "length address = 32" and "7 \<le> length (near address)"
    and "in_service env (upload_node (e_crates env) (e_serde env) quote_of address data ((=) proof_bytes)) near (15 + n) w"
    and "e_pay env (length (pay_calls w)) = Resolves (JsString approved)"
    and "e_pay env (Suc (length (pay_calls w))) = Resolves (JsString tx_hex)"
    and "parse_tx_hash (e_crates env) tx_hex = Inr tx_hash"
    and "serialize_single_node_proof (rmp_to_vec (e_serde env)) (quoted_of quote_of (take 7 (near address))) tx_hash []
        = Inr proof_bytes"
  shows "\<exists>w' payments. store_one env address data token vault w = (Ready (Inr ()), w')
     \<and> payment_split (e_crates env) (map snd (quoted_of quote_of (take 7 (near address)))) = Inr payments
     \<and> pay_calls w' = pay_calls w @ payment_calls (e_crates env) token vault payments"
proof -
  have seven: "7 = CLOSE_GROUP_SIZE" by (simp add: CLOSE_GROUP_SIZE_def)
  from store_one_serving [OF assms(1) order.refl assms(2) assms(3-8) [unfolded seven] refl] show ?thesis unfolding seven by blast
qed


lemma upload_serving:
  assumes "parse_eth_address (e_crates env) token_hex = Inr token"
    and "parse_eth_address (e_crates env) vault_hex = Inr vault"
    and "upload_items env data = Inr (items, address)"
    and "honest_peers env (accepting env quote_of near items) near" and "page_pays env"
    and "list_all (\<lambda>(a, d). storable env quote_of near a) items"
    and "in_service env (accepting env quote_of near items) near (15 * length items + n) w"
  shows "\<exists>w' splits. upload env data token_hex vault_hex w = (Ready (Inr (hex_encode (e_crates env) address)), w')
     \<and> list_all2 (\<lambda>(a, d) payments.
          payment_split (e_crates env) (map snd (close_quotes quote_of near a)) = Inr payments) items splits
     \<and> pay_calls w' = pay_calls w @ concat (map (payment_calls (e_crates env) token vault) splits)
     \<and> in_service env (accepting env quote_of near items) near n w'"
proof -
  from store_items_serving [OF assms(4,5) subset_refl assms(6,7)] obtain w' splits where
    "store_items env token vault items w = (Ready (Inr ()), w')"
    "list_all2 (\<lambda>(a, d) payments.
        payment_split (e_crates env) (map snd (close_quotes quote_of near a)) = Inr payments) items splits"
    "pay_calls w' = pay_calls w @ concat (map (payment_calls (e_crates env) token vault) splits)"
    "in_service env (accepting env quote_of near items) near n w'" by blast
  with assms(1-3) show ?thesis by (intro exI [of _ w'] exI [of _ splits]) (simp add: upload_def await_def lift_res_def ok_def)
qed

text \<open> C11. An upload completes when everyone plays their part: over a network of honest nodes of which those named
  for each item quote and accept it, with a page that pays, \<open>upload\<close> returns the address of the data map.
  Every item is stored in turn with one approval and one payment, of the split of its own seven quotes.\<close>
theorem upload_completes:
  assumes "parse_eth_address (e_crates env) token_hex = Inr token"
    and "parse_eth_address (e_crates env) vault_hex = Inr vault"
    and "upload_items env data = Inr (items, address)"
    and "honest_peers env (accepting env quote_of near items) near" and "page_pays env"
    and "list_all (\<lambda>(a, d). storable env quote_of near a) items"
    and "in_service env (accepting env quote_of near items) near (15 * length items + n) w"
  shows "\<exists>w' splits. upload env data token_hex vault_hex w = (Ready (Inr (hex_encode (e_crates env) address)), w')
     \<and> list_all2 (\<lambda>(a, d) payments.
          payment_split (e_crates env) (map snd (close_quotes quote_of near a)) = Inr payments) items splits
     \<and> pay_calls w' = pay_calls w @ concat (map (payment_calls (e_crates env) token vault) splits)
     \<and> in_service env (accepting env quote_of near items) near n w'"
  by (rule upload_serving [OF assms])

section \<open>Texts\<close>

lemma hex_trim:
  assumes "hex_correct cr"
  shows "trim (hex_encode cr bs) = hex_encode cr bs" "trim (hex_0x cr bs) = hex_0x cr bs"
proof -
  have "lower_hex c \<Longrightarrow> graphic c" for c by (auto simp: lower_hex_def graphic_def)
  then have g: "list_all graphic (hex_encode cr bs)" using assms by (auto simp: hex_correct_def list_all_iff)
  then show "trim (hex_encode cr bs) = hex_encode cr bs" by (rule trim_graphic)
  have "list_all graphic (hex_0x cr bs)" using g by (simp add: hex_0x_def graphic_def)
  then show "trim (hex_0x cr bs) = hex_0x cr bs" by (rule trim_graphic)
qed

lemma parse_tx_hash_0x:
  assumes "hex_correct cr" and "length h = 32"
  shows "parse_tx_hash cr (hex_0x cr h) = Inr h"
proof -
  have "unwrap_or (strip_prefix ''0x'' (trim (hex_0x cr h))) (trim (hex_0x cr h)) = hex_encode cr h"
    unfolding hex_trim [OF assms(1)] by (simp add: hex_0x_def)
  then show ?thesis using assms by (simp add: parse_tx_hash_def hex_correct_def sized_def del: strip_prefix.simps)
qed

lemma parse_eth_address_0x:
  assumes "hex_correct cr" and "length a = 20"
  shows "parse_eth_address cr (hex_0x cr a) = Inr a"
proof -
  have "unwrap_or (strip_prefix ''0x'' (trim (hex_0x cr a))) (trim (hex_0x cr a)) = hex_encode cr a"
    unfolding hex_trim [OF assms(1)] by (simp add: hex_0x_def)
  then show ?thesis using assms by (simp add: parse_eth_address_def hex_correct_def sized_def del: strip_prefix.simps)
qed



section \<open>Instances\<close>

text \<open>A node that holds the one-byte file, quotes and accepts everything, named seven times over as the close group of any address.\<close>

definition store_world :: test_world where
  "store_world = \<lparr>tw_store = map_of file_items, tw_near = (\<lambda>_. replicate 7 test_peer),
     tw_quote = (\<lambda>a. signed_quote\<lparr>content := a\<rparr>), tw_stored = False\<rparr>"

lemma store_world_sel [simp]:
  "tw_near store_world = (\<lambda>_. replicate 7 test_peer)" "tw_quote store_world = (\<lambda>a. signed_quote\<lparr>content := a\<rparr>)"
  "tw_stored store_world = False"
  by (simp_all add: store_world_def)

lemma store_world_ok: "test_world_ok store_world"
  using test_peer_ok file_items_ok by (simp add: test_world_ok_def store_world_def sum_list_replicate list_all_iff)

text \<open>Its quotes, and the proofs of their payment, with their sizes.\<close>

abbreviation quote_for :: "byte list \<Rightarrow> Quote" where
  "quote_for a \<equiv> signed_quote\<lparr>content := a\<rparr>"

lemma enc_bytes: "\<exists>e. enc_all msgpack_fmt (map SU8 bs) = Some e \<and> length e \<le> 2 * length bs"
proof (induction bs)
  case (Cons b bs)
  then obtain e where "enc_all msgpack_fmt (map SU8 bs) = Some e" "length e \<le> 2 * length bs" by blast
  moreover have "length (mp_uint (unat b)) \<le> 2" using unsigned_less [of b, where ?'a = nat] by (simp add: mp_uint_def)
  ultimately show ?case by (simp add: res_iff)
qed simp

lemma quote_for_bytes:
  assumes "length a = 32"
  shows "\<exists>qb. encode_quote (fmt_to_bytes msgpack_fmt) (quote_for a) = Inr qb \<and> length qb \<le> 20000"
proof -
  obtain e where "enc_all msgpack_fmt (map SU8 a) = Some e" "length e \<le> 2 * length a" using enc_bytes by blast
  with assms show ?thesis
    by (simp add: encode_quote_def fmt_to_bytes_def sv_Quote_def sv_Timestamp_def sv_list_def sv_array_def sv_opt_def
      signed_quote_def test_quote_def mp_len_def mp_uint_def res_iff length_concat sum_list_replicate
      byte_simps split: option.splits)
qed

lemma proof_for_bytes:
  assumes "length a = 32" and "length tx = 32"
  shows "\<exists>pb. serialize_single_node_proof (fmt_to_bytes msgpack_fmt) (replicate 7 (test_peer_id, quote_for a)) tx []
     = Inr pb \<and> length pb \<le> 200000"
proof -
  obtain e f where "enc_all msgpack_fmt (map SU8 a) = Some e" "length e \<le> 2 * length a"
     "enc_all msgpack_fmt (map SU8 tx) = Some f" "length f \<le> 2 * length tx" using enc_bytes by meson
  with assms show ?thesis
    by (simp add: serialize_single_node_proof_def encode_proof_def fmt_to_bytes_def sv_PaymentProof_def sv_ProofOfPayment_def
      sv_PeerId_def sv_TxHash_def sv_Quote_def sv_Timestamp_def sv_list_def sv_array_def sv_opt_def test_peer_id_def
      signed_quote_def test_quote_def mp_len_def mp_uint_def res_iff length_concat sum_list_replicate
      byte_simps split: option.splits)
qed

lemma quote_for_parses:
  assumes "encode_quote (fmt_to_bytes msgpack_fmt) (quote_for a) = Inr qb" and "length a = 32"
  shows "parse_quote (fmt_from_bytes msgpack_fmt) qb = Inr (quote_for a)"
proof -
  have "wf_Quote (quote_for a)" using assms(2) by (simp add: wf_Quote_def signed_quote_def test_quote_def)
  then show ?thesis
    using assms(1) wire_codec.read_written [OF quote_codec [OF msgpack.serde_codec_axioms]]
    by (auto simp: encode_quote_def parse_quote_def map_err_def split: sum.splits)
qed

lemma quote_for_good: "good_quote test_crates a test_peer_id (quote_for a)"
  using test_node_id [of undefined]
  by (simp add: good_quote_def verify_quote_def PK_LEN_def SIG_LEN_def signed_quote_def test_quote_def del: test_hash)

lemma store_world_node:
  assumes "length a = 32" and "length d \<le> 1000" and "\<And>pb. proofs pb \<Longrightarrow> length pb \<le> 200000"
  shows "upload_node test_crates test_serde (\<lambda>_. quote_for a) a d proofs test_peer_id (test_session store_world)"
proof -
  obtain qb where qb: "encode_quote (fmt_to_bytes msgpack_fmt) (quote_for a) = Inr qb" "length qb \<le> 20000"
    using quote_for_bytes [OF assms(1)] by blast
  let ?q = "\<lparr>request_id = 1, body = QuoteRequest
      \<lparr>quote_address = a, quote_data_size = of_nat (length d), quote_data_type = DATA_TYPE_CHUNK\<rparr>\<rparr>"
  let ?p = "\<lambda>pb. \<lparr>request_id = 1, body = PutRequest \<lparr>put_address = a, put_content = d, payment_proof = Some pb\<rparr>\<rparr>"
  have "answers_chunk test_serde (test_session store_world) ?q (?q\<lparr>body := test_answer store_world (body ?q)\<rparr>)"
    using qb assms(1)
    by (intro test_answers_chunk) (simp_all add: MAX_WIRE_MESSAGE_SIZE_def wf_ChunkMessage_def sv_ChunkMessage_def
        sv_ChunkQuoteRequest_def sv_opt_def)
  moreover have "answers_chunk test_serde (test_session store_world) (?p pb) ((?p pb)\<lparr>body := test_answer store_world (body (?p pb))\<rparr>)"
    if "proofs pb" for pb
    using assms(1,2) assms(3) [OF that]
    by (intro test_answers_chunk) (simp_all add: MAX_WIRE_MESSAGE_SIZE_def wf_ChunkMessage_def sv_ChunkMessage_def
        sv_ChunkPutRequest_def sv_opt_def)
  ultimately show ?thesis
    using quote_for_good quote_for_parses [OF qb(1) assms(1)] qb(1) unfolding upload_node_def by force
qed

lemma store_world_quotes: "close_quotes (\<lambda>a _. quote_for a) (tw_near store_world) a = replicate 7 (test_peer_id, quote_for a)"
  by (simp add: close_quotes_def quoted_of_def test_peer_def test_peer_id_def CLOSE_GROUP_SIZE_def)

lemma store_world_accepting:
  assumes "list_all (\<lambda>(a, d). length a = 32 \<and> length d \<le> 1000) items"
  shows "accepting (test_env store_world p) (\<lambda>a _. quote_for a) (tw_near store_world) items test_peer_id (test_session store_world)"
    "list_all (\<lambda>(a, d). storable (test_env store_world p) (\<lambda>a _. quote_for a) (tw_near store_world) a) items"
proof -
  have "length pb \<le> 200000" if "proof_of test_serde (replicate 7 (test_peer_id, quote_for a)) pb" "length a = 32" for a pb
    using that proof_for_bytes [OF that(2)] by (fastforce simp: proof_of_def)
  with assms show "accepting (test_env store_world p) (\<lambda>a _. quote_for a) (tw_near store_world) items
      test_peer_id (test_session store_world)"
    unfolding accepting_def store_world_quotes test_env_sel
    by (auto simp: list_all_iff intro!: store_world_node simp del: test_crates_sel)
  have "storable (test_env store_world p) (\<lambda>a _. quote_for a) (tw_near store_world) a" if "length a = 32" for a
    unfolding storable_def store_world_quotes using that proof_for_bytes [OF that] by (auto simp: CLOSE_GROUP_SIZE_def)
  with assms show "list_all (\<lambda>(a, d). storable (test_env store_world p) (\<lambda>a _. quote_for a) (tw_near store_world) a) items"
    by (auto simp: list_all_iff)
qed

text \<open>A wallet that pays, and a client that has dialled the node.\<close>

definition paying :: "nat \<Rightarrow> pay_reply" where
  "paying = (\<lambda>_. Resolves (JsString (hex_0x test_crates (replicate 32 3))))"

lemma paying_sel [simp]: "paying k = Resolves (JsString (hex_0x test_crates (replicate 32 3)))"
  by (simp add: paying_def)

lemma paying_tx: "parse_tx_hash test_crates (hex_0x test_crates (replicate 32 3)) = Inr (replicate 32 3)"
  by (rule parse_tx_hash_0x [OF test_crates_hex]) simp

lemma page_pays_paying: "page_pays (test_env store_world paying)"
  using paying_tx by (auto simp: page_pays_def)

definition store_env :: "mini_map env" where
  "store_env = test_env store_world paying"

lemma store_env_sel [simp]:
  "e_crates store_env = test_crates" "e_serde store_env = test_serde" "e_se store_env = mini_se" "e_pay store_env k = paying k"
  by (simp_all add: store_env_def)

lemma store_scene:
  assumes "n < 1000" and "serves test_peer_id (test_session store_world)"
  shows "\<exists>w. client_run store_env w \<and> pay_calls w = [] \<and> in_service store_env serves (tw_near store_world) n w"
    and "honest_peers store_env serves (tw_near store_world)"
proof -
  have "n < unat MAX_SEQ" using assms(1) by (simp add: MAX_SEQ_def)
  from test_in_service [where serves = serves, OF store_world_ok assms(2) this, of paying "[]" 0 "[]"]
  show "\<exists>w. client_run store_env w \<and> pay_calls w = [] \<and> in_service store_env serves (tw_near store_world) n w"
    using client_run.connected unfolding store_env_def by blast
  show "honest_peers store_env serves (tw_near store_world)"
    unfolding store_env_def by (rule test_honest_peers [where serves = serves, OF store_world_ok assms(2)])
qed

lemma store_one_completes_witness:
  "\<exists>w w' payments. store_one store_env stored_block stored_block (replicate 20 8) (replicate 20 9) w = (Ready (Inr ()), w')
     \<and> pay_calls w' = payment_calls test_crates (replicate 20 8) (replicate 20 9) payments"
proof -
  obtain pb where pb: "serialize_single_node_proof (fmt_to_bytes msgpack_fmt)
      (quoted_of (\<lambda>_. quote_for stored_block) (take 7 (tw_near store_world stored_block))) (replicate 32 3) [] = Inr pb"
    "length pb \<le> 200000"
    using proof_for_bytes [of stored_block "replicate 32 3"] store_world_quotes [of stored_block] stored_block_hash(2)
    by (auto simp: close_quotes_def CLOSE_GROUP_SIZE_def)
  let ?sv = "upload_node test_crates test_serde (\<lambda>_. quote_for stored_block) stored_block stored_block ((=) pb)"
  have sv: "?sv test_peer_id (test_session store_world)"
    using pb(2) stored_block_hash(2) by (intro store_world_node) auto
  obtain w where w: "pay_calls w = []" "in_service store_env ?sv (tw_near store_world) 15 w"
    using store_scene(1) [where serves = ?sv, OF _ sv, of 15] by auto
  from store_one_completes [of store_env "\<lambda>_. quote_for stored_block" stored_block stored_block pb "tw_near store_world" 0 w
      "hex_0x test_crates (replicate 32 3)" "hex_0x test_crates (replicate 32 3)" "replicate 32 3" "replicate 20 8" "replicate 20 9"]
    w store_scene(2) [where serves = ?sv, OF _ sv, of 0] pb(1) paying_tx stored_block_hash(2)
  show ?thesis by auto
qed


text \<open>The upload of the file, whose three items are the chunk, the wrapper and the data map.\<close>

lemma file_items_upload:
  "upload_items store_env [7] = Inr (file_items, file_address)" "length file_items = 3"
  "list_all (\<lambda>(a, d). length a = 32 \<and> length d \<le> 1000) file_items"
  unfolding store_env_def by (rule file_upload) (simp_all add: file_items_def mini_to_vec_def Let_def del: test_crates_sel)

lemma contract_texts: "parse_eth_address test_crates (hex_0x test_crates (replicate 20 n)) = Inr (replicate 20 n)"
  by (rule parse_eth_address_0x [OF test_crates_hex]) simp

lemma upload_completes_witness:
  "\<exists>w w' splits. upload store_env [7] (hex_0x test_crates (replicate 20 8)) (hex_0x test_crates (replicate 20 9)) w
       = (Ready (Inr (hex_enc (file_address))), w')
     \<and> length splits = 3
     \<and> pay_calls w' = concat (map (payment_calls test_crates (replicate 20 8) (replicate 20 9)) splits)"
proof -
  let ?sv = "accepting store_env (\<lambda>a _. quote_for a) (tw_near store_world) file_items"
  note ok = store_world_accepting [OF file_items_upload(3), of paying, folded store_env_def]
  obtain w where w: "pay_calls w = []" "in_service store_env ?sv (tw_near store_world) (15 * length file_items + 0) w"
    using store_scene(1) [where serves = ?sv, OF _ ok(1), of 45] file_items_upload(2) by auto
  have pp: "page_pays store_env" using page_pays_paying by (simp add: store_env_def)
  have t: "parse_eth_address (e_crates store_env) (hex_0x test_crates (replicate 20 n)) = Inr (replicate 20 n)" for n
    using contract_texts by simp
  from upload_completes [OF t t file_items_upload(1) store_scene(2) [where serves = ?sv, OF _ ok(1), of 0] pp ok(2) w(2), of 8 9]
    w(1) file_items_upload(2)
  show ?thesis by (fastforce dest: list_all2_lengthD)
qed


end
