(* ===== verification/Interference.thy ===== *)
theory Interference
  imports Tasks Store Fetch
begin

text \<open>
  Reasoning about one task while the others do as they please. \<open>assures\<close> says of a task that every step it
  takes keeps a relation \<open>R\<close> between the client's states, and that a value it returns has a property,
  provided the others keep \<open>R\<close> too. The rules of the locale follow the structure of a task; \<open>page_keeps\<close> is
  the relation they are used with.
\<close>

section \<open>Rely and guarantee\<close>

text \<open>A future that has returned bytes has returned the right ones.\<close>

fun fetch_ok :: "crates \<Rightarrow> byte list \<Rightarrow> fetching \<Rightarrow> bool" where
  "fetch_ok cr a (Fetched (Inr b)) \<longleftrightarrow> blake3_hash cr b = a"
| "fetch_ok cr a f \<longleftrightarrow> True"

lemma fetch_step_ok:
  assumes "fetch_step env a f w = (f', w')" and "active f"
  shows "fetch_ok (e_crates env) a f'"
proof (cases f)
  case (Trying peers last_err)
  with assms(1) show ?thesis by (cases peers) (auto split: option.splits)
qed (use assms in \<open>auto simp: on_conn_Inr get_verified_as_Inr split: prod.splits poll.splits sum.splits if_splits\<close>)

inductive assures :: "(client \<Rightarrow> client \<Rightarrow> bool) \<Rightarrow> crates \<Rightarrow> ('a \<Rightarrow> client \<Rightarrow> bool) \<Rightarrow> 'a task \<Rightarrow> client \<Rightarrow> bool"
  for R cr P where
  Return: "(\<And>x w'. r = Inr x \<Longrightarrow> R w w' \<Longrightarrow> P x w') \<Longrightarrow> assures R cr P (Return r) w"
| Stuck: "assures R cr P Stuck w"
| Step: "(\<And>w'. R w w' \<Longrightarrow> R w' (snd (f w'))) \<Longrightarrow> (\<And>w'. R w w' \<Longrightarrow> assures R cr P (fst (f w')) (snd (f w'))) \<Longrightarrow>
     assures R cr P (Step f) w"
| Joining: "list_all2 (fetch_ok cr) as fs \<Longrightarrow>
     (\<And>x w'. R w w' \<Longrightarrow> (\<forall>i < length as. \<forall>b. x i = Inr b \<longrightarrow> blake3_hash cr b = as ! i) \<Longrightarrow> assures R cr P (k x) w') \<Longrightarrow>
     assures R cr P (Joining as fs k) w"

inductive_simps assures_Return: "assures R cr P (Return r) w"
inductive_simps assures_Step: "assures R cr P (Step f) w"
inductive_simps assures_Joining: "assures R cr P (Joining as fs k) w"

locale interference = state_relation R for R :: "client \<Rightarrow> client \<Rightarrow> bool" +
  fixes env :: "'m env"
  assumes fetching: "fetch_step env a f w = (f', w') \<Longrightarrow> R w w'"
begin

text \<open>What is assured stays so whatever the others do, and with every step of the task itself.\<close>

lemma assures_later:
  assumes "assures R (e_crates env) P t w" and "R w w'"
  shows "assures R (e_crates env) P t w'"
proof -
  note later = trans [OF assms(2)]
  show ?thesis
  proof (cases t)
    case (Return r)
    with assms(1) later show ?thesis by (simp add: assures_Return)
  next
    case (Step f)
    with assms(1) later show ?thesis by (simp add: assures_Step)
  next
    case (Joining as fs k)
    with assms(1) later show ?thesis by (simp add: assures_Joining)
  qed (simp add: assures.Stuck)
qed

lemma assures_step:
  assumes "task_step env (t, w) (t', w')" and "assures R (e_crates env) P t w"
  shows "R w w' \<and> assures R (e_crates env) P t' w'"
  using assms(1)
proof cases
  case (runs f)
  with assms(2) refl [of w] have "R w (snd (f w)) \<and> assures R (e_crates env) P (fst (f w)) (snd (f w))"
    unfolding runs(1) assures_Step by blast
  with runs show ?thesis by simp
next
  case (fetches i fs as f k)
  from fetching [OF fetches(5)] have R: "R w w'" .
  have fs: "list_all2 (fetch_ok (e_crates env)) as fs" using assms(2) fetches(1) by (simp add: assures_Joining)
  then have "list_all2 (fetch_ok (e_crates env)) as (fs[i := f])"
    using fetch_step_ok [OF fetches(5,4)] fetches(3) list_all2_update_cong [OF fs, of "as ! i" f i] by simp
  with assms(2) R trans fetches(1,2) show ?thesis by (auto simp: assures_Joining)
next
  case (joins xs as k)
  then have "list_all2 (fetch_ok (e_crates env)) as (map Fetched xs)"
    and k: "\<And>x w'. R w w' \<Longrightarrow> (\<forall>i < length as. \<forall>b. x i = Inr b \<longrightarrow> blake3_hash (e_crates env) b = as ! i) \<Longrightarrow> assures R (e_crates env) P (k x) w'"
    using assms(2) by (auto simp: assures_Joining)
  then have "\<forall>i < length as. \<forall>b. xs ! i = Inr b \<longrightarrow> blake3_hash (e_crates env) b = as ! i"
    using joins(4) by (fastforce simp: list_all2_conv_all_nth)
  with k [OF refl] joins(2,3) refl show ?thesis by simp
qed

text \<open>The rules.\<close>

lemma assures_weaken:
  assumes "assures R (e_crates env) P t w" and "\<And>x v. P x v \<Longrightarrow> R w v \<Longrightarrow> Q x v"
  shows "assures R (e_crates env) Q t w"
  using assms
proof (induction rule: assures.induct)
  case (Step w f)
  have "assures R (e_crates env) Q (fst (f w')) (snd (f w'))" if "R w w'" for w'
    using Step(3) [OF that] Step(4) trans [OF trans [OF that Step(1) [OF that]]] by blast
  with Step(1) show ?case by (simp add: assures_Step)
next
  case (Joining as fs w k)
  have "assures R (e_crates env) Q (k x) w'"
    if "R w w'" "\<forall>i < length as. \<forall>b. x i = Inr b \<longrightarrow> blake3_hash (e_crates env) b = as ! i" for x w'
    using Joining(3) [OF that] Joining(4) trans [OF that(1)] by blast
  with Joining(1) show ?case by (auto intro!: assures.Joining)
qed (auto intro: assures.intros)

lemma assures_then:
  assumes "assures R (e_crates env) Q t w"
    and "\<And>x w'. R w w' \<Longrightarrow> Q x w' \<Longrightarrow> assures R (e_crates env) P (k (Inr x)) w'" and "\<And>e w'. R w w' \<Longrightarrow> assures R (e_crates env) P (k (Inl e)) w'"
  shows "assures R (e_crates env) P (task_then t k) w"
  using assms
proof (induction rule: assures.induct)
  case (Return r w)
  then show ?case using refl by (cases r) auto
next
  case (Stuck w)
  show ?case by (simp add: assures.Stuck)
next
  case (Step w f)
  have "assures R (e_crates env) P (task_then (fst (f w')) k) (snd (f w'))" if "R w w'" for w'
    using Step(3) [OF that] Step(4,5) trans [OF trans [OF that Step(1) [OF that]]] by blast
  with Step(1) show ?case by (simp add: assures_Step split_beta map_prod_def)
next
  case (Joining as fs w g)
  have "assures R (e_crates env) P (task_then (g x) k) w'"
    if "R w w'" "\<forall>i < length as. \<forall>b. x i = Inr b \<longrightarrow> blake3_hash (e_crates env) b = as ! i" for x w'
    using Joining(3) [OF that] Joining(4,5) trans [OF that(1)] by blast
  with Joining(1) show ?case by (auto intro!: assures.Joining)
qed

lemma assures_bind:
  assumes "assures R (e_crates env) Q t w" and "\<And>x w'. R w w' \<Longrightarrow> Q x w' \<Longrightarrow> assures R (e_crates env) P (k x) w'"
  shows "assures R (e_crates env) P (task_bind t k) w"
  unfolding task_bind_def by (rule assures_then [OF assms(1)]) (auto simp: assms(2) assures_Return)

lemma assures_map:
  assumes "assures R (e_crates env) (\<lambda>x. P (h x)) t w" and "\<And>x v v'. P (h x) v \<Longrightarrow> R v v' \<Longrightarrow> P (h x) v'"
  shows "assures R (e_crates env) P (task_map h t) w"
  unfolding task_map_def by (rule assures_bind [OF assms(1)]) (auto simp: assures_Return assms(2))

lemma assures_bind_Return:
  assumes "\<And>x. r = Inr x \<Longrightarrow> assures R (e_crates env) P (k x) w"
  shows "assures R (e_crates env) P (task_bind (Return r) k) w"
  using assms by (cases r) (auto simp: task_bind_def assures_Return)

lemma assures_act:
  assumes "\<And>w' r w''. R w w' \<Longrightarrow> f w' = (r, w'') \<Longrightarrow> R w' w''"
    and "\<And>w' x w'' v. R w w' \<Longrightarrow> f w' = (Ready (Inr x), w'') \<Longrightarrow> R w'' v \<Longrightarrow> P x v"
  shows "assures R (e_crates env) P (act f) w"
  unfolding act_def
proof (rule assures.Step)
  fix w' assume w': "R w w'"
  obtain r w'' where f: "f w' = (r, w'')" by force
  with assms(1) [OF w' f] show "R w' (snd (case f w' of (Pending, w1) \<Rightarrow> (Stuck, w1) | (Ready r, w1) \<Rightarrow> (Return r, w1)))"
    by (simp split: poll.split)
  from assms(2) [OF w'] f
  show "assures R (e_crates env) P (fst (case f w' of (Pending, w1) \<Rightarrow> (Stuck, w1) | (Ready r, w1) \<Rightarrow> (Return r, w1)))
     (snd (case f w' of (Pending, w1) \<Rightarrow> (Stuck, w1) | (Ready r, w1) \<Rightarrow> (Return r, w1)))"
    by (auto simp: assures_Return assures.Stuck split: poll.split)
qed

end

end
