(* ===== verification/Page.thy ===== *)
theory Page
  imports Interference
begin

text \<open>
  Every call of a page whose calls overlap at will: what each of them still promises when it returns, and
  what the calls together never do to the client and to the page's wallet. Nothing is assumed of the network.
\<close>

section \<open>What all calls keep\<close>

text \<open>Seven quotes that may be paid for an address, and their split.\<close>

definition paid_quotes :: "'m env \<Rightarrow> byte list \<Rightarrow> QuotedPeer list \<Rightarrow> DataPayment list \<Rightarrow> bool" where
  "paid_quotes env address quoted payments \<longleftrightarrow> length quoted = CLOSE_GROUP_SIZE
     \<and> list_all (good_peer (e_crates env) address) quoted \<and> payment_split (e_crates env) (map qp_quote quoted) = Inr payments"

text \<open>An address the page has to pay for, with the contracts it named: an item of one of the uploads it called.\<close>

definition due :: "'m env \<Rightarrow> page_call set \<Rightarrow> byte list \<Rightarrow> byte list \<Rightarrow> byte list \<Rightarrow> bool" where
  "due env C token vault address \<longleftrightarrow> (\<exists>data token_hex vault_hex items map_address.
     Upload data token_hex vault_hex \<in> C \<and> parse_eth_address (e_crates env) token_hex = Inr token
     \<and> parse_eth_address (e_crates env) vault_hex = Inr vault \<and> upload_items env data = Inr (items, map_address)
     \<and> address \<in> fst ` set items)"

text \<open>
  The log of the calls of \<open>pay\<close>: every entry is the approval for quotes of an address that is due, or their
  payment after an entry that is the approval. The calls of the page are those of \<open>C\<close>.
\<close>

definition payment_ok :: "'m env \<Rightarrow> page_call set \<Rightarrow> (string \<times> string) list \<Rightarrow> string \<times> string \<Rightarrow> bool" where
  "payment_ok env C before call \<longleftrightarrow> (\<exists>token vault address quoted payments. due env C token vault address
     \<and> paid_quotes env address quoted payments
     \<and> (call = payment_calls (e_crates env) token vault payments ! 0
        \<or> call = payment_calls (e_crates env) token vault payments ! 1
          \<and> payment_calls (e_crates env) token vault payments ! 0 \<in> set before))"

definition payments_ok :: "'m env \<Rightarrow> page_call set \<Rightarrow> (string \<times> string) list \<Rightarrow> bool" where
  "payments_ok env C log \<longleftrightarrow> (\<forall>j < length log. payment_ok env C (take j log) (log ! j))"

lemma payments_ok_snoc: "payments_ok env C log \<Longrightarrow> payment_ok env C log call \<Longrightarrow> payments_ok env C (log @ [call])"
  by (auto simp: payments_ok_def nth_append less_Suc_eq)

definition page_keeps :: "'m env \<Rightarrow> page_call set \<Rightarrow> client \<Rightarrow> client \<Rightarrow> bool" where
  "page_keeps env C w w' \<longleftrightarrow> client_step env w w' \<and> (\<exists>new. pay_calls w' = pay_calls w @ new)
     \<and> (payments_ok env C (pay_calls w) \<longrightarrow> payments_ok env C (pay_calls w'))"

lemma page_keepsI: "client_step env w w' \<Longrightarrow> pay_calls w' = pay_calls w \<Longrightarrow> page_keeps env C w w'"
  by (simp add: page_keeps_def)

lemma page_keeps_client: "page_keeps env C w w' \<Longrightarrow> client_step env w w'"
  by (simp add: page_keeps_def)

lemma page_keeps_ok: "page_keeps env C w w' \<Longrightarrow> client_ok env w \<Longrightarrow> client_ok env w'"
  by (simp add: page_keeps_def client_step_def)

lemma page_keeps_log: "page_keeps env C w w' \<Longrightarrow> set (pay_calls w) \<subseteq> set (pay_calls w')"
  by (auto simp: page_keeps_def)

lemma fetch_step_unpaid:
  assumes "fetch_step env a f w = (f', w')"
  shows "pay_calls w' = pay_calls w"
proof (cases f)
  case (Trying peers last_err)
  with assms show ?thesis by (cases peers) (auto split: option.splits)
qed (use assms in \<open>auto simp: on_bootstrap_def on_conn_def split: prod.splits poll.splits sum.splits if_splits\<close>)

interpretation page: interference "page_keeps env C" env for env C
proof
  show "page_keeps env C w w" for w by (rule page_keepsI [OF client.refl refl])
  show "page_keeps env C u w" if "page_keeps env C u v" "page_keeps env C v w" for u v w
    using that client.trans [of env u v w] by (auto simp: page_keeps_def)
  show "page_keeps env C w w'" if "fetch_step env a f w = (f', w')" for a f w f' w'
    using fetch_step_client [OF that] fetch_step_unpaid [OF that] by (rule page_keepsI)
qed

abbreviation page_assures :: "'m env \<Rightarrow> page_call set \<Rightarrow> ('a \<Rightarrow> client \<Rightarrow> bool) \<Rightarrow> 'a task \<Rightarrow> client \<Rightarrow> bool" where
  "page_assures env C \<equiv> assures (page_keeps env C) (e_crates env)"

lemma page_keeps_conn:
  assumes "steps conn_step f" and "on_conn h f w = (r, w')"
  shows "page_keeps env C w w'"
proof (rule page_keepsI)
  show "client_step env w w'" by (rule stepsD [OF client.steps_on_conn [OF assms(1)] assms(2)])
  show "pay_calls w' = pay_calls w" using assms(2) by (auto simp: on_conn_def split: prod.splits)
qed

text \<open>The connection a step talks to is one of an authenticated session.\<close>

lemma on_conn_authenticated:
  assumes "on_conn h f w = (r, w')" and "client_ok env w" and "h < length (conns w)"
  shows "\<exists>c c'. authenticated (e_crates env) c \<and> peer_id c = peer_id (conns w ! h) \<and> f c = (r, c')"
  using assms by (auto simp: on_conn_def client_ok_def split: prod.splits)

definition own_handle :: "byte list \<Rightarrow> nat \<Rightarrow> client \<Rightarrow> bool" where
  "own_handle pid h w \<longleftrightarrow> h < length (conns w) \<and> peer_id (conns w ! h) = pid"

lemma own_handle_later: "page_keeps env C w w' \<Longrightarrow> own_handle pid h w \<Longrightarrow> own_handle pid h w'"
  unfolding own_handle_def page_keeps_def client_step_def by fastforce

lemma own_handle_bootstrap: "client_ok env w \<Longrightarrow> own_handle (peer_id (conns w ! bootstrap w)) (bootstrap w) w"
  by (simp add: own_handle_def client_ok_def)

lemma assured_request:
  assumes "client_ok env w" and "own_handle pid h w" and "steps conn_step f"
    and "\<And>c c' x v. authenticated (e_crates env) c \<Longrightarrow> peer_id c = pid \<Longrightarrow> f c = (Ready (Inr x), c') \<Longrightarrow> P x v"
  shows "page_assures env C P (act (on_conn h f)) w"
proof (rule page.assures_act)
  fix w' r w'' assume "on_conn h f w' = (r, w'')"
  with assms(3) show "page_keeps env C w' w''" by (rule page_keeps_conn)
next
  fix w' x w'' v assume k: "page_keeps env C w w'" and c: "on_conn h f w' = (Ready (Inr x), w'')"
  from own_handle_later [OF k assms(2)] on_conn_authenticated [OF c page_keeps_ok [OF k assms(1)]] assms(4)
  show "P x v" by (auto simp: own_handle_def)
qed

lemma assured_numbered:
  assumes "client_ok env w" and "\<And>i. steps conn_step (f i)"
    and "\<And>i c c' x v. authenticated (e_crates env) c \<Longrightarrow> peer_id c = peer_id (conns w ! bootstrap w) \<Longrightarrow>
       f i c = (Ready (Inr x), c') \<Longrightarrow> P x v"
  shows "page_assures env C P (numbered bootstrap f) w"
  unfolding numbered_def
proof (rule assures.Step)
  fix w' assume k: "page_keeps env C w w'"
  show "page_keeps env C w' (snd (act (on_conn (bootstrap w') (f (request_number (bootstrap w') w'))), w'))"
    by (simp add: page.refl)
  have "bootstrap w' = bootstrap w" using k by (simp add: page_keeps_def client_step_def)
  moreover have "own_handle (peer_id (conns w ! bootstrap w)) (bootstrap w) w'"
    using own_handle_later [OF k own_handle_bootstrap [OF assms(1)]] .
  ultimately show "page_assures env C P (fst (act (on_conn (bootstrap w') (f (request_number (bootstrap w') w'))), w'))
      (snd (act (on_conn (bootstrap w') (f (request_number (bootstrap w') w'))), w'))"
    using assured_request [OF page_keeps_ok [OF k assms(1)] _ assms(2), of _ "bootstrap w'" "request_number (bootstrap w') w'" P]
      assms(3) by simp
qed

section \<open>Getting\<close>

lemma assured_get_direct:
  "page_assures env C (\<lambda>b v. blake3_hash (e_crates env) b = a) (get_direct_task a) w"
  unfolding get_direct_task_def by (rule assures.Joining) (auto simp: assures_Return)

lemma assured_modify:
  assumes "\<And>w. page_keeps env C w (f w)"
  shows "page_assures env C (\<lambda>_ _. True) (act (modify f)) w"
  using assms by (intro page.assures_act) (auto simp: modify_def ok_def)

lemma page_keeps_counter: "page_keeps env C w (w\<lparr>chunks_fetched := n\<rparr>)"
  by (rule page_keepsI) simp_all

lemma assured_download_rounds:
  "retrieving (e_crates env) (e_se env) a r \<Longrightarrow>
     page_assures env C (\<lambda>r' v. retrieving (e_crates env) (e_se env) a r') (download_rounds_task env r) w"
proof (induction env r arbitrary: w rule: download_rounds_task.induct)
  case (1 env r)
  let ?addrs = "required_addresses (e_se env) r" and ?P = "\<lambda>r' v. retrieving (e_crates env) (e_se env) a r'"
  show ?case
  proof (cases "is_complete (e_se env) r")
    case True
    with 1(2) show ?thesis by (simp add: download_rounds_task.simps [of env r] assures_Return)
  next
    case False
    have "page_assures env C ?P (Step (\<lambda>w.
           (case supply_fetched env (zip ?addrs (map x [0..<length ?addrs])) r w of
              (Pending, w1) \<Rightarrow> (Stuck, w1)
            | (Ready (Inl e), w1) \<Rightarrow> (Return (Inl e), w1)
            | (Ready (Inr r1), w1) \<Rightarrow>
                (case advance (e_crates env) (e_se env) r1 of
                   Inl e \<Rightarrow> (Return (Inl e), w1)
                 | Inr r2 \<Rightarrow> (download_rounds_task env r2, w1))))) w" (is "page_assures env C ?P (Step ?f) w") for x w
    proof (rule assures.Step)
      fix w
      obtain y w1 where s: "supply_fetched env (zip ?addrs (map x [0..<length ?addrs])) r w = (y, w1)" by force
      have "client_step env w w1" "pay_calls w1 = pay_calls w"
        using client.steps_supply_fetched [OF s] unpaid.steps_supply_fetched [OF s] by (simp_all add: unpaid_def)
      with s show "page_keeps env C w (snd (?f w))"
        by (auto intro: page_keepsI split: poll.split sum.split)
      show "page_assures env C ?P (fst (?f w)) (snd (?f w))"
      proof (cases "\<exists>r1 r2. y = Ready (Inr r1) \<and> advance (e_crates env) (e_se env) r1 = Inr r2")
        case True
        then obtain r1 r2 where r: "y = Ready (Inr r1)" "advance (e_crates env) (e_se env) r1 = Inr r2" by blast
        with s have "retrieving (e_crates env) (e_se env) a r2"
          using retrieving.advanced [OF supply_fetched_retrieving [OF _ 1(2)]] by blast
        with 1(1) [OF False refl s [symmetric] r(1) refl r(2)] s r show ?thesis by simp
      next
        case no: False
        with s show ?thesis by (auto simp: assures_Return assures.Stuck split: poll.split sum.split)
      qed
    qed
    with False show ?thesis
      by (auto simp: download_rounds_task.simps [of env r] Let_def list_all2_conv_all_nth intro!: assures.Joining)
  qed
qed

definition finished :: "'m env \<Rightarrow> string \<Rightarrow> byte list \<Rightarrow> bool" where
  "finished env text out \<longleftrightarrow> (\<exists>a r. parse_address (e_crates env) text = Inr a
     \<and> retrieving (e_crates env) (e_se env) a r \<and> finish (e_crates env) (e_se env) r = Inr out)"

lemma finished_denotes:
  assumes "verify_correct (e_crates env) (e_se env)" and "root_correct (e_se env)" and "finished env text out"
  shows "\<exists>a. parse_address (e_crates env) text = Inr a \<and> denotes (e_crates env) (e_se env) a out"
  using assms(3) finish_denotes [OF _ assms(1,2)] unfolding finished_def by blast

lemma assured_download: "page_assures env C (\<lambda>out v. finished env text out) (download_task env text) w"
  unfolding download_task_def
  by (rule page.assures_bind_Return, rule page.assures_bind [OF assured_modify [OF page_keeps_counter]],
      rule page.assures_bind [OF assured_get_direct], rule page.assures_bind [OF assured_modify [OF page_keeps_counter]],
      rule page.assures_bind_Return, rule page.assures_bind [OF assured_download_rounds [OF retrieving.begins]])
    (auto simp: assures_Return finished_def)

lemma assured_fetch_chunk:
  "page_assures env C (\<lambda>b v. parse_address (e_crates env) text = Inr (blake3_hash (e_crates env) b)) (fetch_chunk_task env text) w"
  unfolding fetch_chunk_task_def
proof (rule page.assures_bind_Return)
  fix a assume "parse_address (e_crates env) text = Inr a"
  then have "(\<lambda>b (v :: client). parse_address (e_crates env) text = Inr (blake3_hash (e_crates env) b))
      = (\<lambda>b v. blake3_hash (e_crates env) b = a)" by auto
  with assured_get_direct show "page_assures env C (\<lambda>b v. parse_address (e_crates env) text = Inr (blake3_hash (e_crates env) b))
      (get_direct_task a) w" by simp
qed

section \<open>Diagnostics\<close>

text \<open>What the other two calls may return: the length of what the target sent, and what the bootstrap node named.\<close>

definition relayed_length :: "'m env \<Rightarrow> string \<Rightarrow> string \<Rightarrow> nat \<Rightarrow> bool" where
  "relayed_length env target_hex address_hex n \<longleftrightarrow> (\<exists>bytes c c'. n = length bytes
     \<and> parse_address (e_crates env) target_hex = Inr (peer_id c)
     \<and> parse_address (e_crates env) address_hex = Inr (blake3_hash (e_crates env) bytes) \<and> authenticated (e_crates env) c
     \<and> get_verified (e_crates env) (e_serde env) (blake3_hash (e_crates env) bytes) c = (Ready (Inr bytes), c'))"

definition named_peers :: "'m env \<Rightarrow> string \<Rightarrow> string \<Rightarrow> bool" where
  "named_peers env address_hex text \<longleftrightarrow> (\<exists>address peers i c c'. parse_address (e_crates env) address_hex = Inr address
     \<and> text = peers_json (e_crates env) peers \<and> authenticated (e_crates env) c
     \<and> closest_peers_as (e_crates env) (e_serde env) i address c = (Ready (Inr peers), c'))"

lemma steps_relay_and_get: "steps (client_step env) (relay_and_get env d i target stun a)"
  "steps unpaid (relay_and_get env d i target stun a)"
proof -
  have r: "steps conn_step (conn_connect_relayed cr (signal_relay_as cr sc i target) pc d stun target)" for cr sc pc
    by (rule steps_relayed) simp
  show "steps (client_step env) (relay_and_get env d i target stun a)"
    unfolding relay_and_get_def
    by (intro client.steps_await client.steps_on_bootstrap r)
      (auto simp: steps_def ok_def fail_def client.refl split: prod.splits poll.splits sum.splits)
  show "steps unpaid (relay_and_get env d i target stun a)"
    unfolding relay_and_get_def
    by (intro unpaid.steps_await unpaid.steps_on_bootstrap r)
      (auto simp: steps_def ok_def fail_def unpaid.refl split: prod.splits poll.splits sum.splits)
qed

lemma relay_and_get_Inr:
  assumes "relay_and_get env d i target stun a w = (Ready (Inr n), w')"
  shows "\<exists>bytes c c'. n = length bytes \<and> blake3_hash (e_crates env) bytes = a \<and> authenticated (e_crates env) c \<and> peer_id c = target
     \<and> get_verified (e_crates env) (e_serde env) a c = (Ready (Inr bytes), c')"
proof -
  obtain c w1 where b: "on_bootstrap (conn_connect_relayed (e_crates env) (signal_relay_as (e_crates env) (e_serde env) i target)
              (e_rtc env d) d stun target) w = (Ready (Inr c), w1)"
    and g: "(case get_verified (e_crates env) (e_serde env) a c of
             (Pending, _) \<Rightarrow> (Pending, w1) | (Ready (Inl e), _) \<Rightarrow> fail e w1
           | (Ready (Inr bytes), _) \<Rightarrow> ok (length bytes) w1) = (Ready (Inr n), w')"
    using assms unfolding relay_and_get_def res_iff by blast
  obtain bytes c' where v: "get_verified (e_crates env) (e_serde env) a c = (Ready (Inr bytes), c')" "n = length bytes"
    using g by (auto simp: ok_def fail_def split: prod.splits poll.splits sum.splits)
  have "blake3_hash (e_crates env) bytes = a" using v(1) by (simp add: get_verified_Inr)
  moreover obtain relay relay' where "conn_connect_relayed (e_crates env) (signal_relay_as (e_crates env) (e_serde env) i target)
              (e_rtc env d) d stun target relay = (Ready (Inr c), relay')"
    using b by (auto simp: on_bootstrap_def on_conn_Inr)
  from conn_connect_relayed_Inr [OF this] have "authenticated (e_crates env) c" "peer_id c = target" by simp_all
  ultimately show ?thesis using v by blast
qed

lemma page_keeps_dials: "page_keeps env C w (w\<lparr>dials := n\<rparr>)"
  by (rule page_keepsI) simp_all

lemma assured_relayed_fetch:
  "page_assures env C (\<lambda>n v. relayed_length env target_hex address_hex n) (relayed_fetch_task env target_hex stun address_hex) w"
proof -
  have "page_assures env C (\<lambda>n v. relayed_length env target_hex address_hex n) (act (relay_and_get env d i target stun address)) w"
    if p: "parse_address (e_crates env) target_hex = Inr target" "parse_address (e_crates env) address_hex = Inr address"
    for target address d i w
  proof (rule page.assures_act)
    fix w' r w'' assume a: "relay_and_get env d i target stun address w' = (r, w'')"
    show "page_keeps env C w' w''"
      using stepsD [OF steps_relay_and_get(1) a] stepsD [OF steps_relay_and_get(2) a]
      by (intro page_keepsI) (simp_all add: unpaid_def)
  next
    fix w' x w'' assume "relay_and_get env d i target stun address w' = (Ready (Inr x), w'')"
    from relay_and_get_Inr [OF this] p show "relayed_length env target_hex address_hex x"
      unfolding relayed_length_def by metis
  qed
  then show ?thesis
    unfolding relayed_fetch_task_def
    by (intro page.assures_bind_Return) (auto intro!: assures.Step simp: page.refl page_keeps_dials)
qed

lemma assured_closest_peers_json:
  assumes "client_ok env w"
  shows "page_assures env C (\<lambda>text v. named_peers env address_hex text) (closest_peers_json_task env address_hex) w"
  unfolding closest_peers_json_task_def
  by (rule page.assures_bind_Return, rule page.assures_map, rule assured_numbered [OF assms])
    (auto simp: named_peers_def)

section \<open>Quotes\<close>

lemma dial_outcome:
  assumes "dial env d peer w = (r, w')"
  shows "page_keeps env C w w' \<and> (\<forall>h. r = Ready (Inr h) \<longrightarrow> own_handle (pci_peer_id peer) h w')"
proof (cases "\<exists>c. conn_connect (e_crates env) (e_rtc env d) d (pci_ip peer) (pci_port peer)
             (hex_encode (e_crates env) (pci_cert_hash peer)) (Some (pci_peer_id peer)) = Ready (Inr c)")
  case True
  then obtain c where c: "conn_connect (e_crates env) (e_rtc env d) d (pci_ip peer) (pci_port peer)
             (hex_encode (e_crates env) (pci_cert_hash peer)) (Some (pci_peer_id peer)) = Ready (Inr c)" by blast
  with assms have w': "r = Ready (Inr (length (conns w)))"
    "w' = w\<lparr>conns := conns w @ [c], pool := AList.update (pci_peer_id peer) (length (conns w)) (pool w)\<rparr>"
    by (simp_all add: dial_def ok_def)
  have "page_keeps env C w w'"
    unfolding w'(2) by (intro page_keepsI client_step_dialled [OF c]) simp
  with conn_connect_peer [OF c] w' show ?thesis by (simp add: own_handle_def)
next
  case False
  with assms have "w' = w \<and> (\<forall>h. r \<noteq> Ready (Inr h))"
    by (auto simp: dial_def fail_def split: poll.splits sum.splits)
  then show ?thesis by (simp add: page.refl)
qed

lemma assured_connection:
  assumes "client_ok env w"
  shows "page_assures env C (\<lambda>h v. own_handle (pci_peer_id peer) h v) (connection_task env peer) w"
  unfolding connection_task_def
proof (rule assures.Step)
  let ?f = "\<lambda>w. case map_of (pool w) (pci_peer_id peer) of Some h \<Rightarrow> (Return (Inr h), w)
     | None \<Rightarrow> (act (dial env (dials w) peer), w\<lparr>dials := Suc (dials w)\<rparr>)"
  fix w' assume k: "page_keeps env C w w'"
  show "page_keeps env C w' (snd (?f w'))" by (simp add: page.refl page_keeps_dials split: option.split)
  have dial: "page_assures env C (\<lambda>h v. own_handle (pci_peer_id peer) h v) (act (dial env d peer)) v" for d v
    by (rule page.assures_act) (blast dest: dial_outcome intro: own_handle_later)+
  have "own_handle (pci_peer_id peer) h w'" if "map_of (pool w') (pci_peer_id peer) = Some h" for h
    using that page_keeps_ok [OF k assms] by (simp add: client_ok_def own_handle_def)
  with dial show "page_assures env C (\<lambda>h v. own_handle (pci_peer_id peer) h v) (fst (?f w')) (snd (?f w'))"
    by (auto simp: assures_Return intro: own_handle_later split: option.split)
qed

text \<open>A peer that says it stores the chunk, with a quote of its own for it, on an authenticated session.\<close>

definition vouches :: "'m env \<Rightarrow> byte list \<Rightarrow> nat \<Rightarrow> byte list \<Rightarrow> bool" where
  "vouches env address n pid \<longleftrightarrow> (\<exists>c c' bytes q cm. authenticated (e_crates env) c \<and> peer_id c = pid
     \<and> request_quote (e_crates env) (e_serde env) address n c = (Ready (Inr (bytes, True, cm)), c')
     \<and> parse_quote (rmp_from_slice (e_serde env)) bytes = Inr q \<and> good_quote (e_crates env) address pid q)"

definition quote_ok :: "'m env \<Rightarrow> byte list \<Rightarrow> nat \<Rightarrow> byte list \<Rightarrow> Quote \<times> bool \<times> byte list option \<Rightarrow> bool" where
  "quote_ok env address n pid x \<longleftrightarrow> (case x of (q, stored, cm) \<Rightarrow>
     good_quote (e_crates env) address pid q \<and> (stored \<longrightarrow> vouches env address n pid))"

lemma assured_try_quote:
  assumes "client_ok env w"
  shows "page_assures env C (\<lambda>x v. quote_ok env address n (pci_peer_id peer) x) (try_quote_task env peer address n) w"
  unfolding try_quote_task_def
proof (rule page.assures_bind [OF assured_connection [OF assms]])
  let ?P = "\<lambda>x (v :: client). quote_ok env address n (pci_peer_id peer) x"
  let ?request = "request_quote (e_crates env) (e_serde env) address n"
  let ?sent = "\<lambda>(bytes, stored, cm) (v :: client). \<exists>c c'. authenticated (e_crates env) c \<and> peer_id c = pci_peer_id peer
     \<and> ?request c = (Ready (Inr (bytes, stored, cm)), c')"
  fix h w1 assume k: "page_keeps env C w w1" and h: "own_handle (pci_peer_id peer) h w1"
  have "page_assures env C ?sent (act (on_conn h ?request)) w1"
    by (rule assured_request [OF page_keeps_ok [OF k assms] h]) auto
  then show "page_assures env C ?P (task_bind (act (on_conn h ?request)) (\<lambda>(quote_bytes, already_stored, commitment).
     task_bind (Return (map_err (\<lambda>e. ''quote parse: '' @ display_payment_error e)
              (parse_quote (rmp_from_slice (e_serde env)) quote_bytes))) (\<lambda>quote.
       if content quote \<noteq> address then Return (Inl ''quote is for a different address'')
       else if blake3_hash (e_crates env) (pub_key quote) \<noteq> pci_peer_id peer
       then Return (Inl ''quote public key does not match the peer id'')
       else if \<not> verify_quote (e_crates env) quote then Return (Inl ''quote signature verification failed'')
       else Return (Inr (quote, already_stored, commitment))))) w1"
  proof (rule page.assures_bind, clarify)
    fix w2 :: client and bytes stored cm c c'
    assume sent: "authenticated (e_crates env) c" "peer_id c = pci_peer_id peer" "?request c = (Ready (Inr (bytes, stored, cm)), c')"
    then have "quote_ok env address n (pci_peer_id peer) (q, stored, cm)"
      if "parse_quote (rmp_from_slice (e_serde env)) bytes = Inr q" "content q = address"
        "blake3_hash (e_crates env) (pub_key q) = pci_peer_id peer" "verify_quote (e_crates env) q" for q
      using that unfolding quote_ok_def vouches_def good_quote_def by fastforce
    then show "page_assures env C ?P (task_bind (Return (map_err (\<lambda>e. ''quote parse: '' @ display_payment_error e)
              (parse_quote (rmp_from_slice (e_serde env)) bytes))) (\<lambda>quote.
       if content quote \<noteq> address then Return (Inl ''quote is for a different address'')
       else if blake3_hash (e_crates env) (pub_key quote) \<noteq> pci_peer_id peer
       then Return (Inl ''quote public key does not match the peer id'')
       else if \<not> verify_quote (e_crates env) quote then Return (Inl ''quote signature verification failed'')
       else Return (Inr (quote, stored, cm)))) w2"
      by (intro page.assures_bind_Return) (auto simp: assures_Return res_iff)
  qed
qed

lemma page_keeps_drop: "page_keeps env C w (if b then w else w\<lparr>pool := AList.delete pid (pool w)\<rparr>)"
  by (auto intro: page_keepsI client.refl)

lemma assured_quote_attempts:
  "client_ok env w \<Longrightarrow>
     page_assures env C (\<lambda>x v. quote_ok env address n (pci_peer_id peer) x) (quote_attempts_task env peer address n k last_err) w"
proof (induction k arbitrary: last_err w)
  case 0
  show ?case by (simp add: assures_Return)
next
  case (Suc k)
  let ?P = "\<lambda>x (v :: client). quote_ok env address n (pci_peer_id peer) x"
  let ?retry = "\<lambda>e w. (quote_attempts_task env peer address n k e,
      if k = 0 then w else w\<lparr>pool := AList.delete (pci_peer_id peer) (pool w)\<rparr>)"
  have "page_assures env C ?P (Step (?retry e)) w1" if "page_keeps env C w w1" for e w1
  proof (rule assures.Step)
    fix w2 assume "page_keeps env C w1 w2"
    show "page_keeps env C w2 (snd (?retry e w2))" by (simp only: snd_conv page_keeps_drop)
    have "client_ok env (snd (?retry e w2))"
      using page_keeps_ok [OF page_keeps_drop page_keeps_ok [OF \<open>page_keeps env C w1 w2\<close> page_keeps_ok [OF that Suc.prems]]]
      by simp
    from Suc.IH [OF this] show "page_assures env C ?P (fst (?retry e w2)) (snd (?retry e w2))" by simp
  qed
  then show ?case
    unfolding quote_attempts_task.simps
    by (intro page.assures_then [OF assured_try_quote [OF Suc.prems]]) (auto simp: assures_Return)
qed

end
