(* ===== verification/Wallet.thy ===== *)
theory Wallet
  imports Page
begin

text \<open>
  Uploads of a page whose calls overlap: what is paid for, in which order, and what a returned address stands
  for. And then all calls together: the invariant of every reachable page.
\<close>

section \<open>Quotes of a close group\<close>

definition own_handles_of :: "QuotedPeer list \<Rightarrow> client \<Rightarrow> bool" where
  "own_handles_of qs w \<longleftrightarrow> list_all (\<lambda>q. own_handle (qp_peer_id q) (qp_conn q) w) qs"

lemma own_handles_later: "page_keeps env C w w' \<Longrightarrow> own_handles_of qs w \<Longrightarrow> own_handles_of qs w'"
  by (auto simp: own_handles_of_def list_all_iff own_handle_later)

text \<open>What the quote phase finds: a majority that vouches for the chunk, or a good quote from every peer.\<close>

definition found_ok :: "'m env \<Rightarrow> byte list \<Rightarrow> nat \<Rightarrow> nat \<Rightarrow> QuotedPeer list option \<Rightarrow> client \<Rightarrow> bool" where
  "found_ok env address n len found w \<longleftrightarrow> (case found of
     None \<Rightarrow> \<exists>pids. CLOSE_GROUP_MAJORITY \<le> length pids \<and> list_all (vouches env address n) pids
   | Some qs \<Rightarrow> length qs = len \<and> list_all (good_peer (e_crates env) address) qs \<and> own_handles_of qs w)"

lemma found_ok_later: "page_keeps env C w w' \<Longrightarrow> found_ok env address n len found w \<Longrightarrow> found_ok env address n len found w'"
  by (auto simp: found_ok_def own_handles_later split: option.splits)

lemma assured_collect_quotes:
  assumes "client_ok env w" and "list_all (good_peer (e_crates env) address) quoted" and "own_handles_of quoted w"
    and "list_all (vouches env address n) pids" and "length pids = m"
  shows "page_assures env C (found_ok env address n (length quoted + length peers))
     (collect_quotes_task env address n peers quoted m) w"
  using assms
proof (induction peers arbitrary: quoted m pids w)
  case Nil
  then show ?case by (auto simp: assures_Return found_ok_def intro: own_handles_later)
next
  case (Cons peer peers)
  let ?P = "found_ok env address n (length quoted + length (peer # peers))"
  show ?case
    unfolding collect_quotes_task.simps
  proof (rule page.assures_then [OF assured_quote_attempts [OF Cons.prems(1)]], goal_cases)
    case (1 x w1)
    obtain q stored cm where x: "x = (q, stored, cm)" by (cases x)
    with 1(2) have q: "good_quote (e_crates env) address (pci_peer_id peer) q"
      and v: "stored \<Longrightarrow> vouches env address n (pci_peer_id peer)" by (simp_all add: quote_ok_def)
    note ok1 = page_keeps_ok [OF 1(1) Cons.prems(1)]
    let ?pids = "if stored then pci_peer_id peer # pids else pids"
    have pids: "list_all (vouches env address n) ?pids" "length ?pids = m + (if stored then 1 else 0)"
      using v Cons.prems(4,5) by auto
    let ?q = "\<lambda>h. \<lparr>qp_peer_id = pci_peer_id peer, qp_conn = h, qp_quote = q, qp_commitment = cm\<rparr>"
    have rest: "page_assures env C ?P (collect_quotes_task env address n peers (quoted @ [?q h]) (m + (if stored then 1 else 0))) w2"
      if "page_keeps env C w1 w2" "own_handle (pci_peer_id peer) h w2" for h w2
    proof -
      have good: "list_all (good_peer (e_crates env) address) (quoted @ [?q h])"
        using Cons.prems(2) q by (simp add: good_peer_def [of "e_crates env" address "?q h"])
      have own: "own_handles_of (quoted @ [?q h]) w2"
        using own_handles_later [OF page.trans [OF 1(1) that(1)] Cons.prems(3)] that(2) by (simp add: own_handles_of_def)
      have len: "length (quoted @ [?q h]) + length peers = length quoted + length (peer # peers)" by simp
      show ?thesis using Cons.IH [OF page_keeps_ok [OF that(1) ok1] good own pids] unfolding len .
    qed
    show ?case
    proof (cases "stored \<and> m + 1 \<ge> CLOSE_GROUP_MAJORITY")
      case True
      then have "found_ok env address n l None v" for l v
        using pids by (auto simp: found_ok_def intro!: exI [of _ ?pids])
      with True x show ?thesis by (simp add: assures_Return)
    next
      case False
      have "page_assures env C ?P (task_bind (connection_task env peer) (\<lambda>h.
          collect_quotes_task env address n peers (quoted @ [?q h]) (m + (if stored then 1 else 0)))) w1"
        by (rule page.assures_bind [OF assured_connection [OF ok1] rest])
      with False x show ?thesis by auto
    qed
  qed (simp add: assures_Return)
qed

section \<open>Payments\<close>

lemma assured_call_pay:
  assumes "\<And>v. page_keeps env C w v \<Longrightarrow> payment_ok env C (pay_calls v) (to, calldata)"
  shows "page_assures env C (\<lambda>x v. (to, calldata) \<in> set (pay_calls v)) (act (call_pay env to calldata)) w"
proof (rule page.assures_act)
  fix w' r w'' assume k: "page_keeps env C w w'" and c: "call_pay env to calldata w' = (r, w'')"
  note w'' = call_pay_calls [OF c]
  show "page_keeps env C w' w''"
    using stepsD [OF client_steps_call_pay c] payments_ok_snoc [OF _ assms [OF k]] unfolding page_keeps_def w'' by simp
next
  fix w' x w'' v assume "call_pay env to calldata w' = (Ready (Inr x), w'')" "page_keeps env C w'' v"
  with call_pay_calls [OF this(1)] page_keeps_log [OF this(2)] show "(to, calldata) \<in> set (pay_calls v)" by auto
qed

lemma assured_pay_quotes:
  assumes "length quoted = CLOSE_GROUP_SIZE" and "list_all (good_peer (e_crates env) address) quoted"
    and "due env C token vault address"
  shows "page_assures env C (\<lambda>proof_bytes v. \<exists>payments. paid_quotes env address quoted payments
       \<and> set (payment_calls (e_crates env) token vault payments) \<subseteq> set (pay_calls v)) (pay_quotes_task env token vault quoted) w"
  unfolding pay_quotes_task_def Let_def
proof (rule page.assures_bind_Return, goal_cases)
  case (1 payments)
  let ?cr = "e_crates env"
  let ?a = "(to_hex ?cr token, hex_0x ?cr (approve_calldata vault (total_amount payments)))"
  let ?p = "(to_hex ?cr vault, hex_0x ?cr (pay_for_quotes_calldata ?cr payments))"
  have pc: "payment_calls ?cr token vault payments = [?a, ?p]" by (simp add: payment_calls_def)
  have paid: "paid_quotes env address quoted payments" using assms 1 by (simp add: paid_quotes_def)
  have first: "payment_ok env C log ?a" for log
    unfolding payment_ok_def using assms(3) paid pc by (metis nth_Cons_0)
  have second: "payment_ok env C (pay_calls v) ?p" if "?a \<in> set (pay_calls u)" "page_keeps env C u v" for u v
  proof -
    have "?a \<in> set (pay_calls v)" using that page_keeps_log by blast
    with assms(3) paid pc show ?thesis unfolding payment_ok_def by (metis nth_Cons_0 nth_Cons_Suc One_nat_def)
  qed
  show ?case
  proof (rule page.assures_bind [OF assured_call_pay [OF first]], rule page.assures_bind [OF assured_call_pay], goal_cases)
    case (1 x u v)
    then show ?case by (intro second [of u v])
  next
    case (2 x u tx u')
    then have "set (payment_calls ?cr token vault payments) \<subseteq> set (pay_calls v)" if "page_keeps env C u' v" for v
      using page_keeps_log [OF page.trans [OF 2(3) that]] page_keeps_log [OF that] unfolding pc by auto
    with paid show ?case by (intro page.assures_bind_Return) (auto simp: assures_Return)
  qed
qed

section \<open>Storing\<close>

lemma assured_put_attempts:
  "client_ok env w \<Longrightarrow> own_handle (qp_peer_id q) h w \<Longrightarrow>
     page_assures env C (\<lambda>(yes, e) v. yes \<longrightarrow> acknowledged env address data proof_bytes q)
       (put_attempts_task env h address data proof_bytes k last_err) w"
proof (induction k arbitrary: last_err w)
  case 0
  show ?case by (simp add: assures_Return)
next
  case (Suc k)
  let ?put = "put_chunk (e_crates env) (e_serde env) address data proof_bytes"
  have "page_assures env C (\<lambda>yes v. yes \<longrightarrow> acknowledged env address data proof_bytes q) (act (on_conn h ?put)) w"
    by (rule assured_request [OF Suc.prems]) (auto simp: acknowledged_def)
  then show ?case
    unfolding put_attempts_task.simps
  proof (rule page.assures_then, goal_cases)
    case (2 e w1)
    from Suc.IH [OF page_keeps_ok [OF 2 Suc.prems(1)] own_handle_later [OF 2 Suc.prems(2)]] show ?case by simp
  qed (simp add: assures_Return)
qed

lemma assured_put_all:
  "client_ok env w \<Longrightarrow> own_handles_of quoted w \<Longrightarrow>
     page_assures env C (\<lambda>(accepted, e) v. accepted \<le> m + length (filter (acknowledged env address data proof_bytes) quoted))
       (put_all_task env address data proof_bytes quoted m last_err) w"
proof (induction quoted arbitrary: m last_err w)
  case Nil
  show ?case by (simp add: assures_Return)
next
  case (Cons q quoted)
  have h: "own_handle (qp_peer_id q) (qp_conn q) w" "own_handles_of quoted w"
    using Cons.prems(2) by (simp_all add: own_handles_of_def)
  show ?case
    unfolding put_all_task.simps
  proof (rule page.assures_bind [OF assured_put_attempts [OF Cons.prems(1) h(1)]])
    fix x :: "bool \<times> string" and w1 assume k: "page_keeps env C w w1" 
      and a: "(case x of (yes, e) \<Rightarrow> \<lambda>v :: client. yes \<longrightarrow> acknowledged env address data proof_bytes q) w1"
    obtain yes e where x: "x = (yes, e)" by force
    note rest = Cons.IH [OF page_keeps_ok [OF k Cons.prems(1)] own_handles_later [OF k h(2)], of "m + (if yes then 1 else 0)" e]
    show "page_assures env C (\<lambda>(accepted, e) v. accepted \<le> m + length (filter (acknowledged env address data proof_bytes) (q # quoted)))
       (case x of (yes, last1) \<Rightarrow> put_all_task env address data proof_bytes quoted (m + (if yes then 1 else 0)) last1) w1"
      unfolding x prod.case by (rule page.assures_weaken [OF rest]) (use a x in \<open>auto split: if_splits\<close>)
  qed
qed

text \<open>
  What a chunk's being stored comes to: a majority says that it has it; or the page was asked for both
  payments for it, and a majority of the quoted peers acknowledged it.
\<close>

definition stored :: "'m env \<Rightarrow> byte list \<Rightarrow> byte list \<Rightarrow> (string \<times> string) list \<Rightarrow> byte list \<Rightarrow> byte list \<Rightarrow> bool" where
  "stored env token vault log address data \<longleftrightarrow>
     (\<exists>pids. CLOSE_GROUP_MAJORITY \<le> length pids \<and> list_all (vouches env address (length data)) pids)
     \<or> (\<exists>quoted payments proof_bytes. paid_quotes env address quoted payments
          \<and> set (payment_calls (e_crates env) token vault payments) \<subseteq> set log
          \<and> CLOSE_GROUP_MAJORITY \<le> length (filter (acknowledged env address data proof_bytes) quoted))"

lemma stored_later: "page_keeps env C w w' \<Longrightarrow> stored env token vault (pay_calls w) a d \<Longrightarrow> stored env token vault (pay_calls w') a d"
  using page_keeps_log unfolding stored_def by (blast intro: subset_trans)

lemma assured_put_phase:
  assumes "client_ok env w" and "own_handles_of quoted w" and "paid_quotes env address quoted payments"
    and "set (payment_calls (e_crates env) token vault payments) \<subseteq> set (pay_calls w)"
  shows "page_assures env C (\<lambda>_ v. stored env token vault (pay_calls v) address data)
     (put_phase_task env address data proof_bytes quoted) w"
  unfolding put_phase_task_def
proof (rule page.assures_bind [OF assured_put_all [OF assms(1,2)]], clarsimp simp: assures_Return)
  fix accepted w1 v assume "page_keeps env C w w1" "page_keeps env C w1 v"
    and a: "accepted \<le> length (filter (acknowledged env address data proof_bytes) quoted)" "\<not> accepted < CLOSE_GROUP_MAJORITY"
  then have "set (payment_calls (e_crates env) token vault payments) \<subseteq> set (pay_calls v)"
    using assms(4) page_keeps_log [OF page.trans] by blast
  moreover have "CLOSE_GROUP_MAJORITY \<le> length (filter (acknowledged env address data proof_bytes) quoted)" using a by linarith
  ultimately show "stored env token vault (pay_calls v) address data" using assms(3) unfolding stored_def by blast
qed

lemma assured_store_one:
  assumes "client_ok env w" and "due env C token vault address"
  shows "page_assures env C (\<lambda>_ v. stored env token vault (pay_calls v) address data) (store_one_task env address data token vault) w"
    (is "page_assures env C ?P _ w")
  unfolding store_one_task_def
proof (rule page.assures_bind [where Q = "\<lambda>_ _. True"], goal_cases)
  case 1
  show ?case by (rule assured_numbered [OF assms(1)]) simp_all
next
  case (2 peers w1)
  note ok1 = page_keeps_ok [OF 2(1) assms(1)]
  let ?peers = "take CLOSE_GROUP_SIZE peers"
  show ?case
  proof (cases "length peers < CLOSE_GROUP_SIZE")
    case False
    then have len: "length ?peers = CLOSE_GROUP_SIZE" by simp
    have "page_assures env C (found_ok env address (length data) CLOSE_GROUP_SIZE)
        (collect_quotes_task env address (length data) ?peers [] 0) w1"
      using assured_collect_quotes [OF ok1, of address "[]" "length data" "[]" 0 C ?peers] len
      by (simp add: own_handles_of_def)
    then have "page_assures env C ?P (task_bind (collect_quotes_task env address (length data) ?peers [] 0) (\<lambda>found.
       case found of None \<Rightarrow> Return (Inr ()) | Some quoted \<Rightarrow> task_bind (pay_quotes_task env token vault quoted) (\<lambda>proof_bytes. put_phase_task env address data proof_bytes quoted))) w1"
    proof (rule page.assures_bind, goal_cases)
      case (1 found w2)
      note ok2 = page_keeps_ok [OF 1(1) ok1]
      show ?case
      proof (cases found)
        case None
        with 1(2) show ?thesis by (auto simp: assures_Return found_ok_def stored_def)
      next
        case (Some quoted)
        with 1(2) have q: "length quoted = CLOSE_GROUP_SIZE" "list_all (good_peer (e_crates env) address) quoted"
          "own_handles_of quoted w2" by (simp_all add: found_ok_def)
        have "page_assures env C ?P (task_bind (pay_quotes_task env token vault quoted) (\<lambda>proof_bytes. put_phase_task env address data proof_bytes quoted)) w2"
        proof (rule page.assures_bind [OF assured_pay_quotes [OF q(1,2) assms(2)]], elim exE conjE, goal_cases)
          case (1 proof_bytes w3 payments)
          from assured_put_phase [OF page_keeps_ok [OF 1(1) ok2] own_handles_later [OF 1(1) q(3)] 1(2,3)] show ?case .
        qed
        with Some show ?thesis by simp
      qed
    qed
    with False show ?thesis by simp
  qed (simp add: assures_Return)
qed

lemma assured_store_items:
  "client_ok env w \<Longrightarrow> list_all (\<lambda>(a, d). due env C token vault a) items \<Longrightarrow>
     page_assures env C (\<lambda>_ v. list_all (\<lambda>(a, d). stored env token vault (pay_calls v) a d) items)
     (store_items_task env token vault items) w"
proof (induction items arbitrary: w)
  case Nil
  show ?case by (simp add: assures_Return)
next
  case (Cons item items)
  obtain a d where item: "item = (a, d)" by force
  let ?P = "\<lambda>_ v. list_all (\<lambda>(a, d). stored env token vault (pay_calls v) a d) (item # items)"
  have "page_assures env C ?P (store_items_task env token vault items) w1"
    if k: "page_keeps env C w w1" and first: "stored env token vault (pay_calls w1) a d" for w1
  proof -
    show ?thesis
      by (rule page.assures_weaken [OF Cons.IH [OF page_keeps_ok [OF k Cons.prems(1)]]])
        (use Cons.prems(2) first stored_later item in auto)
  qed
  then show ?case
    unfolding store_items_task.simps
    by (intro page.assures_bind [OF assured_store_one [OF Cons.prems(1)]]) (use Cons.prems(2) item in simp_all)
qed

definition uploaded :: "'m env \<Rightarrow> byte list \<Rightarrow> string \<Rightarrow> string \<Rightarrow> (string \<times> string) list \<Rightarrow> string \<Rightarrow> bool" where
  "uploaded env data token_hex vault_hex log text \<longleftrightarrow> (\<exists>token vault items address.
     parse_eth_address (e_crates env) token_hex = Inr token \<and> parse_eth_address (e_crates env) vault_hex = Inr vault
     \<and> upload_items env data = Inr (items, address) \<and> text = hex_encode (e_crates env) address
     \<and> list_all (\<lambda>(a, d). stored env token vault log a d) items)"

lemma assured_upload:
  assumes "client_ok env w" and "Upload data token_hex vault_hex \<in> C"
  shows "page_assures env C (\<lambda>text v. uploaded env data token_hex vault_hex (pay_calls v) text)
     (upload_task env data token_hex vault_hex) w"
  unfolding upload_task_def
proof (intro page.assures_bind_Return, goal_cases)
  case (1 token vault x)
  obtain items address where x: "x = (items, address)" by force
  have "list_all (\<lambda>(a, d). due env C token vault a) items"
    using 1 x assms(2) unfolding due_def list_all_iff by force
  note items = assured_store_items [OF assms(1) this]
  show ?case
    unfolding x prod.case
  proof (rule page.assures_bind [OF items])
    fix u w1 assume "page_keeps env C w w1" and i: "list_all (\<lambda>(a, d). stored env token vault (pay_calls w1) a d) items"
    have "list_all (\<lambda>(a, d). stored env token vault (pay_calls v) a d) items" if "page_keeps env C w1 v" for v
      using i stored_later [OF that] by (auto simp: list_all_iff)
    with 1 x show "page_assures env C (\<lambda>text v. uploaded env data token_hex vault_hex (pay_calls v) text)
        (Return (Inr (hex_encode (e_crates env) address))) w1"
      by (auto simp: assures_Return uploaded_def)
  qed
qed

section \<open>The page\<close>

text \<open>What a call may return.\<close>

fun promised :: "'m env \<Rightarrow> page_call \<Rightarrow> page_value \<Rightarrow> client \<Rightarrow> bool" where
  "promised env (Download text) (Bytes out) w \<longleftrightarrow> finished env text out"
| "promised env (FetchChunk text) (Bytes bytes) w \<longleftrightarrow>
     parse_address (e_crates env) text = Inr (blake3_hash (e_crates env) bytes)"
| "promised env (Upload data token_hex vault_hex) (Text text) w \<longleftrightarrow> uploaded env data token_hex vault_hex (pay_calls w) text"
| "promised env (RelayedFetch target_hex stun text) (Count n) w \<longleftrightarrow> relayed_length env target_hex text n"
| "promised env (ClosestPeersJson text) (Text json) w \<longleftrightarrow> named_peers env text json"
| "promised env c x w \<longleftrightarrow> False"

lemma promised_later: "promised env c x w \<Longrightarrow> page_keeps env C w w' \<Longrightarrow> promised env c x w'"
proof (induction env c x w rule: promised.induct)
  case (3 env data token_hex vault_hex hex w)
  then show ?case using stored_later unfolding promised.simps uploaded_def list_all_iff by fast
qed simp_all

lemma assured_call:
  assumes "client_ok env w" and "c \<in> C"
  shows "page_assures env C (promised env c) (call_task env c) w"
proof (cases c)
  case (Download hex)
  have "page_assures env C (\<lambda>x. promised env c (Bytes x)) (download_task env hex) w"
    using assured_download [of env C hex w] by (rule page.assures_weaken) (simp add: Download)
  then show ?thesis unfolding Download call_task.simps by (rule page.assures_map) (rule promised_later)
next
  case (FetchChunk hex)
  have "page_assures env C (\<lambda>x. promised env c (Bytes x)) (fetch_chunk_task env hex) w"
    using assured_fetch_chunk [of env C hex w] by (rule page.assures_weaken) (simp add: FetchChunk)
  then show ?thesis unfolding FetchChunk call_task.simps by (rule page.assures_map) (rule promised_later)
next
  case (Upload data token_hex vault_hex)
  have "page_assures env C (\<lambda>x. promised env c (Text x)) (upload_task env data token_hex vault_hex) w"
    using assured_upload [OF assms(1) assms(2) [unfolded Upload]] by (rule page.assures_weaken) (simp add: Upload)
  then show ?thesis unfolding Upload call_task.simps by (rule page.assures_map) (rule promised_later)
next
  case (RelayedFetch target_hex stun hex)
  have "page_assures env C (\<lambda>x. promised env c (Count x)) (relayed_fetch_task env target_hex stun hex) w"
    using assured_relayed_fetch [of env C target_hex hex stun w] by (rule page.assures_weaken) (simp add: RelayedFetch)
  then show ?thesis unfolding RelayedFetch call_task.simps by (rule page.assures_map) (rule promised_later)
next
  case (ClosestPeersJson hex)
  have "page_assures env C (\<lambda>x. promised env c (Text x)) (closest_peers_json_task env hex) w"
    using assured_closest_peers_json [OF assms(1), of C hex] by (rule page.assures_weaken) (simp add: ClosestPeersJson)
  then show ?thesis unfolding ClosestPeersJson call_task.simps by (rule page.assures_map) (rule promised_later)
qed

text \<open>
  The invariant of a page: of the client, of the payments, and of every call under way. \<open>C\<close> is fixed ahead
  and may be any set that holds all calls the page has made by now.
\<close>

definition page_ok :: "'m env \<Rightarrow> page_call set \<Rightarrow> page \<Rightarrow> bool" where
  "page_ok env C s \<longleftrightarrow> client_ok env (snd s) \<and> payments_ok env C (pay_calls (snd s))
     \<and> (\<forall>(c, t) \<in> set (fst s). page_assures env C (promised env c) t (snd s))"

lemma calls_step_ok:
  assumes "page_ok env C s" and "calls_step env s s'"
  shows "page_ok env C s' \<and> page_keeps env C (snd s) (snd s')"
proof -
  from assms(2) obtain i cs c t w t' w' where s: "s = (cs, w)" "s' = (cs[i := (c, t')], w')" "i < length cs"
    "cs ! i = (c, t)" "task_step env (t, w) (t', w')" by cases
  have "(c, t) \<in> set cs" using s(3,4) nth_mem by metis
  with assms(1) s(1) have "page_assures env C (promised env c) t w" by (auto simp: page_ok_def)
  from page.assures_step [OF s(5) this] have k: "page_keeps env C w w'" and t': "page_assures env C (promised env c) t' w'"
    by simp_all
  have "page_assures env C (promised env d) u w'" if "(d, u) \<in> set (cs[i := (c, t')])" for d u
  proof -
    have "(d, u) = (c, t') \<or> (d, u) \<in> set cs" using that set_update_subset_insert by fast
    then show ?thesis
    proof
      assume "(d, u) \<in> set cs"
      with assms(1) s(1) have "page_assures env C (promised env d) u w" by (auto simp: page_ok_def)
      then show ?thesis by (rule page.assures_later [OF _ k])
    qed (use t' in simp)
  qed
  with k assms(1) page_keeps_ok [OF k] show ?thesis by (auto simp: page_ok_def s(1,2) page_keeps_def)
qed

lemma page_run_ok: "page_run env s \<Longrightarrow> set (map fst (fst s)) \<subseteq> C \<Longrightarrow> page_ok env C s"
proof (induction rule: page_run.induct)
  case (connected ip port cert_hash_hex peer_id_hex w)
  then have "pay_calls w = []" by (auto simp: client_connect_def split: sum.splits poll.splits)
  with client_connect_ok [OF connected(1)] show ?case by (simp add: page_ok_def payments_ok_def)
next
  case (called cs w c)
  with assured_call [of env w c C] show ?case by (auto simp: page_ok_def)
next
  case (moved s s')
  with calls_step_ok calls_step_calls show ?case by metis
qed

end
