(* ===== verification/Endings.thy ===== *)
theory Endings
  imports Wallet
begin

text \<open>
  Calls that overlap come to an end: whatever the order of their steps and whatever the nodes answer, there
  are only finitely many, and what is left then has returned or waits for something that never comes.
\<close>

section \<open>One task\<close>

definition task_next :: "'m env \<Rightarrow> ('a task \<times> 'a task) set" where
  "task_next env = {(t', t). \<exists>w w'. task_step env (t, w) (t', w')}"

lemma task_next_Joining:
  assumes "\<And>x. k x \<in> Wellfounded.acc (task_next env)"
  shows "Joining as fs k \<in> Wellfounded.acc (task_next env)"
proof -
  have "wf (inv_image (less_than <*lex*> less_than) fetches_left)"
    by (intro wf_inv_image wf_lex_prod wf_less_than)
  then show ?thesis
  proof (induction fs rule: wf_induct_rule)
    case (less fs)
    show ?case
    proof (rule accI)
      fix t' assume "(t', Joining as fs k) \<in> task_next env"
      then obtain w w' where "task_step env (Joining as fs k, w) (t', w')" by (auto simp: task_next_def)
      then consider i f where "t' = Joining as (fs[i := f]) k" "i < length fs" "active (fs ! i)"
          "fetch_step env (as ! i) (fs ! i) w = (f, w')"
        | x where "t' = k x"
        by (auto elim: task_step_JoiningE)
      then show "t' \<in> Wellfounded.acc (task_next env)"
      proof cases
        case 1
        have "(fs[i := f], fs) \<in> inv_image (less_than <*lex*> less_than) fetches_left"
          using fetches_left_step [OF 1(2-4)] by simp
        with less 1(1) show ?thesis by simp
      qed (simp add: assms)
    qed
  qed
qed

lemma task_next_acc: "t \<in> Wellfounded.acc (task_next env)"
proof (induction t)
  case (Step f)
  show ?case
  proof (rule accI)
    fix t' assume "(t', Step f) \<in> task_next env"
    then obtain w w' where "f w = (t', w')" by (auto simp: task_next_def)
    then have "t' \<in> Basic_BNFs.fsts (f w)" by (simp add: prod_set_defs)
    with Step show "t' \<in> Wellfounded.acc (task_next env)" by blast
  qed
next
  case (Joining as fs k)
  then show ?case by (intro task_next_Joining) blast
next
  case (Return r)
  show ?case by (rule accI) (simp add: task_next_def)
next
  case Stuck
  show ?case by (rule accI) (simp add: task_next_def)
qed

lemma task_next_wf: "wf (task_next env)"
  by (simp add: wf_iff_acc task_next_acc)

section \<open>All calls\<close>

lemma calls_step_wf: "wf {(s', s). calls_step env s s'}"
proof (rule wf_subset)
  show "wf (inv_image (listrel1 (task_next env)) (\<lambda>s. map snd (fst s)))"
    by (simp add: task_next_wf)
  show "{(s', s). calls_step env s s'} \<subseteq> inv_image (listrel1 (task_next env)) (\<lambda>s. map snd (fst s))"
  proof clarify
    fix cs w cs' w' assume "calls_step env (cs, w) (cs', w')"
    then obtain i c t t' where s: "cs' = cs[i := (c, t')]" "i < length cs" "cs ! i = (c, t)" "task_step env (t, w) (t', w')"
      by cases
    have "map snd cs = take i (map snd cs) @ t # drop (Suc i) (map snd cs)"
      using s(2,3) id_take_nth_drop [of i "map snd cs"] by simp
    moreover have "map snd cs' = take i (map snd cs) @ t' # drop (Suc i) (map snd cs)"
      using s(1,2) by (simp add: map_update upd_conv_take_nth_drop take_map drop_map)
    moreover have "(t', t) \<in> task_next env" using s(4) by (auto simp: task_next_def)
    ultimately show "((cs', w'), cs, w) \<in> inv_image (listrel1 (task_next env)) (\<lambda>s. map snd (fst s))"
      unfolding in_inv_image fst_conv listrel1_def by blast
  qed
qed

lemma calls_end: "\<exists>s'. (calls_step env)\<^sup>*\<^sup>* s s' \<and> (\<nexists>s''. calls_step env s' s'')"
proof -
  obtain s' where s': "(calls_step env)\<^sup>*\<^sup>* s s'"
    and "\<And>s''. (s'', s') \<in> {(s', s). calls_step env s s'} \<Longrightarrow> s'' \<notin> {u. (calls_step env)\<^sup>*\<^sup>* s u}"
    using wfE_min [OF calls_step_wf, of s "{u. (calls_step env)\<^sup>*\<^sup>* s u}" env] by blast
  then have "\<not> calls_step env s' s''" for s'' using rtranclp.rtrancl_into_rtrancl [OF s'] by blast
  with s' show ?thesis by blast
qed

text \<open>A task that waits for a request or a dial that never ends.\<close>

fun waiting :: "'a task \<Rightarrow> bool" where
  "waiting Stuck \<longleftrightarrow> True"
| "waiting (Joining as fs k) \<longleftrightarrow> Hung \<in> set fs"
| "waiting _ \<longleftrightarrow> False"

lemma inactive_iff: "\<not> active f \<longleftrightarrow> f = Hung \<or> (\<exists>x. f = Fetched x)"
  by (cases f) simp_all

lemma task_stops:
  assumes "\<nexists>s. task_step env (t, w) s" and "assures R cr P t w"
  shows "(\<exists>r. t = Return r) \<or> waiting t"
proof (cases t)
  case (Step f)
  with assms(1) show ?thesis using runs [of f w "fst (f w)" "snd (f w)" env] unfolding Step by (metis prod.collapse)
next
  case (Joining as fs k)
  then have len: "length fs = length as"
    using assms(2) by (auto simp: assures_Joining dest: list_all2_lengthD)
  have "\<not> active (fs ! i)" if "i < length fs" for i
  proof
    assume "active (fs ! i)"
    moreover obtain f w' where "fetch_step env (as ! i) (fs ! i) w = (f, w')" by force
    ultimately show False using assms(1) fetches [OF that] unfolding Joining by blast
  qed
  then have "\<forall>f \<in> set fs. \<not> active f" by (metis in_set_conv_nth)
  then have fs: "\<forall>f \<in> set fs. f = Hung \<or> (\<exists>x. f = Fetched x)" by (simp add: inactive_iff)
  have "Hung \<in> set fs \<or> (\<exists>xs. fs = map Fetched xs)"
  proof (cases "Hung \<in> set fs")
    case False
    with fs have "\<forall>f \<in> set fs. \<exists>x. f = Fetched x" by metis
    then show ?thesis by (simp add: ex_map_conv)
  qed simp
  moreover have "fs \<noteq> map Fetched xs" for xs
  proof
    assume "fs = map Fetched xs"
    with len joins [of xs as env k w] assms(1) Joining show False by auto
  qed
  ultimately show ?thesis using Joining by auto
qed simp_all

lemma calls_stop:
  assumes "page_ok env C (cs, w)" and "\<nexists>s. calls_step env (cs, w) s" and "(c, t) \<in> set cs"
  shows "(\<exists>r. t = Return r) \<or> waiting t"
proof (rule task_stops)
  obtain i where i: "i < length cs" "cs ! i = (c, t)" using assms(3) by (metis in_set_conv_nth)
  show "\<nexists>s. task_step env (t, w) s" 
  proof
    assume "\<exists>s. task_step env (t, w) s"
    then obtain t' w' where "task_step env (t, w) (t', w')" by auto
    from calls_step.intros [OF i this] assms(2) show False by blast
  qed
  show "page_assures env C (promised env c) t w" using assms(1,3) by (auto simp: page_ok_def)
qed

end
