(* ===== verification/Deposit.thy ===== *)
theory Deposit
  imports Delivery Storing
begin

text \<open>
  Uploads of a page whose calls overlap, over honest nodes: nodes that quote and accept every item, and a page
  that pays. Each chunk takes fifteen requests, whatever the other calls do; the close group is dialled by
  whoever comes first.
\<close>

section \<open>Quotes\<close>

lemma fulfils_dial:
  assumes "honest_peers env serves near" and "peer \<in> set (near a)"
  shows "fulfils env serves net near (\<lambda>r s v. \<exists>h. r = Inr h \<and> h < length (conns v) \<and> serves (pci_peer_id peer) (s h))
     (act (dial env d peer)) 0 sess w"
proof (rule fulfils_act)
  fix sess' w' n assume sv: "serving env serves near sess' (0 + n) w'"
  obtain c s where c: "conn_connect (e_crates env) (e_rtc env d) d (pci_ip peer) (pci_port peer)
            (hex_encode (e_crates env) (pci_cert_hash peer)) (Some (pci_peer_id peer)) = Ready (Inr c)"
    and s: "serves (pci_peer_id peer) s" "synced (e_crates env) s (unat MAX_SEQ - 1) c"
    using assms unfolding honest_peers_def by blast
  let ?h = "length (conns w')"
  let ?w = "w'\<lparr>conns := conns w' @ [c], pool := AList.update (pci_peer_id peer) ?h (pool w')\<rparr>"
  have "dial env d peer w' = (Ready (Inr ?h), ?w)" using c by (simp add: dial_def ok_def)
  moreover have "synced (e_crates env) s n c" using s(2) sv by (auto simp: serving_def intro: synced_mono)
  then have "serving env serves near (sess'(?h := s)) n ?w"
    using sv s(1) by (auto simp: serving_def nth_append update_conv' less_Suc_eq split: if_splits)
  moreover have "extends sess' w' (sess'(?h := s)) ?w" by (simp add: extends_def)
  moreover have "\<exists>h. Inr ?h = Inr h \<and> h < length (conns v) \<and> serves (pci_peer_id peer) (u h)"
    if "extends (sess'(?h := s)) ?w u v" for u v using that s(1) by (simp add: extends_def)
  ultimately show "\<exists>r w'' sess''. dial env d peer w' = (Ready r, w'') \<and> serving env serves near sess'' n w''
      \<and> extends sess' w' sess'' w''
      \<and> (\<forall>u v. extends sess'' w'' u v \<longrightarrow> (\<exists>h. r = Inr h \<and> h < length (conns v) \<and> serves (pci_peer_id peer) (u h)))"
    by blast
qed

lemma fulfils_connection:
  assumes "honest_peers env serves near" and "peer \<in> set (near a)"
  shows "fulfils env serves net near (\<lambda>r s v. \<exists>h. r = Inr h \<and> h < length (conns v) \<and> serves (pci_peer_id peer) (s h))
     (connection_task env peer) 0 sess w"
  unfolding connection_task_def
proof (rule fulfils.Step)
  fix sess' w' n assume sv: "serving env serves near sess' (0 + n) w'"
  let ?P = "\<lambda>r s v. \<exists>h. r = Inr h \<and> h < length (conns v) \<and> serves (pci_peer_id peer) (s h)"
  let ?next = "case map_of (pool w') (pci_peer_id peer) of Some h \<Rightarrow> (Return (Inr h), w')
     | None \<Rightarrow> (act (dial env (dials w') peer), w'\<lparr>dials := Suc (dials w')\<rparr>)"
  show "\<exists>k' sess''. serving env serves near sess'' (k' + n) (snd ?next) \<and> extends sess' w' sess'' (snd ?next)
      \<and> fulfils env serves net near ?P (fst ?next) k' sess'' (snd ?next)"
  proof (cases "map_of (pool w') (pci_peer_id peer)")
    case (Some h)
    then have "h < length (conns w')" "serves (pci_peer_id peer) (sess' h)" using sv by (auto simp: serving_def)
    then have "fulfils env serves net near ?P (Return (Inr h)) 0 sess' w'"
      by (intro fulfils.Return) (auto simp: extends_def)
    with Some sv show ?thesis by (intro exI [of _ 0] exI [of _ sess']) simp
  next
    case None
    with sv fulfils_dial [OF assms] show ?thesis
      by (intro exI [of _ 0] exI [of _ sess']) (simp add: serving_def extends_def)
  qed
qed

lemma fulfils_try_quote:
  assumes "honest_peers env serves near" and "serves \<le> storers env quote_of address data proofs" and "peer \<in> set (near a)"
  shows "fulfils env serves net near (\<lambda>r s v. r = Inr (quote_of (pci_peer_id peer), False, None))
     (try_quote_task env peer address (length data)) 1 sess w" (is "fulfils _ _ _ _ ?P _ _ _ _")
proof -
  let ?pid = "pci_peer_id peer"
  have "fulfils env serves net near ?P (try_quote_task env peer address (length data)) (0 + (1 + 0)) sess w"
    unfolding try_quote_task_def
  proof (rule fulfils_bind [OF fulfils_connection [OF assms(1,3)]], elim conjE)
    fix h sess' and w' :: client assume h: "h < length (conns w')" "serves ?pid (sess' h)"
    from predicate2D [OF assms(2) h(2)] obtain i quote_bytes where q: "good_quote (e_crates env) address ?pid (quote_of ?pid)"
      "parse_quote (rmp_from_slice (e_serde env)) quote_bytes = Inr (quote_of ?pid)"
      "answers_chunk (e_serde env) (sess' h) \<lparr>request_id = 1, body = QuoteRequest
               \<lparr>quote_address = address, quote_data_size = of_nat (length data), quote_data_type = DATA_TYPE_CHUNK\<rparr>\<rparr>
             \<lparr>request_id = i, body = QuoteResponse (QuoteSuccess quote_bytes False None)\<rparr>"
      unfolding upload_node_def by blast
    have "fulfils env serves net near (\<lambda>r s v. r = Inr (quote_bytes, False, None))
        (act (on_conn h (request_quote (e_crates env) (e_serde env) address (length data)))) 1 sess' w'"
      using request_quote_synced [OF assms(1) _ q(3)] by (intro fulfils_request h(1)) blast
    then show "fulfils env serves net near ?P
      (task_bind (act (on_conn h (request_quote (e_crates env) (e_serde env) address (length data))))
       (\<lambda>(quote_bytes, already_stored, commitment).
     task_bind (Return (map_err (\<lambda>e. ''quote parse: '' @ display_payment_error e)
              (parse_quote (rmp_from_slice (e_serde env)) quote_bytes))) (\<lambda>quote.
       if content quote \<noteq> address then Return (Inl ''quote is for a different address'')
       else if blake3_hash (e_crates env) (pub_key quote) \<noteq> pci_peer_id peer
       then Return (Inl ''quote public key does not match the peer id'')
       else if \<not> verify_quote (e_crates env) quote then Return (Inl ''quote signature verification failed'')
       else Return (Inr (quote, already_stored, commitment))))) (1 + 0) sess' w'"
      by (rule fulfils_bind_eq) (use q(1,2) in \<open>simp add: task_bind_Inr good_quote_def fulfils.Return\<close>)
  qed
  then show ?thesis by simp
qed

lemma fulfils_collect_quotes:
  assumes "honest_peers env serves near" and "serves \<le> storers env quote_of address data proofs"
  shows "set peers \<subseteq> set (near a) \<Longrightarrow> quoted_handles serves sess w quoted \<Longrightarrow>
     fulfils env serves net near (\<lambda>r s v. \<exists>x. r = Inr x \<and> (\<exists>new. x = Some (quoted @ new) \<and> quoted_handles serves s v (quoted @ new)
        \<and> map (\<lambda>q. (qp_peer_id q, qp_quote q)) new = quoted_of quote_of peers \<and> map qp_commitment new = map (\<lambda>_. None) peers))
      (collect_quotes_task env address (length data) peers quoted 0) (length peers) sess w"
proof (induction peers arbitrary: quoted sess w)
  case Nil
  have "quoted_handles serves s v quoted" if "extends sess w s v" for s v
    using Nil(2) that by (auto simp: quoted_handles_def extends_def list_all_iff)
  then show ?case by (auto simp: quoted_of_def intro!: fulfils.Return)
next
  case (Cons peer peers)
  let ?pid = "pci_peer_id peer"
  let ?P = "\<lambda>r s v. \<exists>x. r = Inr x \<and> (\<exists>new. x = Some (quoted @ new) \<and> quoted_handles serves s v (quoted @ new)
        \<and> map (\<lambda>q. (qp_peer_id q, qp_quote q)) new = quoted_of quote_of (peer # peers)
        \<and> map qp_commitment new = map (\<lambda>_. None) (peer # peers))"
  let ?q = "\<lambda>h. \<lparr>qp_peer_id = ?pid, qp_conn = h, qp_quote = quote_of ?pid, qp_commitment = None\<rparr>"
  have p: "peer \<in> set (near a)" using Cons.prems(1) by simp
  have first: "fulfils env serves net near (\<lambda>r s v. r = Inr (quote_of ?pid, False, None))
      (quote_attempts_task env peer address (length data) QUOTE_ATTEMPTS ''no attempt'') (1 + 0) sess w"
    unfolding QUOTE_ATTEMPTS_def numeral_3_eq_3 quote_attempts_task.simps
    by (rule fulfils_then [OF fulfils_try_quote [OF assms p]]) (simp add: fulfils.Return)
  have rest: "fulfils env serves net near ?P (task_bind (connection_task env peer)
      (\<lambda>h. collect_quotes_task env address (length data) peers (quoted @ [?q h]) 0)) (0 + length peers) s v"
    if e: "extends sess w s v" for s v
  proof (rule fulfils_bind [OF fulfils_connection [OF assms(1) p]], elim conjE)
    fix h s' v' assume e': "extends s v s' v'" and h: "h < length (conns v')" "serves ?pid (s' h)"
    have q: "quoted_handles serves s' v' (quoted @ [?q h])"
      using Cons.prems(2) h extends_trans [OF e e'] by (auto simp: quoted_handles_def list_all_iff extends_def)
    have sub: "set peers \<subseteq> set (near a)" using Cons.prems(1) by simp
    from Cons.IH [OF sub q]
    show "fulfils env serves net near ?P (collect_quotes_task env address (length data) peers (quoted @ [?q h]) 0) (length peers) s' v'"
      by (rule fulfils_weaken) (auto simp: quoted_of_def intro!: exI [of _ "?q h # new" for new])
  qed
  have "fulfils env serves net near ?P (collect_quotes_task env address (length data) (peer # peers) quoted 0)
      ((1 + 0) + (0 + length peers)) sess w"
    unfolding collect_quotes_task.simps
    by (rule fulfils_then [OF first]) (use rest in \<open>simp add: CLOSE_GROUP_MAJORITY_def\<close>)
  then show ?case by simp
qed

section \<open>Payment\<close>

lemma fulfils_call_pay:
  assumes "page_pays env"
  shows "fulfils env serves net near (\<lambda>r s v. \<exists>tx. r = Inr tx \<and> (\<exists>h. parse_tx_hash (e_crates env) tx = Inr h))
     (act (call_pay env to calldata)) 0 sess w"
proof (rule fulfils_act)
  fix sess' w' n assume sv: "serving env serves near sess' (0 + n) w'"
  obtain tx h where tx: "e_pay env (length (pay_calls w')) = Resolves (JsString tx)" "parse_tx_hash (e_crates env) tx = Inr h"
    using assms unfolding page_pays_def by blast
  let ?w = "w'\<lparr>pay_calls := pay_calls w' @ [(to, calldata)]\<rparr>"
  have "call_pay env to calldata w' = (Ready (Inr tx), ?w)" using tx(1) by (simp add: call_pay_def ok_def)
  moreover have "serving env serves near sess' n ?w" "extends sess' w' sess' ?w" using sv by (simp_all add: serving_def extends_def)
  ultimately show "\<exists>r w'' sess''. call_pay env to calldata w' = (Ready r, w'') \<and> serving env serves near sess'' n w''
      \<and> extends sess' w' sess'' w''
      \<and> (\<forall>u v. extends sess'' w'' u v \<longrightarrow> (\<exists>tx. r = Inr tx \<and> (\<exists>h. parse_tx_hash (e_crates env) tx = Inr h)))"
    using tx(2) by blast
qed

text \<open>Seven quotes without sidecars can be paid for, and the proof is one of theirs.\<close>

lemma fulfils_pay_quotes:
  assumes "page_pays env" and "storable env quote_of near address"
    and "map (\<lambda>q. (qp_peer_id q, qp_quote q)) quoted = close_quotes quote_of near address" and "set (map qp_commitment quoted) \<subseteq> {None}"
  shows "fulfils env serves net near (\<lambda>r s v. \<exists>pb. r = Inr pb \<and> proof_of (e_serde env) (close_quotes quote_of near address) pb)
     (pay_quotes_task env token vault quoted) 0 sess w" (is "fulfils _ _ _ _ ?P _ _ _ _")
proof -
  have "length quoted = CLOSE_GROUP_SIZE"
    using arg_cong [OF assms(3), of length] assms(2) by (simp add: close_quotes_def quoted_of_def storable_def)
  then obtain payments where split: "payment_split (e_crates env) (map qp_quote quoted) = Inr payments"
    by (simp add: payment_split_def CLOSE_GROUP_SIZE_def Let_def)
  have side: "List.map_filter qp_commitment quoted = []"
    using assms(4) by (induction quoted) (auto simp: List.map_filter_def)
  have "\<exists>pb. serialize_single_node_proof (rmp_to_vec (e_serde env)) (close_quotes quote_of near address) h [] = Inr pb
      \<and> proof_of (e_serde env) (close_quotes quote_of near address) pb"
    if "parse_tx_hash (e_crates env) tx = Inr h" for tx h
  proof -
    have "length h = 32" using that by (auto simp: parse_tx_hash_def sized_def Let_def res_iff split: if_splits)
    with assms(2) show ?thesis unfolding storable_def proof_of_def by blast
  qed
  then have proven: "fulfils env serves net near ?P (task_bind (Return (parse_tx_hash (e_crates env) tx)) (\<lambda>tx_hash.
      Return (map_err (\<lambda>e. ''proof serialize failed: '' @ display_payment_error e)
        (serialize_single_node_proof (rmp_to_vec (e_serde env)) (close_quotes quote_of near address) tx_hash [])))) 0 s v"
    if "parse_tx_hash (e_crates env) tx = Inr h" for tx h s v
    using that by (fastforce simp: task_bind_Inr intro!: fulfils.Return)
  have "fulfils env serves net near ?P (pay_quotes_task env token vault quoted) (0 + (0 + 0)) sess w"
    unfolding pay_quotes_task_def Let_def split task_bind_Inr assms(3) side
    by (rule fulfils_bind [OF fulfils_call_pay [OF assms(1)]], rule fulfils_bind [OF fulfils_call_pay [OF assms(1)]])
      (use proven in blast)
  then show ?thesis by simp
qed

section \<open>Putting\<close>

lemma fulfils_put_all:
  assumes "honest_peers env serves near" and "serves \<le> storers env quote_of address data proofs" and "proofs proof_bytes"
  shows "quoted_handles serves sess w quoted \<Longrightarrow>
     fulfils env serves net near (\<lambda>r s v. \<exists>x. r = Inr x \<and> fst x = m + length quoted)
       (put_all_task env address data proof_bytes quoted m last_err) (length quoted) sess w"
proof (induction quoted arbitrary: m last_err sess w)
  case Nil
  show ?case by (simp add: fulfils.Return)
next
  case (Cons q quoted)
  let ?put = "put_chunk (e_crates env) (e_serde env) address data proof_bytes"
  have h: "qp_conn q < length (conns w)" and u: "serves (qp_peer_id q) (sess (qp_conn q))" "quoted_handles serves sess w quoted"
    using Cons.prems by (simp_all add: quoted_handles_def)
  obtain i where put: "answers_chunk (e_serde env) (sess (qp_conn q)) \<lparr>request_id = 1, body = PutRequest
             \<lparr>put_address = address, put_content = data, payment_proof = Some proof_bytes\<rparr>\<rparr>
           \<lparr>request_id = i, body = PutResponse (PutSuccess address)\<rparr>"
    using predicate2D [OF assms(2) u(1)] assms(3) unfolding upload_node_def by blast
  have "fulfils env serves net near (\<lambda>r s v. r = Inr True) (act (on_conn (qp_conn q) ?put)) 1 sess w"
    using put_chunk_synced [OF assms(1) _ put] by (intro fulfils_request h) blast
  then have first: "fulfils env serves net near (\<lambda>r s v. r = Inr (True, last_err))
      (put_attempts_task env (qp_conn q) address data proof_bytes QUOTE_ATTEMPTS last_err) (1 + 0) sess w"
    unfolding QUOTE_ATTEMPTS_def numeral_3_eq_3 put_attempts_task.simps
    by (rule fulfils_then) (simp add: fulfils.Return)
  have "quoted_handles serves s v quoted" if "extends sess w s v" for s v
    using u(2) that by (auto simp: quoted_handles_def list_all_iff extends_def)
  then have "fulfils env serves net near (\<lambda>r s v. \<exists>x. r = Inr x \<and> fst x = m + length (q # quoted))
      (put_all_task env address data proof_bytes (q # quoted) m last_err) ((1 + 0) + length quoted) sess w"
    unfolding put_all_task.simps using Cons.IH [of _ _ "Suc m" last_err] by (intro fulfils_bind_eq [OF first]) simp
  then show ?case by simp
qed

section \<open>Storing\<close>

lemma fulfils_store_one:
  assumes "honest_peers env serves near" and "serves \<le> accepting env quote_of near items" and "page_pays env"
    and "(address, data) \<in> set items" and "storable env quote_of near address"
  shows "fulfils env serves net near (\<lambda>r s v. r = Inr ()) (store_one_task env address data token vault) 15 sess w"
proof -
  let ?peers = "take CLOSE_GROUP_SIZE (near address)" and ?P = "\<lambda>r s v. r = Inr ()"
  let ?proofs = "proof_of (e_serde env) (close_quotes quote_of near address)"
  have sv: "serves \<le> storers env (quote_of address) address data ?proofs"
    using assms(2) accepting_storers [OF assms(4)] by (rule order_trans)
  have len: "length address = 32" "\<not> length (near address) < CLOSE_GROUP_SIZE" "length ?peers = 7"
    using assms(5) by (simp_all add: storable_def CLOSE_GROUP_SIZE_def)
  have closest: "fulfils env serves net near (\<lambda>r s v. r = Inr (near address))
      (numbered bootstrap (\<lambda>i. closest_peers_as (e_crates env) (e_serde env) i address)) 1 sess w"
    using always_closest [OF assms(1) len(1)] by (simp add: always_def)
  have put: "fulfils env serves net near ?P (put_phase_task env address data pb quoted) (7 + 0) s v"
    if "?proofs pb" "quoted_handles serves s v quoted" "length quoted = 7" for quoted pb s v
    using fulfils_put_all [OF assms(1) sv that(1,2), of net 0 "[]"] unfolding that(3) put_phase_task_def
    by (rule fulfils_bind) (auto simp: CLOSE_GROUP_MAJORITY_def intro!: fulfils.Return)
  have paid: "fulfils env serves net near ?P (task_bind (pay_quotes_task env token vault quoted) (\<lambda>proof_bytes. put_phase_task env address data proof_bytes quoted)) (0 + (7 + 0)) s v"
    if q: "quoted_handles serves s v quoted" "map (\<lambda>q. (qp_peer_id q, qp_quote q)) quoted = quoted_of (quote_of address) ?peers"
      "map qp_commitment quoted = map (\<lambda>_. None) ?peers" for quoted s v
  proof (rule fulfils_bind [OF fulfils_pay_quotes [OF assms(3,5)]], goal_cases)
    case (3 pb s' v')
    have "length quoted = 7" using arg_cong [OF q(3), of length] len(3) by simp
    moreover have "quoted_handles serves s' v' quoted"
      using q(1) 3(1) by (auto simp: quoted_handles_def list_all_iff extends_def)
    ultimately show ?case using put 3(2) by blast
  qed (use q in \<open>auto simp: close_quotes_def\<close>)
  have "fulfils env serves net near ?P (store_one_task env address data token vault) (1 + (length ?peers + (0 + (7 + 0)))) sess w"
    unfolding store_one_task_def
  proof (rule fulfils_bind_eq [OF closest], unfold if_not_P [OF len(2)])
    fix s v assume "extends sess w s v"
    have "quoted_handles serves s v []" by (simp add: quoted_handles_def)
    from fulfils_collect_quotes [OF assms(1) sv set_take_subset this]
    show "fulfils env serves net near ?P (task_bind (collect_quotes_task env address (length data) ?peers [] 0) (\<lambda>found.
       case found of None \<Rightarrow> Return (Inr ()) | Some quoted \<Rightarrow> task_bind (pay_quotes_task env token vault quoted) (\<lambda>proof_bytes. put_phase_task env address data proof_bytes quoted)))
       (length ?peers + (0 + (7 + 0))) s v"
      by (rule fulfils_bind) (use paid in auto)
  qed
  then show ?thesis unfolding len(3) by simp
qed

lemma fulfils_store_items:
  assumes "honest_peers env serves near" and "serves \<le> accepting env quote_of near all" and "page_pays env"
  shows "set items \<subseteq> set all \<Longrightarrow> list_all (\<lambda>(address, data). storable env quote_of near address) items \<Longrightarrow>
     fulfils env serves net near (\<lambda>r s v. r = Inr ()) (store_items_task env token vault items) (15 * length items) sess w"
proof (induction items arbitrary: sess w)
  case Nil
  show ?case by (simp add: fulfils.Return)
next
  case (Cons item items)
  obtain address data where item: "item = (address, data)" by force
  have "(address, data) \<in> set all" "storable env quote_of near address" using Cons.prems item by simp_all
  note first = fulfils_store_one [OF assms this]
  have len: "15 * length (item # items) = 15 + 15 * length items" by simp
  show ?case
    unfolding len store_items_task.simps unfolding item fst_conv snd_conv
    by (rule fulfils_bind_eq [OF first]) (use Cons in simp)
qed

lemma always_upload:
  assumes "honest_peers env serves near" and "serves \<le> accepting env quote_of near items" and "page_pays env"
    and "list_all (\<lambda>(a, d). storable env quote_of near a) items"
    and "parse_eth_address (e_crates env) token_hex = Inr token" and "parse_eth_address (e_crates env) vault_hex = Inr vault"
    and "upload_items env data = Inr (items, address)"
  shows "always env serves net near (Inr (hex_encode (e_crates env) address)) (upload_task env data token_hex vault_hex)
     (15 * length items)"
proof -
  have "always env serves net near (Inr ()) (store_items_task env token vault items) (15 * length items)"
    using fulfils_store_items [OF assms(1-3) subset_refl assms(4)] by (simp add: always_def)
  from always_bind [OF this, where l = 0 and y = "Inr (hex_encode (e_crates env) address)"
      and g = "\<lambda>_. Return (Inr (hex_encode (e_crates env) address))"]
  show ?thesis unfolding upload_task_def assms(5-7) task_bind_Inr by simp
qed

end
