(* ===== verification/Overlap.thy ===== *)
theory Overlap
  imports Deposit Relaying
begin

text \<open>
  Calls of the page that overlap, over honest nodes. Each has the requests it needs set aside from the moment
  it begins, so that it returns what it would return on its own, whatever the order of the steps.
\<close>

section \<open>Calls\<close>

text \<open>What a call should return, and how many requests it may take.\<close>

fun answer :: "'m env \<Rightarrow> (byte list \<Rightarrow> byte list \<rightharpoonup> byte list) \<Rightarrow> (byte list \<Rightarrow> PeerConnectInfo list) \<Rightarrow> page_call
    \<Rightarrow> page_value result" where
  "answer env net near (Download hex) = res_bind (parse_address (e_crates env) hex) (\<lambda>a.
     res_bind (snd (retrieve (e_crates env) (e_se env) (net_fetch (e_crates env) net near) a)) (\<lambda>b. Inr (Bytes b)))"
| "answer env net near (FetchChunk hex) = res_bind (parse_address (e_crates env) hex) (\<lambda>a.
     res_bind (net_fetch (e_crates env) net near a) (\<lambda>b. Inr (Bytes b)))"
| "answer env net near (Upload data token_hex vault_hex) = res_bind (parse_eth_address (e_crates env) token_hex) (\<lambda>token.
     res_bind (parse_eth_address (e_crates env) vault_hex) (\<lambda>vault.
     res_bind (upload_items env data) (\<lambda>(items, address). Inr (Text (hex_encode (e_crates env) address)))))"
| "answer env net near (ClosestPeersJson hex) = res_bind (parse_address (e_crates env) hex) (\<lambda>a.
     Inr (Text (peers_json (e_crates env) (near a))))"
| "answer env net near (RelayedFetch target_hex stun hex) = res_bind (parse_address (e_crates env) target_hex) (\<lambda>target.
     res_bind (parse_address (e_crates env) hex) (\<lambda>a.
     res_bind (chunk_length (e_crates env) (net target) a) (\<lambda>n. Inr (Count n))))"

fun cost :: "'m env \<Rightarrow> (byte list \<Rightarrow> byte list \<rightharpoonup> byte list) \<Rightarrow> (byte list \<Rightarrow> PeerConnectInfo list) \<Rightarrow> page_call \<Rightarrow> nat" where
  "cost env net near (Download hex) = (case parse_address (e_crates env) hex of Inl e \<Rightarrow> 0
     | Inr a \<Rightarrow> requests_for near (fst (retrieve (e_crates env) (e_se env) (net_fetch (e_crates env) net near) a)))"
| "cost env net near (FetchChunk hex) = (case parse_address (e_crates env) hex of Inl e \<Rightarrow> 0 | Inr a \<Rightarrow> Suc (length (near a)))"
| "cost env net near (Upload data token_hex vault_hex) =
     (case upload_items env data of Inl e \<Rightarrow> 0 | Inr (items, address) \<Rightarrow> 15 * length items)"
| "cost env net near (ClosestPeersJson hex) = 1"
| "cost env net near (RelayedFetch target_hex stun hex) = 1"

text \<open>
  What the network has to provide for a call. The addresses in the maps a download comes by are addresses;
  for an upload, the page pays, and the peers near each item are seven or more that quote and accept it; for a
  relayed fetch, a bootstrap node (\<open>boots\<close>) relays to the target, an honest node with the chunks \<open>net\<close> says.
\<close>

fun provided :: "'m env \<Rightarrow> (byte list \<Rightarrow> node_session \<Rightarrow> bool) \<Rightarrow> (node_session \<Rightarrow> bool) \<Rightarrow> (byte list \<Rightarrow> byte list \<Rightarrow> Quote)
    \<Rightarrow> (byte list \<Rightarrow> byte list \<rightharpoonup> byte list) \<Rightarrow> (byte list \<Rightarrow> PeerConnectInfo list) \<Rightarrow> page_call \<Rightarrow> bool" where
  "provided env serves boots quote_of net near (Download hex) \<longleftrightarrow> (case parse_address (e_crates env) hex of Inl e \<Rightarrow> True
     | Inr a \<Rightarrow> list_all (\<lambda>a. length a = 32)
         (fst (retrieve (e_crates env) (e_se env) (net_fetch (e_crates env) net near) a)))"
| "provided env serves boots quote_of net near (FetchChunk hex) \<longleftrightarrow> True"
| "provided env serves boots quote_of net near (Upload data token_hex vault_hex) \<longleftrightarrow> (case upload_items env data of Inl e \<Rightarrow> True
     | Inr (items, address) \<Rightarrow> page_pays env \<and> serves \<le> accepting env quote_of near items
         \<and> list_all (\<lambda>(a, d). storable env quote_of near a) items)"
| "provided env serves boots quote_of net near (ClosestPeersJson hex) \<longleftrightarrow> True"
| "provided env serves boots quote_of net near (RelayedFetch target_hex stun hex) \<longleftrightarrow>
     (case (parse_address (e_crates env) target_hex, parse_address (e_crates env) hex) of
        (Inr target, Inr a) \<Rightarrow> kem_correct (e_crates env)
          \<and> (\<forall>relay. boots relay \<longrightarrow> (\<forall>d. relayed_node env relay d stun target (net target)))
      | _ \<Rightarrow> True)"

text \<open>One lemma per call.\<close>

lemma always_call_download:
  assumes "provided env serves boots quote_of net near (Download hex)"
  shows "always env serves net near (answer env net near (Download hex)) (call_task env (Download hex)) (cost env net near (Download hex))"
proof (cases "parse_address (e_crates env) hex")
  case (Inl e)
  then have "always env serves net near (Inl e) (download_task env hex) 0"
    unfolding download_task_def by (intro always_bind_Return) simp
  from always_map [OF this, where h = Bytes] Inl show ?thesis by simp
next
  case (Inr a)
  obtain log x where r: "retrieve (e_crates env) (e_se env) (net_fetch (e_crates env) net near) a = (log, x)" by force
  with assms Inr have "list_all (\<lambda>a. length a = 32) log" by simp
  from always_map [OF always_download [OF Inr this r], where h = Bytes] Inr r show ?thesis by simp
qed

lemma always_call_fetch_chunk:
  "always env serves net near (answer env net near (FetchChunk hex)) (call_task env (FetchChunk hex)) (cost env net near (FetchChunk hex))"
proof (cases "parse_address (e_crates env) hex")
  case (Inl e)
  then have "always env serves net near (Inl e) (fetch_chunk_task env hex) 0"
    unfolding fetch_chunk_task_def by (intro always_bind_Return) simp
  from always_map [OF this, where h = Bytes] Inl show ?thesis by simp
next
  case (Inr a)
  have "always env serves net near (net_fetch (e_crates env) net near a) (fetch_chunk_task env hex) (Suc (length (near a)))"
    unfolding fetch_chunk_task_def
    using Inr always_get_direct [OF parse_address_length [OF Inr]] by (intro always_bind_Return) simp
  from always_map [OF this, where h = Bytes] Inr show ?thesis by simp
qed

lemma always_call_closest:
  assumes "holding env serves net near"
  shows "always env serves net near (answer env net near (ClosestPeersJson hex)) (call_task env (ClosestPeersJson hex))
     (cost env net near (ClosestPeersJson hex))"
proof (cases "parse_address (e_crates env) hex")
  case (Inl e)
  then have "always env serves net near (Inl e) (closest_peers_json_task env hex) 1"
    unfolding closest_peers_json_task_def by (intro always_bind_Return) simp
  from always_map [OF this, where h = Text] Inl show ?thesis by simp
next
  case (Inr a)
  have "honest_peers env serves near" using assms by (simp add: holding_def)
  from always_map [OF always_closest [OF this parse_address_length [OF Inr]], where h = "peers_json (e_crates env)" and net = net] Inr
  have "always env serves net near (Inr (peers_json (e_crates env) (near a))) (closest_peers_json_task env hex) 1"
    unfolding closest_peers_json_task_def by (intro always_bind_Return) simp
  from always_map [OF this, where h = Text] Inr show ?thesis by simp
qed

lemma always_call_upload:
  assumes "holding env serves net near" and "provided env serves boots quote_of net near (Upload data token_hex vault_hex)"
  shows "always env serves net near (answer env net near (Upload data token_hex vault_hex))
     (call_task env (Upload data token_hex vault_hex)) (cost env net near (Upload data token_hex vault_hex))"
proof (cases "\<exists>token vault items address. parse_eth_address (e_crates env) token_hex = Inr token
    \<and> parse_eth_address (e_crates env) vault_hex = Inr vault \<and> upload_items env data = Inr (items, address)")
  case True
  then obtain token vault items address where p: "parse_eth_address (e_crates env) token_hex = Inr token"
    "parse_eth_address (e_crates env) vault_hex = Inr vault" "upload_items env data = Inr (items, address)" by blast
  have "honest_peers env serves near" using assms(1) by (simp add: holding_def)
  moreover have "serves \<le> accepting env quote_of near items" "page_pays env" "list_all (\<lambda>(a, d). storable env quote_of near a) items"
    using assms(2) p(3) by simp_all
  ultimately show ?thesis using always_map [OF always_upload [OF _ _ _ _ p], where h = Text] p by simp
next
  case False
  then show ?thesis
    by (cases "parse_eth_address (e_crates env) token_hex"; cases "parse_eth_address (e_crates env) vault_hex";
        cases "upload_items env data") (auto simp: upload_task_def task_map_def task_bind_def)
qed

lemma fulfils_map:
  assumes "fulfils env serves net near (\<lambda>r _ _. r = x) t k sess w"
  shows "fulfils env serves net near (\<lambda>r _ _. r = res_bind x (\<lambda>v. Inr (h v))) (task_map h t) k sess w"
proof -
  let ?g = "\<lambda>r. case r of Inl e \<Rightarrow> Return (Inl e) | Inr v \<Rightarrow> Return (Inr (h v))"
  have "fulfils env serves net near (\<lambda>r _ _. r = res_bind x (\<lambda>v. Inr (h v))) (task_then t ?g) (k + 0) sess w"
    by (rule fulfils_then [OF assms]) (auto split: sum.split intro: fulfils.Return)
  then show ?thesis by (simp add: task_map_def task_bind_def)
qed

lemma fulfils_call_relayed:
  assumes "holding env serves net near" and "provided env serves boots quote_of net near (RelayedFetch target_hex stun hex)"
    and "bootstrap w < length (conns w)" and "boots (sess (bootstrap w))"
  shows "fulfils env serves net near (\<lambda>r s v. r = answer env net near (RelayedFetch target_hex stun hex))
     (call_task env (RelayedFetch target_hex stun hex)) (cost env net near (RelayedFetch target_hex stun hex)) sess w"
proof (cases "parse_address (e_crates env) target_hex"; cases "parse_address (e_crates env) hex")
  fix target a assume p: "parse_address (e_crates env) target_hex = Inr target" "parse_address (e_crates env) hex = Inr a"
  let ?x = "chunk_length (e_crates env) (net target) a"
  have "fulfils env serves net near (\<lambda>r s v. r = ?x) (relayed_fetch_task env target_hex stun hex) 1 sess w"
    using fulfils_relayed_fetch [OF assms(1) _ _ assms(3) parse_address_length [OF p(2)], of sess stun target] assms(2,4) p
    by (simp add: relayed_fetch_task_def task_bind_Inr)
  from fulfils_map [OF this, where h = Count] p show ?thesis by simp
qed (auto simp: relayed_fetch_task_def task_map_def task_bind_def intro: fulfils.Return)

lemma fulfils_call:
  assumes "holding env serves net near" and "provided env serves boots quote_of net near c"
    and "bootstrap w < length (conns w)" and "boots (sess (bootstrap w))"
  shows "fulfils env serves net near (\<lambda>r s v. r = answer env net near c) (call_task env c) (cost env net near c) sess w"
proof (cases c)
  case (Download hex)
  with always_call_download assms(2) show ?thesis unfolding always_def by blast
next
  case (FetchChunk hex)
  with always_call_fetch_chunk show ?thesis unfolding always_def by blast
next
  case (Upload data token_hex vault_hex)
  with always_call_upload [OF assms(1)] assms(2) show ?thesis unfolding always_def by blast
next
  case (RelayedFetch target_hex stun hex)
  with fulfils_call_relayed [where boots = boots and sess = sess and w = w, OF assms(1) _ assms(3,4)] assms(2) show ?thesis by blast
next
  case (ClosestPeersJson hex)
  with always_call_closest [OF assms(1)] show ?thesis unfolding always_def by blast
qed

section \<open>A page\<close>

text \<open>All of them under way, with the bootstrap node that the relayed fetches need.\<close>

definition all_fulfilled :: "'m env \<Rightarrow> (byte list \<Rightarrow> node_session \<Rightarrow> bool) \<Rightarrow> (node_session \<Rightarrow> bool)
    \<Rightarrow> (byte list \<Rightarrow> byte list \<rightharpoonup> byte list) \<Rightarrow> (byte list \<Rightarrow> PeerConnectInfo list) \<Rightarrow> nat \<Rightarrow> page \<Rightarrow> bool" where
  "all_fulfilled env serves boots net near n s \<longleftrightarrow> (\<exists>sess ks. length ks = length (fst s)
     \<and> (\<forall>i < length (fst s). fulfils env serves net near (\<lambda>r _ _. r = answer env net near (fst (fst s ! i))) (snd (fst s ! i))
          (ks ! i) sess (snd s))
     \<and> serving env serves near sess (sum_list ks + n) (snd s) \<and> boots (sess (bootstrap (snd s))))"

lemma all_fulfilled_call:
  assumes "holding env serves net near" and "provided env serves boots quote_of net near c"
    and "all_fulfilled env serves boots net near (cost env net near c + n) (cs, w)"
  shows "all_fulfilled env serves boots net near n (cs @ [(c, call_task env c)], w)"
proof -
  obtain sess ks where k: "length ks = length cs"
    "\<forall>i < length cs. fulfils env serves net near (\<lambda>r _ _. r = answer env net near (fst (cs ! i))) (snd (cs ! i)) (ks ! i) sess w"
    "serving env serves near sess (sum_list ks + (cost env net near c + n)) w" "boots (sess (bootstrap w))"
    using assms(3) by (auto simp: all_fulfilled_def)
  have "bootstrap w < length (conns w)" using k(3) by (simp add: serving_def)
  from fulfils_call [where boots = boots and sess = sess and w = w, OF assms(1,2) this k(4)] k show ?thesis
    unfolding all_fulfilled_def
    by (intro exI [of _ sess] exI [of _ "ks @ [cost env net near c]"]) (auto simp: nth_append add.assoc less_Suc_eq)
qed

lemma all_fulfilled_step:
  assumes "holding env serves net near" and "all_fulfilled env serves boots net near n s" and "calls_step env s s'"
  shows "all_fulfilled env serves boots net near n s'"
proof -
  from assms(3) obtain i cs c t w t' w' where s: "s = (cs, w)" "s' = (cs[i := (c, t')], w')" "i < length cs"
    "cs ! i = (c, t)" "task_step env (t, w) (t', w')" by cases
  let ?P = "\<lambda>c r (_ :: nat \<Rightarrow> node_session) (_ :: client). r = answer env net near c"
  obtain sess ks where k: "length ks = length cs"
    "\<forall>i < length cs. fulfils env serves net near (?P (fst (cs ! i))) (snd (cs ! i)) (ks ! i) sess w"
    "serving env serves near sess (sum_list ks + n) w" "boots (sess (bootstrap w))"
    using assms(2) s(1) by (auto simp: all_fulfilled_def)
  have i: "i < length ks" using s(3) k(1) by simp
  let ?others = "sum_list (ks[i := 0])"
  have "sum_list ks = ks ! i + ?others" using sum_list_others [OF i, of "ks ! i"] by simp
  then have "serving env serves near sess (ks ! i + (?others + n)) w"
    using k(3) by (simp add: add.assoc)
  moreover have "fulfils env serves net near (?P c) t (ks ! i) sess w"
    using k(1,2) i s(4) by fastforce
  ultimately obtain l sess' where d: "fulfils env serves net near (?P c) t' l sess' w'"
    "extends sess w sess' w'" "serving env serves near sess' (l + (?others + n)) w'"
    using fulfils_step [OF assms(1) s(5)] by blast
  have "fulfils env serves net near (?P (fst (cs[i := (c, t')] ! j))) (snd (cs[i := (c, t')] ! j)) (ks[i := l] ! j) sess' w'"
    if "j < length cs" for j
    using that d(1) fulfils_later [OF k(2) [rule_format, OF that] d(2)] k(1) by (cases "j = i") auto
  moreover have "sum_list (ks[i := l]) + n = l + (?others + n)" using sum_list_others [OF i, of l] by simp
  moreover have "boots (sess' (bootstrap w'))" using d(2) k(3,4) by (simp add: extends_def serving_def)
  ultimately show ?thesis
    using d(3) k(1) unfolding all_fulfilled_def s(2)
    by (intro exI [of _ sess'] exI [of _ "ks[i := l]"]) (simp add: add.assoc)
qed

text \<open>The page begins with a connection, here to an honest node.\<close>

definition honest_bootstrap :: "'m env \<Rightarrow> (byte list \<Rightarrow> node_session \<Rightarrow> bool) \<Rightarrow> (node_session \<Rightarrow> bool)
    \<Rightarrow> (byte list \<Rightarrow> PeerConnectInfo list) \<Rightarrow> bool" where
  "honest_bootstrap env serves boots near \<longleftrightarrow> (\<forall>ip port fingerprint expected c.
     conn_connect (e_crates env) (e_rtc env 0) 0 ip port fingerprint expected = Ready (Inr c) \<longrightarrow>
     (\<exists>s. synced (e_crates env) s (unat MAX_SEQ - 1) c \<and> discovers (e_serde env) s near \<and> serves (peer_id c) s \<and> boots s))"

lemma connect_serving:
  assumes "honest_bootstrap env serves boots near" and "client_connect env ip port fingerprint pid = Ready (Inr w)"
    and "n < unat MAX_SEQ"
  shows "\<exists>sess. serving env serves near sess n w \<and> boots (sess (bootstrap w))"
proof -
  obtain c expected where c: "conn_connect (e_crates env) (e_rtc env 0) 0 ip port fingerprint expected = Ready (Inr c)"
    and w: "conns w = [c]" "bootstrap w = 0" "pool w = [(peer_id c, 0)]"
    using assms(2) by (auto simp: client_connect_def split: sum.splits poll.splits)
  obtain s where s: "synced (e_crates env) s (unat MAX_SEQ - 1) c" "discovers (e_serde env) s near" "serves (peer_id c) s" "boots s"
    using assms(1) c unfolding honest_bootstrap_def by blast
  have "synced (e_crates env) s n c" using s(1) assms(3) by (auto intro: synced_mono)
  with s w assms(3) show ?thesis
    by (intro exI [of _ "\<lambda>_. s"]) (auto simp: serving_def split: if_splits)
qed

lemma page_run_fulfilled:
  assumes "holding env serves net near" and "honest_bootstrap env serves boots near" and "page_run env s"
  shows "list_all (provided env serves boots quote_of net near) (map fst (fst s)) \<Longrightarrow>
     sum_list (map (cost env net near) (map fst (fst s))) + n < unat MAX_SEQ \<Longrightarrow> all_fulfilled env serves boots net near n s"
  using assms(3)
proof (induction arbitrary: n rule: page_run.induct)
  case (connected ip port cert_hash_hex peer_id_hex w)
  then show ?case using connect_serving [OF assms(2) connected(1), of n] by (simp add: all_fulfilled_def)
next
  case (called cs w c)
  have "all_fulfilled env serves boots net near (cost env net near c + n) (cs, w)"
    using called by (simp add: add.assoc)
  with called.prems(1) show ?case by (intro all_fulfilled_call [OF assms(1), where quote_of = quote_of]) simp_all
next
  case (moved s s')
  then show ?case using all_fulfilled_step [OF assms(1) _ moved(2)] calls_step_calls [OF moved(2)] by simp
qed

text \<open>When nothing can move any more, every call has returned what it should.\<close>

lemma fulfils_done:
  assumes "fulfils env serves net near P t k sess w" and "\<nexists>s. task_step env (t, w) s"
  shows "\<exists>r. t = Return r \<and> P r sess w"
  using assms(1)
proof cases
  case (Step f)
  with assms(2) show ?thesis using runs [of f w "fst (f w)" "snd (f w)" env] by (metis prod.collapse)
next
  case (Joining fs as ks g rest)
  have "\<exists>x. fs ! i = Fetched x" if i: "i < length fs" for i
  proof -
    obtain f w' where f: "fetch_step env (as ! i) (fs ! i) w = (f, w')" by force
    then have "\<not> active (fs ! i)" using assms(2) fetches [OF i _ f] Joining(1) by blast
    with Joining(3,6) i show ?thesis by (cases "fs ! i") auto
  qed
  then have "\<forall>f \<in> set fs. \<exists>x. f = Fetched x" by (auto simp: in_set_conv_nth)
  then obtain xs where "fs = map Fetched xs" using ex_map_conv by metis
  with Joining(1,3) assms(2) joins [of xs as env g w] show ?thesis by auto
qed simp

lemma calls_delivered:
  assumes "all_fulfilled env serves boots net near n (cs, w)"
  shows "(c, Return r) \<in> set cs \<Longrightarrow> r = answer env net near c"
    and "\<nexists>s. calls_step env (cs, w) s \<Longrightarrow> cs = map (\<lambda>(c, _). (c, Return (answer env net near c))) cs"
    and "in_service env serves near n w"
proof -
  obtain sess ks where k:
    "\<forall>i < length cs. fulfils env serves net near (\<lambda>r _ _. r = answer env net near (fst (cs ! i))) (snd (cs ! i)) (ks ! i) sess w"
    "serving env serves near sess (sum_list ks + n) w"
    using assms by (auto simp: all_fulfilled_def)
  show "r = answer env net near c" if "(c, Return r) \<in> set cs"
  proof -
    obtain i where "i < length cs" "cs ! i = (c, Return r)" using \<open>(c, Return r) \<in> set cs\<close> by (auto simp: in_set_conv_nth)
    with k(1) have "fulfils env serves net near (\<lambda>r _ _. r = answer env net near c) (Return r) (ks ! i) sess w" by fastforce
    then show ?thesis by (rule fulfils_ReturnE) (blast intro: extends_refl)
  qed
  show "cs = map (\<lambda>(c, _). (c, Return (answer env net near c))) cs" if still: "\<nexists>s. calls_step env (cs, w) s"
  proof (rule nth_equalityI)
    fix i assume i: "i < length cs"
    obtain c t where c: "cs ! i = (c, t)" by (cases "cs ! i")
    have "\<nexists>s. task_step env (t, w) s" using calls_step.intros [OF i c] still by fastforce
    moreover have "fulfils env serves net near (\<lambda>r _ _. r = answer env net near c) t (ks ! i) sess w"
      using k(1) i c by fastforce
    ultimately have "t = Return (answer env net near c)" using fulfils_done by blast
    with c i show "cs ! i = map (\<lambda>(c, _). (c, Return (answer env net near c))) cs ! i" by simp
  qed simp
  show "in_service env serves near n w"
    using serving_mono [OF k(2), of n] by (auto simp: in_service_def)
qed

end
