(* ===== verification/Pages.thy ===== *)
theory Pages
  imports Endings Overlap Alone Schedules Relay Uploads
begin

text \<open>
  The properties of a page that makes its calls whenever it likes: \<open>page_run\<close> lets any call begin at any time
  and any call take the next step. What the calls return, what the page is asked to pay, which sessions are
  used, that everything ends, and that over honest nodes all get what they should.
\<close>

section \<open>Any network\<close>

text \<open> C1. Whatever the nodes do and however the calls of a page overlap, what a call returns is what it was
  asked for. The bytes of \<open>download\<close> are the file its address denotes, those of \<open>fetch_chunk\<close> hash to the
  address; an address returned by \<open>upload\<close> is that of the data map, and each of its items either is vouched
  for by a majority of peers with quotes of their own or was approved, paid and acknowledged by a majority of
  the quoted peers; \<open>relayed_fetch\<close> counts bytes that hash to the address and came from the named target; and
  \<open>closest_peers_json\<close> prints what a node with an authenticated session answered.\<close>
theorem overlapping_calls_sound:
  assumes "verify_correct (e_crates env) (e_se env)" and "root_correct (e_se env)" and "page_run env (cs, w)"
    and "(c, Return (Inr x)) \<in> set cs"
  shows "case c of
      Download hex \<Rightarrow> \<exists>out a. x = Bytes out \<and> parse_address (e_crates env) hex = Inr a \<and> denotes (e_crates env) (e_se env) a out
    | FetchChunk hex \<Rightarrow> \<exists>bytes. x = Bytes bytes \<and> parse_address (e_crates env) hex = Inr (blake3_hash (e_crates env) bytes)
    | Upload data token_hex vault_hex \<Rightarrow> \<exists>text. x = Text text \<and> uploaded env data token_hex vault_hex (pay_calls w) text
    | RelayedFetch target_hex stun hex \<Rightarrow> \<exists>n. x = Count n \<and> relayed_length env target_hex hex n
    | ClosestPeersJson hex \<Rightarrow> \<exists>json. x = Text json \<and> named_peers env hex json"
proof -
  have "promised env c x w"
    using page_run_ok [OF assms(3) subset_UNIV] assms(4) page.refl by (fastforce simp: page_ok_def assures_Return)
  then show ?thesis
    using finished_denotes [OF assms(1,2)] by (cases c; cases x) (auto simp: eq_commute)
qed

text \<open> C2. Whatever the nodes do and however uploads overlap, every call of the page's \<open>pay\<close> function is for an
  item of an upload the page itself has called, on the two contracts it named, and rests on seven quotes for
  that item, each by the key of the peer it is credited to and with a valid signature: it approves exactly
  the total of their split, or it pays exactly their split and that approval was asked for before.\<close>
theorem page_pays_verified:
  assumes "page_run env (cs, w)" and "j < length (pay_calls w)"
  shows "\<exists>token vault address quoted payments. due env (set (map fst cs)) token vault address
     \<and> length quoted = 7 \<and> list_all (good_peer (e_crates env) address) quoted
     \<and> payment_split (e_crates env) (map qp_quote quoted) = Inr payments
     \<and> (pay_calls w ! j = payment_calls (e_crates env) token vault payments ! 0
        \<or> pay_calls w ! j = payment_calls (e_crates env) token vault payments ! 1
          \<and> payment_calls (e_crates env) token vault payments ! 0 \<in> set (take j (pay_calls w)))"
proof -
  have "page_ok env (set (map fst cs)) (cs, w)" by (rule page_run_ok [OF assms(1)]) simp
  with assms(2) have "payment_ok env (set (map fst cs)) (take j (pay_calls w)) (pay_calls w ! j)"
    by (simp add: page_ok_def payments_ok_def)
  then show ?thesis unfolding payment_ok_def paid_quotes_def CLOSE_GROUP_SIZE_def by blast
qed

text \<open> C9. Whatever the nodes do and however calls overlap, the client's connections are sessions that a
  handshake authenticated, each still under the identity and key of that handshake; the pool has at most one
  entry for a peer, and the entry is a session with that very peer, also where two calls have dialled the
  same peer at once.\<close>
theorem page_pool_authentic:
  assumes "page_run env (cs, w)"
  shows "list_all (authenticated (e_crates env)) (conns w) \<and> bootstrap w < length (conns w) \<and> distinct (map fst (pool w))
     \<and> (\<forall>pid h. map_of (pool w) pid = Some h \<longrightarrow> h < length (conns w) \<and> peer_id (conns w ! h) = pid)"
  using page_run_ok [OF assms subset_UNIV] by (simp add: page_ok_def client_ok_def list_all_length)


section \<open>An honest network\<close>

text \<open> C5. Over honest nodes, calls do not disturb each other. In any page that connected to an honest node, with
  calls of any kind begun at any time: every call can come to its end; what a call has returned is what it
  would return on its own (what the responsible peers store, the peers near the address, the address of the
  uploaded data map, the length of what the named target stores); when nothing moves any more all have
  returned; and the client is still in service. Nodes have to quote and accept the items of the uploads, the
  page has to pay, relay and target have to do their part, and all calls together must fit into the sequence
  numbers of a session.\<close>
theorem overlapping_calls_deliver:
  assumes "holding env serves net near" and "honest_bootstrap env serves boots near" and "page_run env (cs, w)"
    and "list_all (provided env serves boots quote_of net near) (map fst cs)"
    and "sum_list (map (cost env net near) (map fst cs)) + n < unat MAX_SEQ"
  shows "(\<exists>w'. (calls_step env)\<^sup>*\<^sup>* (cs, w) (map (\<lambda>(c, _). (c, Return (answer env net near c))) cs, w'))
     \<and> list_all (\<lambda>(c, t). \<forall>r. t = Return r \<longrightarrow> r = answer env net near c) cs
     \<and> ((\<nexists>s. calls_step env (cs, w) s) \<longrightarrow> cs = map (\<lambda>(c, _). (c, Return (answer env net near c))) cs)
     \<and> in_service env serves near n w"
proof -
  have all: "all_fulfilled env serves boots net near n (cs', w')" if "page_run env (cs', w')" "map fst cs' = map fst cs" for cs' w'
    using page_run_fulfilled [where quote_of = quote_of, OF assms(1,2) that(1)] assms(4,5) that(2) by simp
  obtain cs' w' where s: "(calls_step env)\<^sup>*\<^sup>* (cs, w) (cs', w')" "\<nexists>s. calls_step env (cs', w') s"
    using calls_end [of env "(cs, w)"] by auto
  have calls: "map fst cs' = map fst cs" using calls_steps_calls [OF s(1)] by simp
  have "map (\<lambda>(c, _). (c, Return (answer env net near c))) cs' = map (\<lambda>c. (c, Return (answer env net near c))) (map fst cs')"
    by (simp add: case_prod_unfold)
  also have "\<dots> = map (\<lambda>(c, _). (c, Return (answer env net near c))) cs" unfolding calls by (simp add: case_prod_unfold)
  finally have "cs' = map (\<lambda>(c, _). (c, Return (answer env net near c))) cs"
    using calls_delivered(2) [OF all [OF page_run_later [OF s(1) assms(3)] calls] s(2)] by simp
  with s(1) calls_delivered [OF all [OF assms(3) refl]] show ?thesis by (auto simp: list_all_iff)
qed

section \<open>No interference\<close>


section \<open>Payments that overtake each other\<close>

text \<open>
  The two calls of \<open>pay\<close> are not one step: of two uploads with the same contracts the second may approve
  between the first one's approval and its payment. An approval sets the allowance, it does not add to it,
  so the contract sees the allowance of the second total when the first is paid.
\<close>

lemma act_step: "f w = (Ready (Inr x), w') \<Longrightarrow> task_step env (task_bind (act f) k, w) (k x, w')"
  by (simp add: task_bind_def act_def)

lemma call_pay_Resolves:
  "e_pay env (length (pay_calls w)) = Resolves (JsString s) \<Longrightarrow>
     call_pay env to calldata w = (Ready (Inr s), w\<lparr>pay_calls := pay_calls w @ [(to, calldata)]\<rparr>)"
  by (simp add: call_pay_def ok_def)

lemma approvals_overtake:
  assumes "payment_split (e_crates env) (map qp_quote qa) = Inr pa" and "payment_split (e_crates env) (map qp_quote qb) = Inr pb"
    and "page_pays env"
  shows "\<exists>ta tb ta' tb' w1 w2 w3 w4. task_step env (pay_quotes_task env token vault qa, w) (ta, w1)
     \<and> task_step env (pay_quotes_task env token vault qb, w1) (tb, w2) \<and> task_step env (ta, w2) (ta', w3)
     \<and> task_step env (tb, w3) (tb', w4)
     \<and> pay_calls w4 = pay_calls w @ [payment_calls (e_crates env) token vault pa ! 0, payment_calls (e_crates env) token vault pb ! 0,
          payment_calls (e_crates env) token vault pa ! 1, payment_calls (e_crates env) token vault pb ! 1]"
proof -
  let ?cr = "e_crates env" and ?log = "\<lambda>w call. w\<lparr>pay_calls := pay_calls w @ [call]\<rparr>"
  have two: "\<exists>t. (\<forall>w. task_step env (pay_quotes_task env token vault q, w) (t, ?log w (payment_calls ?cr token vault p ! 0)))
      \<and> (\<forall>w. \<exists>t'. task_step env (t, w) (t', ?log w (payment_calls ?cr token vault p ! 1)))"
    if split: "payment_split ?cr (map qp_quote q) = Inr p" for q p
  proof -
    have pay: "\<exists>s. call_pay env to calldata w = (Ready (Inr s), ?log w (to, calldata))" for to calldata w
      using assms(3) call_pay_Resolves unfolding page_pays_def by blast
    obtain k where "pay_quotes_task env token vault q =
        task_bind (act (call_pay env (to_hex ?cr token) (hex_0x ?cr (approve_calldata vault (total_amount p))))) (\<lambda>_.
        task_bind (act (call_pay env (to_hex ?cr vault) (hex_0x ?cr (pay_for_quotes_calldata ?cr p)))) k)"
      unfolding pay_quotes_task_def Let_def split task_bind_Inr by blast
    with pay act_step show ?thesis unfolding payment_calls_def nth_Cons_0 One_nat_def nth_Cons_Suc by metis
  qed
  from two [OF assms(1)] two [OF assms(2)] show ?thesis by fastforce
qed

section \<open>Instances\<close>

lemma page_run_calls:
  assumes "page_run env ([], w)"
  shows "page_run env (map (\<lambda>c. (c, call_task env c)) calls, w)"
  by (induction calls rule: rev_induct) (simp_all add: assms page_run.called)

text \<open>A page that uploads the file twice, downloads it, asks for the peers near it and fetches a chunk by the relay, all at once.\<close>

abbreviation contract :: "byte \<Rightarrow> string" where
  "contract n \<equiv> hex_0x test_crates (replicate 20 n)"

definition busy_calls :: "page_call list" where
  "busy_calls = [Upload [7] (contract 8) (contract 9), Download (hex_enc file_address), Upload [7] (contract 8) (contract 9),
     ClosestPeersJson (hex_enc file_address), RelayedFetch (hex_enc test_peer_id) [] (hex_enc (mini_hash [7]))]"

definition store_net :: "byte list \<Rightarrow> byte list \<rightharpoonup> byte list" where
  "store_net = (\<lambda>_. tw_store store_world)"

definition store_serves :: "byte list \<Rightarrow> node_session \<Rightarrow> bool" where
  "store_serves pid s \<longleftrightarrow> accepting store_env (\<lambda>a _. quote_for a) (tw_near store_world) file_items pid s
     \<and> chunk_nodes test_serde store_net pid s"

abbreviation store_answer :: "page_call \<Rightarrow> page_value result" where
  "store_answer \<equiv> answer store_env store_net (tw_near store_world)"

abbreviation store_started :: "(page_call \<times> page_value task) list" where
  "store_started \<equiv> map (\<lambda>c. (c, call_task store_env c)) busy_calls"

abbreviation store_done :: "(page_call \<times> page_value task) list" where
  "store_done \<equiv> map (\<lambda>c. (c, Return (store_answer c))) busy_calls"

lemma store_serves_node: "store_serves test_peer_id (test_session store_world)"
  using store_world_accepting(1) [OF file_items_upload(3), of paying] test_world_serves(1) [OF store_world_ok]
  by (simp add: store_serves_def store_env_def chunk_nodes_def store_net_def)

lemma store_holding: "holding store_env store_serves store_net (tw_near store_world)"
  using store_scene(2) [where serves = store_serves, OF _ store_serves_node, of 0] test_world_serves(3) [OF store_world_ok]
  by (auto simp: holding_def store_serves_def store_net_def)

lemma store_retrieve:
  "retrieve test_crates mini_se (net_fetch test_crates store_net (tw_near store_world)) file_address = (rev (map fst file_items), Inr [7])"
proof (rule file_retrieve_from)
  have "net_fetch test_crates store_net (tw_near store_world) a = Inr b" if "map_of file_items a = Some b" for a b
    using that by (simp add: net_fetch_def peers_fetch_def store_net_def store_world_def numeral_eq_Suc)
  with file_items_distinct show "list_all (\<lambda>(a, b). net_fetch test_crates store_net (tw_near store_world) a = Inr b) file_items"
    by (auto simp: list_all_iff)
qed

text \<open>A session that was pinned to an identity would have been made without the pin.\<close>

lemma finish_unpinned: "handshake_finish cr hs accept expected = Inr est \<Longrightarrow> handshake_finish cr hs accept None = Inr est"
  by (auto simp: handshake_finish_def Let_def split: if_splits option.splits)

lemma conn_connect_unpinned:
  "conn_connect cr pc d ip port fingerprint expected = Ready (Inr c) \<Longrightarrow>
     conn_connect cr pc d ip port fingerprint None = Ready (Inr c)"
  by (auto simp: conn_connect_def establish_Inr split: prod.splits poll.splits sum.splits) (metis finish_unpinned)

abbreviation store_boots :: "node_session \<Rightarrow> bool" where
  "store_boots \<equiv> \<lambda>s. s = test_session store_world"

lemma store_relayed: "relayed_node store_env (test_session store_world) d [] test_peer_id (store_net test_peer_id)"
  unfolding relayed_node_def
  by (rule exI [of _ relay_offer], rule exI [of _ "''v=0''"], rule exI [of _ "test_session store_world"])
    (use test_relays_offer test_browser test_accepts test_node_id test_world_serves(1) [OF store_world_ok]
      in \<open>simp add: store_env_def store_net_def\<close>)

lemma store_bootstrap: "honest_bootstrap store_env store_serves store_boots (tw_near store_world)"
  unfolding honest_bootstrap_def
proof (intro allI impI)
  fix ip port fingerprint expected c
  assume c: "conn_connect (e_crates store_env) (e_rtc store_env 0) 0 ip port fingerprint expected = Ready (Inr c)"
  have "unat MAX_SEQ - 1 < unat MAX_SEQ" by (simp add: MAX_SEQ_def)
  from test_dial [of None, OF _ this] obtain c' where c': "conn_connect test_crates (test_pc store_world) 0 ip port fingerprint None
      = Ready (Inr c')" "peer_id c' = test_peer_id" "synced test_crates (test_session store_world) (unat MAX_SEQ - 1) c'" by blast
  have "conn_connect test_crates (test_pc store_world) 0 ip port fingerprint expected = Ready (Inr c)"
    using c by (simp add: store_env_def)
  then have "c = c'" using conn_connect_unpinned c'(1) by fastforce
  with c' store_serves_node test_world_serves(2) [OF store_world_ok]
  show "\<exists>s. synced (e_crates store_env) s (unat MAX_SEQ - 1) c \<and> discovers (e_serde store_env) s (tw_near store_world)
      \<and> store_serves (peer_id c) s \<and> store_boots s" by (auto simp: store_env_def)
qed

lemma busy_facts:
  "map store_answer busy_calls = [Inr (Text (hex_enc file_address)), Inr (Bytes [7]), Inr (Text (hex_enc file_address)),
     Inr (Text (peers_json test_crates (replicate 7 test_peer))), Inr (Count 1)]"
  "list_all (provided store_env store_serves store_boots (\<lambda>a _. quote_for a) store_net (tw_near store_world)) busy_calls"
  "sum_list (map (cost store_env store_net (tw_near store_world)) busy_calls) = 116"
proof -
  have "requests_for (\<lambda>_. replicate 7 test_peer) (rev (map fst file_items)) = 24" by (simp add: file_items_def Let_def)
  moreover have "page_pays store_env" using page_pays_paying by (simp add: store_env_def)
  moreover have "store_serves \<le> accepting store_env (\<lambda>a _. quote_for a) (tw_near store_world) file_items"
    by (auto simp: store_serves_def)
  moreover have "store_net test_peer_id (mini_hash [7]) = Some [7]"
    by (simp add: store_net_def store_world_def file_items_def Let_def)
  moreover note store_world_accepting(2) [OF file_items_upload(3), of paying, folded store_env_def]
  moreover note file_target file_hash(1) store_relayed test_crates_kem
  ultimately show "map store_answer busy_calls = [Inr (Text (hex_enc file_address)), Inr (Bytes [7]), Inr (Text (hex_enc file_address)),
     Inr (Text (peers_json test_crates (replicate 7 test_peer))), Inr (Count 1)]"
    "list_all (provided store_env store_serves store_boots (\<lambda>a _. quote_for a) store_net (tw_near store_world)) busy_calls"
    "sum_list (map (cost store_env store_net (tw_near store_world)) busy_calls) = 116"
    using file_items_upload(1,2) file_address_text contract_texts store_retrieve file_requests(2)
    by (simp_all add: busy_calls_def chunk_length_def)
qed

lemma busy_scene: "\<exists>w. page_run store_env (store_started, w)"
proof -
  have "0 < unat MAX_SEQ" by (simp add: MAX_SEQ_def)
  from test_in_service [where serves = store_serves, OF store_world_ok store_serves_node this, of paying "[]" 0 "[]"]
  obtain w where "client_connect store_env [] 0 [] [] = Ready (Inr w)" unfolding store_env_def by blast
  with page_run_calls [OF page_run.connected] show ?thesis by blast
qed

lemma busy_done:
  "\<exists>w. page_run store_env (store_done, w) \<and> (\<nexists>s. calls_step store_env (store_done, w) s)"
proof -
  obtain w where w: "page_run store_env (store_started, w)" using busy_scene by blast
  obtain cs w' where s: "(calls_step store_env)\<^sup>*\<^sup>* (store_started, w) (cs, w')" "\<nexists>s'. calls_step store_env (cs, w') s'"
    using calls_end [of store_env "(store_started, w)"] by auto
  note run = page_run_later [OF s(1) w]
  have calls: "map fst cs = busy_calls" using calls_steps_calls [OF s(1)] by (simp add: comp_def)
  have "116 + 0 < unat MAX_SEQ" by (simp add: MAX_SEQ_def)
  with busy_facts(3) have "sum_list (map (cost store_env store_net (tw_near store_world)) (map fst (fst (cs, w')))) + 0 < unat MAX_SEQ"
    by (simp only: calls fst_conv)
  from page_run_fulfilled [OF store_holding store_bootstrap run _ this] busy_facts(2) calls
  have "all_fulfilled store_env store_serves store_boots store_net (tw_near store_world) 0 (cs, w')" by simp
  from calls_delivered(2) [OF this s(2)] have "cs = map (\<lambda>c. (c, Return (store_answer c))) (map fst cs)"
    by (simp add: case_prod_unfold comp_def)
  then show ?thesis using run s(2) unfolding calls by auto
qed

lemma overlapping_calls_sound_witness:
  "\<exists>cs w. page_run store_env (cs, w) \<and> length cs = 5 \<and> (Download (hex_enc file_address), Return (Inr (Bytes [7]))) \<in> set cs
     \<and> denotes test_crates mini_se file_address [7]
     \<and> uploaded store_env [7] (contract 8) (contract 9) (pay_calls w) (hex_enc file_address)"
proof -
  obtain w where run: "page_run store_env (store_done, w)" using busy_done by blast
  have c: "(Download (hex_enc file_address), Return (Inr (Bytes [7]))) \<in> set store_done"
    "(Upload [7] (contract 8) (contract 9), Return (Inr (Text (hex_enc file_address)))) \<in> set store_done"
    using busy_facts(1) by (simp_all add: busy_calls_def)
  from overlapping_calls_sound [OF _ _ run c(1)] mini_se_correct file_address_text have "denotes test_crates mini_se file_address [7]"
    by auto
  moreover from overlapping_calls_sound [OF _ _ run c(2)] mini_se_correct
  have "uploaded store_env [7] (contract 8) (contract 9) (pay_calls w) (hex_enc file_address)" by simp
  ultimately show ?thesis using run c(1) by (intro exI [of _ store_done] exI [of _ w]) (simp add: busy_calls_def)
qed

lemma page_pool_authentic_witness:
  "\<exists>cs w. page_run store_env (cs, w) \<and> length cs = 5 \<and> list_all (authenticated test_crates) (conns w)"
proof -
  obtain cs w where run: "page_run store_env (cs, w)" "length cs = 5" using busy_done by (auto simp: busy_calls_def)
  from page_pool_authentic [OF run(1)] run show ?thesis by auto
qed


lemma overlapping_calls_deliver_witness:
  "\<exists>w w'. page_run store_env (store_started, w) \<and> (calls_step store_env)\<^sup>*\<^sup>* (store_started, w)
     (zip busy_calls [Return (Inr (Text (hex_enc file_address))), Return (Inr (Bytes [7])),
        Return (Inr (Text (hex_enc file_address))), Return (Inr (Text (peers_json test_crates (replicate 7 test_peer)))),
        Return (Inr (Count 1))], w')"
proof -
  obtain w where run: "page_run store_env (store_started, w)" using busy_scene by blast
  have calls: "map fst store_started = busy_calls" by (simp add: comp_def)
  have "116 + 0 < unat MAX_SEQ" by (simp add: MAX_SEQ_def)
  with busy_facts(3) have "sum_list (map (cost store_env store_net (tw_near store_world)) (map fst store_started)) + 0 < unat MAX_SEQ"
    by (simp only: calls)
  from overlapping_calls_deliver [OF store_holding store_bootstrap run _ this] busy_facts(2) obtain w' where
    "(calls_step store_env)\<^sup>*\<^sup>* (store_started, w) (store_done, w')" unfolding calls by (auto simp: comp_def)
  moreover have "store_done = zip busy_calls [Return (Inr (Text (hex_enc file_address))), Return (Inr (Bytes [7])),
      Return (Inr (Text (hex_enc file_address))), Return (Inr (Text (peers_json test_crates (replicate 7 test_peer)))),
      Return (Inr (Count 1))]"
    using busy_facts(1) by (simp add: busy_calls_def)
  ultimately show ?thesis using run by auto
qed


text \<open>An upload that pays for its three items.\<close>

lemma page_pays_verified_witness:
  "\<exists>cs w token vault address quoted payments. page_run store_env (cs, w) \<and> length (pay_calls w) = 6
     \<and> due store_env (set (map fst cs)) token vault address
     \<and> length quoted = 7 \<and> list_all (good_peer test_crates address) quoted
     \<and> payment_split test_crates (map qp_quote quoted) = Inr payments
     \<and> pay_calls w ! 5 \<in> set (payment_calls test_crates token vault payments)"
proof -
  let ?call = "Upload [7] (contract 8) (contract 9)"
  let ?sv = "accepting store_env (\<lambda>a _. quote_for a) (tw_near store_world) file_items"
  note ok = store_world_accepting [OF file_items_upload(3), of paying, folded store_env_def]
  have "45 < unat MAX_SEQ" by (simp add: MAX_SEQ_def)
  from test_in_service [where serves = ?sv, OF store_world_ok ok(1) this, of paying "[]" 0 "[]"]
  obtain w where w: "client_connect store_env [] 0 [] [] = Ready (Inr w)" "pay_calls w = []"
    "in_service store_env ?sv (tw_near store_world) (15 * length file_items + 0) w"
    using file_items_upload(2) unfolding store_env_def by auto
  have pp: "page_pays store_env" using page_pays_paying by (simp add: store_env_def)
  have t: "parse_eth_address (e_crates store_env) (contract n) = Inr (replicate 20 n)" for n using contract_texts by simp
  from upload_serving [OF t t file_items_upload(1) store_scene(2) [where serves = ?sv, OF _ ok(1), of 0] pp ok(2) w(3), of 8 9]
    w(2) file_items_upload(2)
  obtain x w' splits where u: "upload store_env [7] (contract 8) (contract 9) w = (Ready (Inr x), w')"
    "pay_calls w' = concat (map (payment_calls test_crates (replicate 20 8) (replicate 20 9)) splits)" "length splits = 3"
    by (fastforce dest: list_all2_lengthD)
  have "call_alone store_env ?call w = (Ready (Inr (Text x)), w')" using u(1) by (simp add: await_def ok_def)
  from call_alone_calls [OF this, of 0 "[(?call, call_task store_env ?call)]"]
  have "page_run store_env ([(?call, Return (Inr (Text x)))], w')"
    using page_run_later page_run_calls [OF page_run.connected [OF w(1)], of "[?call]"] by fastforce
  moreover have "length (pay_calls w') = 6"
    using u(2,3) by (auto simp: length_Suc_conv numeral_3_eq_3 payment_calls_def)
  moreover have "payment_calls cr token vault p ! 0 \<in> set (payment_calls cr token vault p)"
    "payment_calls cr token vault p ! 1 \<in> set (payment_calls cr token vault p)" for cr token vault p
    by (simp_all add: payment_calls_def)
  ultimately show ?thesis using page_pays_verified [of store_env "[(?call, Return (Inr (Text x)))]" w' 5] by fastforce
qed

end
