(* ===== verification/Evm_Tests.thy ===== *)
theory Evm_Tests
  imports Evm
begin

text \<open>
  The unit tests of \<open>src/evm.rs\<close> (\<open>mod tests\<close>), one predicate per \<open>#[test]\<close>, with the asserts as conjuncts;
  what a slice index reads is asserted to be there. Keccak-256 is a parameter: the two tests of selectors say
  what it has to return, and all others hold whatever it returns.
\<close>

section \<open>The tests\<close>

definition u256_from_u64 :: "u64 \<Rightarrow> byte list" where
  "u256_from_u64 v = take 24 (replicate 32 0) @ u64_to_be v"

definition approve_selector_matches_keccak :: "crates \<Rightarrow> bool" where
  "approve_selector_matches_keccak cr \<longleftrightarrow>
     take 4 (keccak256 cr (str_bytes ''approve(address,uint256)'')) = ERC20_APPROVE_SELECTOR"

definition pay_for_quotes_selector_is_b6c2141b :: "crates \<Rightarrow> bool" where
  "pay_for_quotes_selector_is_b6c2141b cr \<longleftrightarrow> pay_for_quotes_selector cr = [0xb6, 0xc2, 0x14, 0x1b]"

definition approve_calldata_layout :: bool where
  "approve_calldata_layout \<longleftrightarrow>
     (let spender = replicate 20 0xab;
          amount = u256_from_u64 0x1234;
          data = approve_calldata spender amount in
      length data = 4 + 32 + 32
      \<and> take 4 data = ERC20_APPROVE_SELECTOR
      \<and> take (16 - 4) (drop 4 data) = replicate 12 0
      \<and> take (36 - 16) (drop 16 data) = spender
      \<and> drop 36 data = amount)"

definition pay_for_quotes_calldata_layout :: "crates \<Rightarrow> bool" where
  "pay_for_quotes_calldata_layout cr \<longleftrightarrow>
     (let payments = [(replicate 20 0x11, u256_from_u64 5, replicate 32 0x22),
                      (replicate 20 0x33, u256_from_u64 0, replicate 32 0x44)];
          data = pay_for_quotes_calldata cr payments;
          el0 = take 96 (drop 68 data) in
      length data = 4 + 32 + 32 + 2 * 96
      \<and> take 4 data = pay_for_quotes_selector cr
      \<and> data ! (4 + 31) = 0x20
      \<and> take 31 (drop 4 data) = replicate 31 0
      \<and> data ! (4 + 63) = 2
      \<and> take 12 el0 = replicate 12 0
      \<and> take (32 - 12) (drop 12 el0) = replicate 20 0x11
      \<and> take (64 - 32) (drop 32 el0) = u256_from_u64 5
      \<and> take (96 - 64) (drop 64 el0) = replicate 32 0x22)"

definition u256_add_carries :: bool where
  "u256_add_carries \<longleftrightarrow>
     u256_add (u256_from_u64 0x00ff) (u256_from_u64 0x0001) = u256_from_u64 0x0100
     \<and> (let big = (replicate 32 0xff)[0 := 0x00];
            one = u256_from_u64 1;
            expected = (replicate 32 0)[0 := 0x01] in
        u256_add big one = expected)"

definition u256_mul_u64_basic :: bool where
  "u256_mul_u64_basic \<longleftrightarrow>
     u256_mul_u64 (u256_from_u64 7) 3 = u256_from_u64 21
     \<and> u256_mul_u64 (u256_from_u64 0) 99 = u256_from_u64 0
     \<and> u256_mul_u64 (u256_from_u64 0x0100) 0x0100 = u256_from_u64 0x00010000
     \<and> (let expected = take 24 ((replicate 32 0)[23 := 0x01]) @ u64_to_be 0xfffffffffffffffe in
        u256_mul_u64 (u256_from_u64 0xffffffffffffffff) 2 = expected)"

definition u256_cmp_orders_numerically :: bool where
  "u256_cmp_orders_numerically \<longleftrightarrow>
     u256_cmp (u256_from_u64 1) (u256_from_u64 2) = Less
     \<and> u256_cmp (u256_from_u64 2) (u256_from_u64 2) = Equal
     \<and> u256_cmp (u256_from_u64 0x0100) (u256_from_u64 0x00ff) = Greater"

definition quote_with :: "u64 \<Rightarrow> byte \<Rightarrow> Quote" where
  "quote_with p rewards = \<lparr>content = replicate 32 0, timestamp = from_secs 0, price = u256_from_u64 p,
     rewards_address = replicate 20 rewards, pub_key = replicate 4 1, signature = replicate 4 2,
     committed_key_count = 0, commitment_pin = None\<rparr>"

definition payment_split_pays_only_the_median :: "crates \<Rightarrow> bool" where
  "payment_split_pays_only_the_median cr \<longleftrightarrow>
     (let quotes = map (\<lambda>i. quote_with (of_nat (i * 10)) (of_nat i)) [1..<Suc 7] in
      case payment_split cr quotes of
        Inl e \<Rightarrow> False
      | Inr split \<Rightarrow>
          length split = 7
          \<and> (let paying = filter (\<lambda>(_, amt, _). amt \<noteq> replicate 32 0) split in
             length paying = 1
             \<and> fst (snd (paying ! 0)) = u256_from_u64 120
             \<and> fst (paying ! 0) = replicate 20 4)
          \<and> fst (snd (split ! 3)) = u256_from_u64 120
          \<and> total_amount split = u256_from_u64 120)"

definition payment_split_requires_seven :: "crates \<Rightarrow> bool" where
  "payment_split_requires_seven cr \<longleftrightarrow>
     (let quotes = map (\<lambda>_. quote_with 1 0) [0..<6] in isl (payment_split cr quotes))"

definition payment_split_order_matches_input_when_unsorted :: "crates \<Rightarrow> bool" where
  "payment_split_order_matches_input_when_unsorted cr \<longleftrightarrow>
     (let prices = [70, 10, 50, 30, 20, 60, 40];
          quotes = map (\<lambda>(i, p). quote_with p (of_nat i)) (enumerate 0 prices) in
      case payment_split cr quotes of
        Inl e \<Rightarrow> False
      | Inr split \<Rightarrow>
          6 < length split \<and> fst (snd (split ! 6)) = u256_from_u64 120
          \<and> list_all (\<lambda>(i, _, amt, _). i \<noteq> 6 \<longrightarrow> amt = replicate 32 0) (enumerate 0 split))"

section \<open>They pass\<close>

text \<open>The numbers of the tests, and seven quotes from \<open>quote_with\<close>.\<close>

lemma u256_from_u64_be: "u256_from_u64 v = be_bytes 32 (unat v)"
proof -
  have "be_val (replicate k 0 @ bs) = be_val bs" for k bs by (induction k) (simp_all add: be_val_Cons)
  moreover have "unat v < 256 ^ 8" using unat_u64_lt [of v] by simp
  ultimately have "be_val (u256_from_u64 v) = unat v mod 2 ^ 256"
    using unat_u64_lt [of v] by (simp add: u256_from_u64_def u64_to_be_def be_val_bytes)
  then show ?thesis by (intro u256_eq) (simp_all add: u256_from_u64_def u64_to_be_def)
qed

lemma length_u256_from_u64 [simp]: "length (u256_from_u64 v) = 32"
  by (simp add: u256_from_u64_be)

lemma be_val_u256_from_u64 [simp]: "be_val (u256_from_u64 v) = unat v"
  using unat_u64_lt [of v] by (simp add: u256_from_u64_be be_val_bytes)

lemma quote_with_sel [simp]:
  "price (quote_with p r) = u256_from_u64 p" "rewards_address (quote_with p r) = replicate 20 r"
  "wf_Quote (quote_with p r)"
  by (simp_all add: quote_with_def wf_Quote_def)

lemma u256_eq_val: "length a = 32 \<Longrightarrow> a = be_bytes 32 n \<longleftrightarrow> be_val a = n mod 256 ^ 32"
  by (metis be_bytes_val be_bytes_mod be_val_bytes)

lemma approve_test: approve_calldata_layout
  by (simp add: approve_calldata_layout_def approve_calldata_def word_from_address_def ERC20_APPROVE_SELECTOR_def)

lemma pay_for_quotes_test: "pay_for_quotes_calldata_layout cr"
proof -
  have sel: "length (pay_for_quotes_selector cr) = 4" by (simp add: pay_for_quotes_selector_def Let_def)
  have n: "u64_to_be 2 = [0, 0, 0, 0, 0, 0, 0, 2]" by (simp add: byte_simps)
  show ?thesis
    unfolding pay_for_quotes_calldata_layout_def pay_for_quotes_calldata_def Let_def
    by (simp add: sel n word_from_address_def nth_append)
qed

lemma set_first: "(replicate (Suc n) x)[0 := y] = y # replicate n x"
  by simp

lemma be_val_ones: "be_val (replicate n 0xff) = 256 ^ n - 1"
proof (induction n)
  case (Suc n)
  have "(1 :: nat) \<le> 256 ^ n" by simp
  with Suc show ?case by (simp add: be_val_Cons)
qed (simp add: be_val_def)

lemma be_val_zeros: "be_val (replicate n 0) = 0"
proof (induction n)
  case (Suc n)
  then show ?case by (simp add: be_val_Cons)
qed (simp add: be_val_def)

lemma be_val_append: "be_val (xs @ ys) = be_val xs * 256 ^ length ys + be_val ys"
  by (simp add: be_val_def le_val_append)

lemma add_test: u256_add_carries
proof -
  have "be_val ((replicate 32 0xff)[0 := 0x00]) = 256 ^ 31 - 1" "be_val ((replicate 32 0)[0 := 0x01]) = 256 ^ 31"
    using set_first [of 31 "0xff :: byte" 0] set_first [of 31 "0 :: byte" 1]
    by (simp_all add: be_val_Cons be_val_ones be_val_zeros)
  then have "u256_add ((replicate 32 0xff)[0 := 0x00]) (u256_from_u64 1) = (replicate 32 0)[0 := 0x01]"
    by (subst be_val_inj [symmetric]) (simp_all add: u256_add_mod)
  then show ?thesis
    unfolding u256_add_carries_def Let_def
    by (subst be_val_inj [symmetric]) (simp_all add: u256_add_mod)
qed

lemma mul_test: u256_mul_u64_basic
proof -
  have "take 24 ((replicate 32 0)[23 := 1]) = replicate 23 0 @ [1 :: byte]"
    by (simp add: list_update_append [of "replicate 23 0" "replicate 9 0", simplified] numeral_eq_Suc)
  then have "be_val (take 24 ((replicate 32 0)[23 := 1]) @ u64_to_be 0xfffffffffffffffe) = 36893488147419103230"
    by (simp add: u64_to_be_def be_val_append be_val_zeros be_val_bytes be_val_Cons be_val_def [of "[]"] del: append_assoc)
  then have "u256_mul_u64 (u256_from_u64 0xffffffffffffffff) 2 = take 24 ((replicate 32 0)[23 := 0x01]) @ u64_to_be 0xfffffffffffffffe"
    by (subst be_val_inj [symmetric]) (simp_all add: u256_mul_mod u64_to_be_def)
  moreover have "u256_mul_u64 (u256_from_u64 7) 3 = u256_from_u64 21" "u256_mul_u64 (u256_from_u64 0) 99 = u256_from_u64 0"
    "u256_mul_u64 (u256_from_u64 0x0100) 0x0100 = u256_from_u64 0x00010000"
    by (subst be_val_inj [symmetric], simp_all add: u256_mul_mod)+
  ultimately show ?thesis unfolding u256_mul_u64_basic_def Let_def by blast
qed

lemma cmp_test: u256_cmp_orders_numerically
  by (simp add: u256_cmp_orders_numerically_def u256_cmp_val)

text \<open>Ranking seven quotes.\<close>

lemma ranked_values:
  assumes "list_all wf_Quote quotes" and "map (be_val \<circ> price) quotes = vs"
  shows "ranked quotes = sort_key ((!) vs) [0..<length vs]"
proof -
  have "length vs = length quotes" "\<And>i. i < length quotes \<Longrightarrow> be_val (price (quotes ! i)) = vs ! i"
    unfolding assms(2) [symmetric] by simp_all
  then show ?thesis
    unfolding ranked_def using wf_price [OF assms(1)] by (simp add: u256_cmp_val sort_by_key [where f = "(!) vs"])
qed

lemma split_values:
  assumes "list_all wf_Quote quotes" and "map (be_val \<circ> price) quotes = vs" and "length vs = 7"
    and "sort_key ((!) vs) [0..<7] ! 3 = m" and "m < 7" and "vs ! m = 40"
  shows "payment_split cr quotes = Inr (map (\<lambda>i. (rewards_address (quotes ! i),
     if i = m then u256_from_u64 120 else replicate 32 0, quote_hash cr (quotes ! i))) [0..<7])"
proof -
  have "length quotes = 7" using assms(2,3) by auto
  moreover have "price_of quotes m = 40" using assms(2,5,6) calculation by (auto simp: price_of_def)
  moreover have "ranked quotes ! 3 = m" using ranked_values [OF assms(1,2)] assms(3,4) by simp
  ultimately show ?thesis
    using payment_split_seven [OF assms(1), of cr] by (auto simp: u256_from_u64_be zero_word intro!: map_cong)
qed

lemma median_test: "payment_split_pays_only_the_median cr"
proof -
  let ?quotes = "[quote_with 10 1, quote_with 20 2, quote_with 30 3, quote_with 40 4, quote_with 50 5, quote_with 60 6,
    quote_with 70 7]"
  have quotes: "map (\<lambda>i. quote_with (of_nat (i * 10)) (of_nat i)) [1..<Suc 7] = ?quotes"
    by (simp add: upt_rec)
  have "payment_split cr ?quotes = Inr (map (\<lambda>i. (rewards_address (?quotes ! i),
     if i = 3 then u256_from_u64 120 else replicate 32 0, quote_hash cr (?quotes ! i))) [0..<7])"
    by (rule split_values [where vs = "[10, 20, 30, 40, 50, 60, 70]"]) (simp_all add: upt_rec)
  then obtain h0 h1 h2 h3 h4 h5 h6 where s: "payment_split cr ?quotes = Inr [(replicate 20 1, replicate 32 0, h0),
      (replicate 20 2, replicate 32 0, h1), (replicate 20 3, replicate 32 0, h2), (replicate 20 4, u256_from_u64 120, h3),
      (replicate 20 5, replicate 32 0, h4), (replicate 20 6, replicate 32 0, h5), (replicate 20 7, replicate 32 0, h6)]"
    by (simp add: upt_rec)
  have pays: "u256_from_u64 120 \<noteq> replicate 32 0"
    by (subst be_val_inj [symmetric]) (simp_all add: be_val_zeros)
  let ?split = "[(replicate 20 1, replicate 32 0, h0),
      (replicate 20 2, replicate 32 0, h1), (replicate 20 3, replicate 32 0, h2), (replicate 20 4, u256_from_u64 120, h3),
      (replicate 20 5, replicate 32 0, h4), (replicate 20 6, replicate 32 0, h5), (replicate 20 7, replicate 32 0, h6)]"
  have "total_amount ?split = u256_from_u64 120"
    by (subst total_amount_sum) (simp_all add: be_val_zeros u256_from_u64_be be_val_bytes)
  with pays show ?thesis
    unfolding payment_split_pays_only_the_median_def Let_def quotes s by simp
qed

lemma six_test: "payment_split_requires_seven cr"
  by (simp add: payment_split_requires_seven_def payment_split_def CLOSE_GROUP_SIZE_def)

lemma order_test: "payment_split_order_matches_input_when_unsorted cr"
proof -
  let ?quotes = "[quote_with 70 0, quote_with 10 1, quote_with 50 2, quote_with 30 3, quote_with 20 4, quote_with 60 5,
    quote_with 40 6]"
  have quotes: "map (\<lambda>(i, p). quote_with p (of_nat i)) (enumerate 0 [70, 10, 50, 30, 20, 60, 40]) = ?quotes"
    by simp
  have "payment_split cr ?quotes = Inr (map (\<lambda>i. (rewards_address (?quotes ! i),
     if i = 6 then u256_from_u64 120 else replicate 32 0, quote_hash cr (?quotes ! i))) [0..<7])"
    by (rule split_values [where vs = "[70, 10, 50, 30, 20, 60, 40]"]) (simp_all add: upt_rec)
  then show ?thesis
    unfolding payment_split_order_matches_input_when_unsorted_def Let_def quotes
    by (auto simp: list_all_iff in_set_enumerate_eq)
qed

text \<open>What the two tests of selectors ask of Keccak is that the calldata starts with the contracts' selectors.\<close>

lemma selector_tests_calldata:
  assumes "pay_for_quotes_selector_is_b6c2141b cr"
  shows "take 4 (pay_for_quotes_calldata cr payments) = [0xb6, 0xc2, 0x14, 0x1b]"
  using assms by (simp add: pay_for_quotes_selector_is_b6c2141b_def pay_for_quotes_calldata_def Let_def)


end
