(* ===== verification/Wire_Tests.thy ===== *)
theory Wire_Tests
  imports Payment
begin

text \<open>
  The tests of \<open>tests/payment_wire.rs\<close>, one predicate per \<open>#[test]\<close>, on the bytes of \<open>tests/fixtures\<close>, which
  were written by the real \<open>evmlib\<close> and \<open>ant-protocol\<close>. The crate \<open>rmp_serde\<close> is a parameter of the tests, as
  it is of the functions under test; they pass with the published MessagePack layout (\<open>msgpack_fmt\<close>). So the
  wire shapes of \<open>Payment\<close>, the order of the fields and their encodings are those of the network. The JSON
  description of the fixtures is given by the values its texts stand for, hex by bytes.
\<close>

section \<open>Fixtures\<close>

definition quote_from_json :: "byte list \<Rightarrow> u64 \<Rightarrow> u32 \<Rightarrow> byte list \<Rightarrow> byte list \<Rightarrow> byte \<Rightarrow> nat \<Rightarrow> byte \<Rightarrow> nat \<Rightarrow> u32
    \<Rightarrow> byte list option \<Rightarrow> Quote" where
  "quote_from_json content_hex timestamp_secs timestamp_nanos price_be_hex rewards_address_hex
     pub_key_fill pub_key_len signature_fill signature_len key_count commitment_pin_hex =
     \<lparr>content = content_hex, timestamp = \<lparr>secs = timestamp_secs, nanos = timestamp_nanos\<rparr>, price = price_be_hex,
       rewards_address = rewards_address_hex, pub_key = replicate pub_key_len pub_key_fill,
       signature = replicate signature_len signature_fill, committed_key_count = key_count,
       commitment_pin = commitment_pin_hex\<rparr>"

text \<open>\<open>payment_quote.json\<close> and \<open>payment_quote.rmp\<close>.\<close>

definition expected_quote :: Quote where
  "expected_quote = quote_from_json
     [0x22, 0x29, 0x30, 0x37, 0x3e, 0x45, 0x4c, 0x53, 0x5a, 0x61, 0x68, 0x6f, 0x76, 0x7d, 0x84, 0x8b, 0x92, 0x99,
      0xa0, 0xa7, 0xae, 0xb5, 0xbc, 0xc3, 0xca, 0xd1, 0xd8, 0xdf, 0xe6, 0xed, 0xf4, 0xfb]
     1700000000 123456789
     [0x00, 0x00, 0x00, 0x00, 0x00, 0x00, 0x00, 0x00, 0x00, 0x00, 0x00, 0x00, 0x00, 0x00, 0x00, 0x00, 0x00, 0x00,
      0x00, 0x00, 0x00, 0x00, 0x00, 0x0d, 0xde, 0xad, 0xbe, 0xef, 0xca, 0xfe, 0x00, 0x01]
     [0x41, 0x48, 0x4f, 0x56, 0x5d, 0x64, 0x6b, 0x72, 0x79, 0x80, 0x87, 0x8e, 0x95, 0x9c, 0xa3, 0xaa, 0xb1, 0xb8,
      0xbf, 0xc6]
     7 1952 9 3309 424242
     (Some [0x60, 0x67, 0x6e, 0x75, 0x7c, 0x83, 0x8a, 0x91, 0x98, 0x9f, 0xa6, 0xad, 0xb4, 0xbb, 0xc2, 0xc9, 0xd0, 0xd7,
      0xde, 0xe5, 0xec, 0xf3, 0xfa, 0x01, 0x08, 0x0f, 0x16, 0x1d, 0x24, 0x2b, 0x32, 0x39])"

definition QUOTE_RMP :: "byte list" where
  "QUOTE_RMP = [0x98, 0xdc, 0x00, 0x20, 0x22, 0x29, 0x30, 0x37, 0x3e, 0x45, 0x4c, 0x53, 0x5a, 0x61, 0x68, 0x6f, 0x76, 0x7d,
      0xcc, 0x84, 0xcc, 0x8b, 0xcc, 0x92, 0xcc, 0x99, 0xcc, 0xa0, 0xcc, 0xa7, 0xcc, 0xae, 0xcc, 0xb5, 0xcc, 0xbc,
      0xcc, 0xc3, 0xcc, 0xca, 0xcc, 0xd1, 0xcc, 0xd8, 0xcc, 0xdf, 0xcc, 0xe6, 0xcc, 0xed, 0xcc, 0xf4, 0xcc, 0xfb,
      0x92, 0xce, 0x65, 0x53, 0xf1, 0x00, 0xce, 0x07, 0x5b, 0xcd, 0x15, 0xc4, 0x20, 0x00, 0x00, 0x00, 0x00, 0x00,
      0x00, 0x00, 0x00, 0x00, 0x00, 0x00, 0x00, 0x00, 0x00, 0x00, 0x00, 0x00, 0x00, 0x00, 0x00, 0x00, 0x00, 0x00,
      0x0d, 0xde, 0xad, 0xbe, 0xef, 0xca, 0xfe, 0x00, 0x01, 0xc4, 0x14, 0x41, 0x48, 0x4f, 0x56, 0x5d, 0x64, 0x6b,
      0x72, 0x79, 0x80, 0x87, 0x8e, 0x95, 0x9c, 0xa3, 0xaa, 0xb1, 0xb8, 0xbf, 0xc6, 0xdc, 0x07, 0xa0]
     @ replicate 1952 0x07 @ [0xdc, 0x0c, 0xed] @ replicate 3309 0x09
     @ [0xce, 0x00, 0x06, 0x79, 0x32, 0xdc, 0x00, 0x20, 0x60, 0x67, 0x6e, 0x75, 0x7c, 0xcc, 0x83, 0xcc, 0x8a, 0xcc,
      0x91, 0xcc, 0x98, 0xcc, 0x9f, 0xcc, 0xa6, 0xcc, 0xad, 0xcc, 0xb4, 0xcc, 0xbb, 0xcc, 0xc2, 0xcc, 0xc9, 0xcc,
      0xd0, 0xcc, 0xd7, 0xcc, 0xde, 0xcc, 0xe5, 0xcc, 0xec, 0xcc, 0xf3, 0xcc, 0xfa, 0x01, 0x08, 0x0f, 0x16, 0x1d,
      0x24, 0x2b, 0x32, 0x39]"

definition expected_bytes_for_sig :: "byte list" where
  "expected_bytes_for_sig =
     [0x22, 0x29, 0x30, 0x37, 0x3e, 0x45, 0x4c, 0x53, 0x5a, 0x61, 0x68, 0x6f, 0x76, 0x7d, 0x84, 0x8b, 0x92, 0x99,
      0xa0, 0xa7, 0xae, 0xb5, 0xbc, 0xc3, 0xca, 0xd1, 0xd8, 0xdf, 0xe6, 0xed, 0xf4, 0xfb, 0x00, 0xf1, 0x53, 0x65,
      0x00, 0x00, 0x00, 0x00, 0x01, 0x00, 0xfe, 0xca, 0xef, 0xbe, 0xad, 0xde, 0x0d, 0x00, 0x00, 0x00, 0x00, 0x00,
      0x00, 0x00, 0x00, 0x00, 0x00, 0x00, 0x00, 0x00, 0x00, 0x00, 0x00, 0x00, 0x00, 0x00, 0x00, 0x00, 0x00, 0x00,
      0x41, 0x48, 0x4f, 0x56, 0x5d, 0x64, 0x6b, 0x72, 0x79, 0x80, 0x87, 0x8e, 0x95, 0x9c, 0xa3, 0xaa, 0xb1, 0xb8,
      0xbf, 0xc6, 0x32, 0x79, 0x06, 0x00, 0x01, 0x60, 0x67, 0x6e, 0x75, 0x7c, 0x83, 0x8a, 0x91, 0x98, 0x9f, 0xa6,
      0xad, 0xb4, 0xbb, 0xc2, 0xc9, 0xd0, 0xd7, 0xde, 0xe5, 0xec, 0xf3, 0xfa, 0x01, 0x08, 0x0f, 0x16, 0x1d, 0x24,
      0x2b, 0x32, 0x39]"

definition expected_hash :: "byte list" where
  "expected_hash =
     [0xa6, 0x70, 0x5b, 0x89, 0xaf, 0x92, 0x79, 0xe7, 0xe5, 0xc3, 0x8b, 0x05, 0x39, 0xa6, 0x02, 0xd0, 0x2c, 0x97,
      0x16, 0xb6, 0xdc, 0x26, 0x0d, 0xc2, 0xbd, 0xf6, 0x8d, 0x6b, 0x5e, 0x0d, 0x60, 0xcd]"

text \<open>The \<open>proof\<close> of \<open>payment_quote.json\<close>, and \<open>single_node_proof.bin\<close>: tag, headers, seven entries, and the rest.\<close>

definition expected_peer_quotes :: "(byte list \<times> Quote) list" where
  "expected_peer_quotes =
     [([0x39, 0x40, 0x47, 0x4e, 0x55, 0x5c, 0x63, 0x6a, 0x71, 0x78, 0x7f, 0x86, 0x8d, 0x94, 0x9b, 0xa2, 0xa9, 0xb0,
      0xb7, 0xbe, 0xc5, 0xcc, 0xd3, 0xda, 0xe1, 0xe8, 0xef, 0xf6, 0xfd, 0x04, 0x0b, 0x12],
     quote_from_json
     [0x58, 0x5f, 0x66, 0x6d, 0x74, 0x7b, 0x82, 0x89, 0x90, 0x97, 0x9e, 0xa5, 0xac, 0xb3, 0xba, 0xc1, 0xc8, 0xcf,
      0xd6, 0xdd, 0xe4, 0xeb, 0xf2, 0xf9, 0x00, 0x07, 0x0e, 0x15, 0x1c, 0x23, 0x2a, 0x31]
     1700000001 0
     [0x05, 0x16, 0x27, 0x38, 0x49, 0x5a, 0x6b, 0x7c, 0x8d, 0x9e, 0xaf, 0xc0, 0xd1, 0xe2, 0xf3, 0x04, 0x15, 0x26,
      0x37, 0x48, 0x59, 0x6a, 0x7b, 0x8c, 0x9d, 0xae, 0xbf, 0xd0, 0xe1, 0xf2, 0x03, 0x14]
     [0x77, 0x7e, 0x85, 0x8c, 0x93, 0x9a, 0xa1, 0xa8, 0xaf, 0xb6, 0xbd, 0xc4, 0xcb, 0xd2, 0xd9, 0xe0, 0xe7, 0xee,
      0xf5, 0xfc]
     7 1952 9 3309 0
     None),
     ([0x6f, 0x76, 0x7d, 0x84, 0x8b, 0x92, 0x99, 0xa0, 0xa7, 0xae, 0xb5, 0xbc, 0xc3, 0xca, 0xd1, 0xd8, 0xdf, 0xe6,
      0xed, 0xf4, 0xfb, 0x02, 0x09, 0x10, 0x17, 0x1e, 0x25, 0x2c, 0x33, 0x3a, 0x41, 0x48],
     quote_from_json
     [0x58, 0x5f, 0x66, 0x6d, 0x74, 0x7b, 0x82, 0x89, 0x90, 0x97, 0x9e, 0xa5, 0xac, 0xb3, 0xba, 0xc1, 0xc8, 0xcf,
      0xd6, 0xdd, 0xe4, 0xeb, 0xf2, 0xf9, 0x00, 0x07, 0x0e, 0x15, 0x1c, 0x23, 0x2a, 0x31]
     1700000002 999999999
     [0x00, 0x00, 0x00, 0x00, 0x00, 0x00, 0x00, 0x00, 0x00, 0x00, 0x00, 0x00, 0x00, 0x00, 0x00, 0x00, 0x00, 0x00,
      0x00, 0x00, 0x00, 0x00, 0x00, 0x00, 0x00, 0x00, 0x00, 0x00, 0x00, 0x00, 0x00, 0x00]
     [0xad, 0xb4, 0xbb, 0xc2, 0xc9, 0xd0, 0xd7, 0xde, 0xe5, 0xec, 0xf3, 0xfa, 0x01, 0x08, 0x0f, 0x16, 0x1d, 0x24,
      0x2b, 0x32]
     170 1952 255 3309 1
     (Some [0xcc, 0xd3, 0xda, 0xe1, 0xe8, 0xef, 0xf6, 0xfd, 0x04, 0x0b, 0x12, 0x19, 0x20, 0x27, 0x2e, 0x35, 0x3c, 0x43,
      0x4a, 0x51, 0x58, 0x5f, 0x66, 0x6d, 0x74, 0x7b, 0x82, 0x89, 0x90, 0x97, 0x9e, 0xa5])),
     ([0xa5, 0xac, 0xb3, 0xba, 0xc1, 0xc8, 0xcf, 0xd6, 0xdd, 0xe4, 0xeb, 0xf2, 0xf9, 0x00, 0x07, 0x0e, 0x15, 0x1c,
      0x23, 0x2a, 0x31, 0x38, 0x3f, 0x46, 0x4d, 0x54, 0x5b, 0x62, 0x69, 0x70, 0x77, 0x7e],
     quote_from_json
     [0x58, 0x5f, 0x66, 0x6d, 0x74, 0x7b, 0x82, 0x89, 0x90, 0x97, 0x9e, 0xa5, 0xac, 0xb3, 0xba, 0xc1, 0xc8, 0xcf,
      0xd6, 0xdd, 0xe4, 0xeb, 0xf2, 0xf9, 0x00, 0x07, 0x0e, 0x15, 0x1c, 0x23, 0x2a, 0x31]
     1700000003 1
     [0x0f, 0x20, 0x31, 0x42, 0x53, 0x64, 0x75, 0x86, 0x97, 0xa8, 0xb9, 0xca, 0xdb, 0xec, 0xfd, 0x0e, 0x1f, 0x30,
      0x41, 0x52, 0x63, 0x74, 0x85, 0x96, 0xa7, 0xb8, 0xc9, 0xda, 0xeb, 0xfc, 0x0d, 0x1e]
     [0xe3, 0xea, 0xf1, 0xf8, 0xff, 0x06, 0x0d, 0x14, 0x1b, 0x22, 0x29, 0x30, 0x37, 0x3e, 0x45, 0x4c, 0x53, 0x5a,
      0x61, 0x68]
     128 1952 127 3309 4294967295
     (Some [0x00, 0x00, 0x00, 0x00, 0x00, 0x00, 0x00, 0x00, 0x00, 0x00, 0x00, 0x00, 0x00, 0x00, 0x00, 0x00, 0x00, 0x00,
      0x00, 0x00, 0x00, 0x00, 0x00, 0x00, 0x00, 0x00, 0x00, 0x00, 0x00, 0x00, 0x00, 0x00])),
     ([0xdb, 0xe2, 0xe9, 0xf0, 0xf7, 0xfe, 0x05, 0x0c, 0x13, 0x1a, 0x21, 0x28, 0x2f, 0x36, 0x3d, 0x44, 0x4b, 0x52,
      0x59, 0x60, 0x67, 0x6e, 0x75, 0x7c, 0x83, 0x8a, 0x91, 0x98, 0x9f, 0xa6, 0xad, 0xb4],
     quote_from_json
     [0x58, 0x5f, 0x66, 0x6d, 0x74, 0x7b, 0x82, 0x89, 0x90, 0x97, 0x9e, 0xa5, 0xac, 0xb3, 0xba, 0xc1, 0xc8, 0xcf,
      0xd6, 0xdd, 0xe4, 0xeb, 0xf2, 0xf9, 0x00, 0x07, 0x0e, 0x15, 0x1c, 0x23, 0x2a, 0x31]
     0 0
     [0x14, 0x25, 0x36, 0x47, 0x58, 0x69, 0x7a, 0x8b, 0x9c, 0xad, 0xbe, 0xcf, 0xe0, 0xf1, 0x02, 0x13, 0x24, 0x35,
      0x46, 0x57, 0x68, 0x79, 0x8a, 0x9b, 0xac, 0xbd, 0xce, 0xdf, 0xf0, 0x01, 0x12, 0x23]
     [0x19, 0x20, 0x27, 0x2e, 0x35, 0x3c, 0x43, 0x4a, 0x51, 0x58, 0x5f, 0x66, 0x6d, 0x74, 0x7b, 0x82, 0x89, 0x90,
      0x97, 0x9e]
     0 1952 1 3309 300
     None),
     ([0x11, 0x18, 0x1f, 0x26, 0x2d, 0x34, 0x3b, 0x42, 0x49, 0x50, 0x57, 0x5e, 0x65, 0x6c, 0x73, 0x7a, 0x81, 0x88,
      0x8f, 0x96, 0x9d, 0xa4, 0xab, 0xb2, 0xb9, 0xc0, 0xc7, 0xce, 0xd5, 0xdc, 0xe3, 0xea],
     quote_from_json
     [0x58, 0x5f, 0x66, 0x6d, 0x74, 0x7b, 0x82, 0x89, 0x90, 0x97, 0x9e, 0xa5, 0xac, 0xb3, 0xba, 0xc1, 0xc8, 0xcf,
      0xd6, 0xdd, 0xe4, 0xeb, 0xf2, 0xf9, 0x00, 0x07, 0x0e, 0x15, 0x1c, 0x23, 0x2a, 0x31]
     1700000005 500000000
     [0x19, 0x2a, 0x3b, 0x4c, 0x5d, 0x6e, 0x7f, 0x90, 0xa1, 0xb2, 0xc3, 0xd4, 0xe5, 0xf6, 0x07, 0x18, 0x29, 0x3a,
      0x4b, 0x5c, 0x6d, 0x7e, 0x8f, 0xa0, 0xb1, 0xc2, 0xd3, 0xe4, 0xf5, 0x06, 0x17, 0x28]
     [0x4f, 0x56, 0x5d, 0x64, 0x6b, 0x72, 0x79, 0x80, 0x87, 0x8e, 0x95, 0x9c, 0xa3, 0xaa, 0xb1, 0xb8, 0xbf, 0xc6,
      0xcd, 0xd4]
     7 1952 9 3309 65536
     (Some [0x6e, 0x75, 0x7c, 0x83, 0x8a, 0x91, 0x98, 0x9f, 0xa6, 0xad, 0xb4, 0xbb, 0xc2, 0xc9, 0xd0, 0xd7, 0xde, 0xe5,
      0xec, 0xf3, 0xfa, 0x01, 0x08, 0x0f, 0x16, 0x1d, 0x24, 0x2b, 0x32, 0x39, 0x40, 0x47])),
     ([0x47, 0x4e, 0x55, 0x5c, 0x63, 0x6a, 0x71, 0x78, 0x7f, 0x86, 0x8d, 0x94, 0x9b, 0xa2, 0xa9, 0xb0, 0xb7, 0xbe,
      0xc5, 0xcc, 0xd3, 0xda, 0xe1, 0xe8, 0xef, 0xf6, 0xfd, 0x04, 0x0b, 0x12, 0x19, 0x20],
     quote_from_json
     [0x58, 0x5f, 0x66, 0x6d, 0x74, 0x7b, 0x82, 0x89, 0x90, 0x97, 0x9e, 0xa5, 0xac, 0xb3, 0xba, 0xc1, 0xc8, 0xcf,
      0xd6, 0xdd, 0xe4, 0xeb, 0xf2, 0xf9, 0x00, 0x07, 0x0e, 0x15, 0x1c, 0x23, 0x2a, 0x31]
     4294967296 7
     [0xff, 0xff, 0xff, 0xff, 0xff, 0xff, 0xff, 0xff, 0xff, 0xff, 0xff, 0xff, 0xff, 0xff, 0xff, 0xff, 0xff, 0xff,
      0xff, 0xff, 0xff, 0xff, 0xff, 0xff, 0xff, 0xff, 0xff, 0xff, 0xff, 0xff, 0xff, 0xff]
     [0x85, 0x8c, 0x93, 0x9a, 0xa1, 0xa8, 0xaf, 0xb6, 0xbd, 0xc4, 0xcb, 0xd2, 0xd9, 0xe0, 0xe7, 0xee, 0xf5, 0xfc,
      0x03, 0x0a]
     7 1952 9 3309 0
     None),
     ([0x7d, 0x84, 0x8b, 0x92, 0x99, 0xa0, 0xa7, 0xae, 0xb5, 0xbc, 0xc3, 0xca, 0xd1, 0xd8, 0xdf, 0xe6, 0xed, 0xf4,
      0xfb, 0x02, 0x09, 0x10, 0x17, 0x1e, 0x25, 0x2c, 0x33, 0x3a, 0x41, 0x48, 0x4f, 0x56],
     quote_from_json
     [0x58, 0x5f, 0x66, 0x6d, 0x74, 0x7b, 0x82, 0x89, 0x90, 0x97, 0x9e, 0xa5, 0xac, 0xb3, 0xba, 0xc1, 0xc8, 0xcf,
      0xd6, 0xdd, 0xe4, 0xeb, 0xf2, 0xf9, 0x00, 0x07, 0x0e, 0x15, 0x1c, 0x23, 0x2a, 0x31]
     1700000007 42
     [0x23, 0x34, 0x45, 0x56, 0x67, 0x78, 0x89, 0x9a, 0xab, 0xbc, 0xcd, 0xde, 0xef, 0x00, 0x11, 0x22, 0x33, 0x44,
      0x55, 0x66, 0x77, 0x88, 0x99, 0xaa, 0xbb, 0xcc, 0xdd, 0xee, 0xff, 0x10, 0x21, 0x32]
     [0xbb, 0xc2, 0xc9, 0xd0, 0xd7, 0xde, 0xe5, 0xec, 0xf3, 0xfa, 0x01, 0x08, 0x0f, 0x16, 0x1d, 0x24, 0x2b, 0x32,
      0x39, 0x40]
     7 1952 9 3309 128
     (Some [0xda, 0xe1, 0xe8, 0xef, 0xf6, 0xfd, 0x04, 0x0b, 0x12, 0x19, 0x20, 0x27, 0x2e, 0x35, 0x3c, 0x43, 0x4a, 0x51,
      0x58, 0x5f, 0x66, 0x6d, 0x74, 0x7b, 0x82, 0x89, 0x90, 0x97, 0x9e, 0xa5, 0xac, 0xb3]))]"

definition expected_tx_hash :: "byte list" where
  "expected_tx_hash =
     [0xe9, 0xf0, 0xf7, 0xfe, 0x05, 0x0c, 0x13, 0x1a, 0x21, 0x28, 0x2f, 0x36, 0x3d, 0x44, 0x4b, 0x52, 0x59, 0x60,
      0x67, 0x6e, 0x75, 0x7c, 0x83, 0x8a, 0x91, 0x98, 0x9f, 0xa6, 0xad, 0xb4, 0xbb, 0xc2]"

definition expected_sidecars :: "byte list list" where
  "expected_sidecars =
     [[0x08, 0x0f, 0x16, 0x1d, 0x24, 0x2b, 0x32, 0x39, 0x40, 0x47, 0x4e, 0x55, 0x5c, 0x63, 0x6a, 0x71, 0x78, 0x7f,
      0x86, 0x8d, 0x94, 0x9b, 0xa2, 0xa9, 0xb0, 0xb7, 0xbe, 0xc5, 0xcc, 0xd3, 0xda, 0xe1, 0xe8, 0xef, 0xf6, 0xfd, 0x04],
     [0x27, 0x2e, 0x35, 0x3c, 0x43, 0x4a, 0x51, 0x58, 0x5f, 0x66, 0x6d, 0x74, 0x7b, 0x82, 0x89, 0x90, 0x97, 0x9e,
      0xa5, 0xac, 0xb3, 0xba, 0xc1, 0xc8, 0xcf, 0xd6, 0xdd, 0xe4, 0xeb, 0xf2, 0xf9, 0x00, 0x07, 0x0e, 0x15, 0x1c,
      0x23, 0x2a, 0x31, 0x38, 0x3f, 0x46, 0x4d, 0x54, 0x5b, 0x62, 0x69, 0x70, 0x77, 0x7e, 0x85, 0x8c, 0x93, 0x9a,
      0xa1, 0xa8, 0xaf, 0xb6, 0xbd, 0xc4, 0xcb, 0xd2, 0xd9, 0xe0, 0xe7, 0xee, 0xf5, 0xfc, 0x03, 0x0a, 0x11, 0x18,
      0x1f, 0x26, 0x2d, 0x34, 0x3b, 0x42, 0x49, 0x50, 0x57, 0x5e, 0x65, 0x6c, 0x73, 0x7a, 0x81, 0x88, 0x8f, 0x96,
      0x9d, 0xa4, 0xab, 0xb2, 0xb9, 0xc0, 0xc7, 0xce, 0xd5, 0xdc, 0xe3, 0xea, 0xf1, 0xf8, 0xff, 0x06, 0x0d, 0x14,
      0x1b, 0x22, 0x29, 0x30, 0x37, 0x3e, 0x45, 0x4c, 0x53, 0x5a, 0x61, 0x68, 0x6f, 0x76, 0x7d, 0x84, 0x8b, 0x92,
      0x99, 0xa0, 0xa7, 0xae, 0xb5, 0xbc, 0xc3, 0xca, 0xd1, 0xd8, 0xdf, 0xe6, 0xed, 0xf4, 0xfb, 0x02, 0x09, 0x10,
      0x17, 0x1e, 0x25, 0x2c, 0x33, 0x3a, 0x41, 0x48, 0x4f, 0x56, 0x5d, 0x64, 0x6b, 0x72, 0x79, 0x80, 0x87, 0x8e,
      0x95, 0x9c, 0xa3, 0xaa, 0xb1, 0xb8, 0xbf, 0xc6, 0xcd, 0xd4, 0xdb, 0xe2, 0xe9, 0xf0, 0xf7, 0xfe, 0x05, 0x0c,
      0x13, 0x1a, 0x21, 0x28, 0x2f, 0x36, 0x3d, 0x44, 0x4b, 0x52, 0x59, 0x60, 0x67, 0x6e, 0x75, 0x7c, 0x83, 0x8a,
      0x91, 0x98, 0x9f, 0xa6, 0xad, 0xb4, 0xbb, 0xc2, 0xc9, 0xd0, 0xd7, 0xde, 0xe5, 0xec, 0xf3, 0xfa, 0x01, 0x08,
      0x0f, 0x16, 0x1d, 0x24, 0x2b, 0x32, 0x39, 0x40, 0x47, 0x4e, 0x55, 0x5c, 0x63, 0x6a, 0x71, 0x78, 0x7f, 0x86,
      0x8d, 0x94, 0x9b, 0xa2, 0xa9, 0xb0, 0xb7, 0xbe, 0xc5, 0xcc, 0xd3, 0xda, 0xe1, 0xe8, 0xef, 0xf6, 0xfd, 0x04,
      0x0b, 0x12, 0x19, 0x20, 0x27, 0x2e, 0x35, 0x3c, 0x43, 0x4a, 0x51, 0x58, 0x5f, 0x66, 0x6d, 0x74, 0x7b, 0x82,
      0x89, 0x90, 0x97, 0x9e, 0xa5, 0xac, 0xb3, 0xba, 0xc1, 0xc8, 0xcf, 0xd6, 0xdd, 0xe4, 0xeb, 0xf2, 0xf9, 0x00,
      0x07, 0x0e, 0x15, 0x1c, 0x23, 0x2a, 0x31, 0x38, 0x3f, 0x46, 0x4d, 0x54, 0x5b, 0x62, 0x69, 0x70, 0x77, 0x7e,
      0x85, 0x8c, 0x93, 0x9a, 0xa1, 0xa8, 0xaf, 0xb6, 0xbd, 0xc4, 0xcb, 0xd2, 0xd9, 0xe0, 0xe7, 0xee, 0xf5, 0xfc,
      0x03, 0x0a, 0x11, 0x18, 0x1f, 0x26, 0x2d, 0x34, 0x3b, 0x42, 0x49, 0x50, 0x57, 0x5e, 0x65, 0x6c, 0x73, 0x7a,
      0x81, 0x88, 0x8f, 0x96, 0x9d, 0xa4, 0xab, 0xb2, 0xb9, 0xc0, 0xc7, 0xce, 0xd5, 0xdc, 0xe3, 0xea, 0xf1, 0xf8,
      0xff, 0x06, 0x0d, 0x14, 0x1b, 0x22, 0x29, 0x30, 0x37, 0x3e, 0x45, 0x4c, 0x53, 0x5a, 0x61, 0x68, 0x6f, 0x76,
      0x7d, 0x84, 0x8b, 0x92, 0x99, 0xa0, 0xa7, 0xae, 0xb5, 0xbc, 0xc3, 0xca, 0xd1, 0xd8, 0xdf, 0xe6, 0xed, 0xf4,
      0xfb, 0x02, 0x09, 0x10, 0x17, 0x1e, 0x25, 0x2c, 0x33, 0x3a, 0x41, 0x48, 0x4f, 0x56, 0x5d, 0x64, 0x6b, 0x72,
      0x79, 0x80, 0x87, 0x8e, 0x95, 0x9c, 0xa3, 0xaa, 0xb1, 0xb8, 0xbf, 0xc6, 0xcd, 0xd4, 0xdb, 0xe2, 0xe9, 0xf0,
      0xf7, 0xfe, 0x05, 0x0c, 0x13, 0x1a, 0x21, 0x28, 0x2f, 0x36, 0x3d, 0x44, 0x4b, 0x52, 0x59, 0x60, 0x67, 0x6e,
      0x75, 0x7c, 0x83, 0x8a, 0x91, 0x98, 0x9f, 0xa6, 0xad, 0xb4, 0xbb, 0xc2, 0xc9, 0xd0, 0xd7, 0xde, 0xe5, 0xec,
      0xf3, 0xfa, 0x01, 0x08, 0x0f, 0x16, 0x1d, 0x24, 0x2b, 0x32, 0x39, 0x40, 0x47, 0x4e, 0x55, 0x5c, 0x63, 0x6a,
      0x71, 0x78, 0x7f, 0x86, 0x8d, 0x94, 0x9b, 0xa2, 0xa9, 0xb0, 0xb7, 0xbe, 0xc5, 0xcc, 0xd3, 0xda, 0xe1, 0xe8,
      0xef, 0xf6, 0xfd, 0x04, 0x0b, 0x12, 0x19, 0x20, 0x27, 0x2e, 0x35, 0x3c, 0x43, 0x4a, 0x51, 0x58, 0x5f, 0x66,
      0x6d, 0x74, 0x7b, 0x82, 0x89, 0x90, 0x97, 0x9e, 0xa5, 0xac, 0xb3, 0xba, 0xc1, 0xc8, 0xcf, 0xd6, 0xdd, 0xe4,
      0xeb, 0xf2, 0xf9, 0x00, 0x07, 0x0e, 0x15, 0x1c, 0x23, 0x2a, 0x31, 0x38, 0x3f, 0x46, 0x4d, 0x54, 0x5b, 0x62,
      0x69, 0x70, 0x77, 0x7e, 0x85, 0x8c, 0x93, 0x9a, 0xa1, 0xa8, 0xaf, 0xb6, 0xbd, 0xc4, 0xcb, 0xd2, 0xd9, 0xe0,
      0xe7, 0xee, 0xf5, 0xfc, 0x03, 0x0a, 0x11, 0x18, 0x1f, 0x26, 0x2d, 0x34, 0x3b, 0x42, 0x49, 0x50, 0x57, 0x5e,
      0x65, 0x6c, 0x73, 0x7a, 0x81, 0x88]]"

definition PROOF_ENTRIES :: "byte list list" where
  "PROOF_ENTRIES =
     [[0x92, 0xdc, 0x00, 0x20, 0x39, 0x40, 0x47, 0x4e, 0x55, 0x5c, 0x63, 0x6a, 0x71, 0x78, 0x7f, 0xcc, 0x86, 0xcc,
      0x8d, 0xcc, 0x94, 0xcc, 0x9b, 0xcc, 0xa2, 0xcc, 0xa9, 0xcc, 0xb0, 0xcc, 0xb7, 0xcc, 0xbe, 0xcc, 0xc5, 0xcc,
      0xcc, 0xcc, 0xd3, 0xcc, 0xda, 0xcc, 0xe1, 0xcc, 0xe8, 0xcc, 0xef, 0xcc, 0xf6, 0xcc, 0xfd, 0x04, 0x0b, 0x12,
      0x98, 0xdc, 0x00, 0x20, 0x58, 0x5f, 0x66, 0x6d, 0x74, 0x7b, 0xcc, 0x82, 0xcc, 0x89, 0xcc, 0x90, 0xcc, 0x97,
      0xcc, 0x9e, 0xcc, 0xa5, 0xcc, 0xac, 0xcc, 0xb3, 0xcc, 0xba, 0xcc, 0xc1, 0xcc, 0xc8, 0xcc, 0xcf, 0xcc, 0xd6,
      0xcc, 0xdd, 0xcc, 0xe4, 0xcc, 0xeb, 0xcc, 0xf2, 0xcc, 0xf9, 0x00, 0x07, 0x0e, 0x15, 0x1c, 0x23, 0x2a, 0x31,
      0x92, 0xce, 0x65, 0x53, 0xf1, 0x01, 0x00, 0xc4, 0x20, 0x05, 0x16, 0x27, 0x38, 0x49, 0x5a, 0x6b, 0x7c, 0x8d,
      0x9e, 0xaf, 0xc0, 0xd1, 0xe2, 0xf3, 0x04, 0x15, 0x26, 0x37, 0x48, 0x59, 0x6a, 0x7b, 0x8c, 0x9d, 0xae, 0xbf,
      0xd0, 0xe1, 0xf2, 0x03, 0x14, 0xc4, 0x14, 0x77, 0x7e, 0x85, 0x8c, 0x93, 0x9a, 0xa1, 0xa8, 0xaf, 0xb6, 0xbd,
      0xc4, 0xcb, 0xd2, 0xd9, 0xe0, 0xe7, 0xee, 0xf5, 0xfc, 0xdc, 0x07, 0xa0]
     @ replicate 1952 0x07 @ [0xdc, 0x0c, 0xed] @ replicate 3309 0x09
     @ [0x00, 0xc0],
     [0x92, 0xdc, 0x00, 0x20, 0x6f, 0x76, 0x7d, 0xcc, 0x84, 0xcc, 0x8b, 0xcc, 0x92, 0xcc, 0x99, 0xcc, 0xa0, 0xcc,
      0xa7, 0xcc, 0xae, 0xcc, 0xb5, 0xcc, 0xbc, 0xcc, 0xc3, 0xcc, 0xca, 0xcc, 0xd1, 0xcc, 0xd8, 0xcc, 0xdf, 0xcc,
      0xe6, 0xcc, 0xed, 0xcc, 0xf4, 0xcc, 0xfb, 0x02, 0x09, 0x10, 0x17, 0x1e, 0x25, 0x2c, 0x33, 0x3a, 0x41, 0x48,
      0x98, 0xdc, 0x00, 0x20, 0x58, 0x5f, 0x66, 0x6d, 0x74, 0x7b, 0xcc, 0x82, 0xcc, 0x89, 0xcc, 0x90, 0xcc, 0x97,
      0xcc, 0x9e, 0xcc, 0xa5, 0xcc, 0xac, 0xcc, 0xb3, 0xcc, 0xba, 0xcc, 0xc1, 0xcc, 0xc8, 0xcc, 0xcf, 0xcc, 0xd6,
      0xcc, 0xdd, 0xcc, 0xe4, 0xcc, 0xeb, 0xcc, 0xf2, 0xcc, 0xf9, 0x00, 0x07, 0x0e, 0x15, 0x1c, 0x23, 0x2a, 0x31,
      0x92, 0xce, 0x65, 0x53, 0xf1, 0x02, 0xce, 0x3b, 0x9a, 0xc9, 0xff, 0xc4, 0x20, 0x00, 0x00, 0x00, 0x00, 0x00,
      0x00, 0x00, 0x00, 0x00, 0x00, 0x00, 0x00, 0x00, 0x00, 0x00, 0x00, 0x00, 0x00, 0x00, 0x00, 0x00, 0x00, 0x00,
      0x00, 0x00, 0x00, 0x00, 0x00, 0x00, 0x00, 0x00, 0x00, 0xc4, 0x14, 0xad, 0xb4, 0xbb, 0xc2, 0xc9, 0xd0, 0xd7,
      0xde, 0xe5, 0xec, 0xf3, 0xfa, 0x01, 0x08, 0x0f, 0x16, 0x1d, 0x24, 0x2b, 0x32, 0xdc, 0x07, 0xa0]
     @ concat (replicate 1952 [0xcc, 0xaa]) @ [0xdc, 0x0c, 0xed] @ concat (replicate 3309 [0xcc, 0xff])
     @ [0x01, 0xdc, 0x00, 0x20, 0xcc, 0xcc, 0xcc, 0xd3, 0xcc, 0xda, 0xcc, 0xe1, 0xcc, 0xe8, 0xcc, 0xef, 0xcc, 0xf6,
      0xcc, 0xfd, 0x04, 0x0b, 0x12, 0x19, 0x20, 0x27, 0x2e, 0x35, 0x3c, 0x43, 0x4a, 0x51, 0x58, 0x5f, 0x66, 0x6d,
      0x74, 0x7b, 0xcc, 0x82, 0xcc, 0x89, 0xcc, 0x90, 0xcc, 0x97, 0xcc, 0x9e, 0xcc, 0xa5],
     [0x92, 0xdc, 0x00, 0x20, 0xcc, 0xa5, 0xcc, 0xac, 0xcc, 0xb3, 0xcc, 0xba, 0xcc, 0xc1, 0xcc, 0xc8, 0xcc, 0xcf,
      0xcc, 0xd6, 0xcc, 0xdd, 0xcc, 0xe4, 0xcc, 0xeb, 0xcc, 0xf2, 0xcc, 0xf9, 0x00, 0x07, 0x0e, 0x15, 0x1c, 0x23,
      0x2a, 0x31, 0x38, 0x3f, 0x46, 0x4d, 0x54, 0x5b, 0x62, 0x69, 0x70, 0x77, 0x7e, 0x98, 0xdc, 0x00, 0x20, 0x58,
      0x5f, 0x66, 0x6d, 0x74, 0x7b, 0xcc, 0x82, 0xcc, 0x89, 0xcc, 0x90, 0xcc, 0x97, 0xcc, 0x9e, 0xcc, 0xa5, 0xcc,
      0xac, 0xcc, 0xb3, 0xcc, 0xba, 0xcc, 0xc1, 0xcc, 0xc8, 0xcc, 0xcf, 0xcc, 0xd6, 0xcc, 0xdd, 0xcc, 0xe4, 0xcc,
      0xeb, 0xcc, 0xf2, 0xcc, 0xf9, 0x00, 0x07, 0x0e, 0x15, 0x1c, 0x23, 0x2a, 0x31, 0x92, 0xce, 0x65, 0x53, 0xf1,
      0x03, 0x01, 0xc4, 0x20, 0x0f, 0x20, 0x31, 0x42, 0x53, 0x64, 0x75, 0x86, 0x97, 0xa8, 0xb9, 0xca, 0xdb, 0xec,
      0xfd, 0x0e, 0x1f, 0x30, 0x41, 0x52, 0x63, 0x74, 0x85, 0x96, 0xa7, 0xb8, 0xc9, 0xda, 0xeb, 0xfc, 0x0d, 0x1e,
      0xc4, 0x14, 0xe3, 0xea, 0xf1, 0xf8, 0xff, 0x06, 0x0d, 0x14, 0x1b, 0x22, 0x29, 0x30, 0x37, 0x3e, 0x45, 0x4c,
      0x53, 0x5a, 0x61, 0x68, 0xdc, 0x07, 0xa0]
     @ concat (replicate 1952 [0xcc, 0x80]) @ [0xdc, 0x0c, 0xed] @ replicate 3309 0x7f
     @ [0xce, 0xff, 0xff, 0xff, 0xff, 0xdc, 0x00, 0x20, 0x00, 0x00, 0x00, 0x00, 0x00, 0x00, 0x00, 0x00, 0x00, 0x00,
      0x00, 0x00, 0x00, 0x00, 0x00, 0x00, 0x00, 0x00, 0x00, 0x00, 0x00, 0x00, 0x00, 0x00, 0x00, 0x00, 0x00, 0x00,
      0x00, 0x00, 0x00, 0x00],
     [0x92, 0xdc, 0x00, 0x20, 0xcc, 0xdb, 0xcc, 0xe2, 0xcc, 0xe9, 0xcc, 0xf0, 0xcc, 0xf7, 0xcc, 0xfe, 0x05, 0x0c,
      0x13, 0x1a, 0x21, 0x28, 0x2f, 0x36, 0x3d, 0x44, 0x4b, 0x52, 0x59, 0x60, 0x67, 0x6e, 0x75, 0x7c, 0xcc, 0x83,
      0xcc, 0x8a, 0xcc, 0x91, 0xcc, 0x98, 0xcc, 0x9f, 0xcc, 0xa6, 0xcc, 0xad, 0xcc, 0xb4, 0x98, 0xdc, 0x00, 0x20,
      0x58, 0x5f, 0x66, 0x6d, 0x74, 0x7b, 0xcc, 0x82, 0xcc, 0x89, 0xcc, 0x90, 0xcc, 0x97, 0xcc, 0x9e, 0xcc, 0xa5,
      0xcc, 0xac, 0xcc, 0xb3, 0xcc, 0xba, 0xcc, 0xc1, 0xcc, 0xc8, 0xcc, 0xcf, 0xcc, 0xd6, 0xcc, 0xdd, 0xcc, 0xe4,
      0xcc, 0xeb, 0xcc, 0xf2, 0xcc, 0xf9, 0x00, 0x07, 0x0e, 0x15, 0x1c, 0x23, 0x2a, 0x31, 0x92, 0x00, 0x00, 0xc4,
      0x20, 0x14, 0x25, 0x36, 0x47, 0x58, 0x69, 0x7a, 0x8b, 0x9c, 0xad, 0xbe, 0xcf, 0xe0, 0xf1, 0x02, 0x13, 0x24,
      0x35, 0x46, 0x57, 0x68, 0x79, 0x8a, 0x9b, 0xac, 0xbd, 0xce, 0xdf, 0xf0, 0x01, 0x12, 0x23, 0xc4, 0x14, 0x19,
      0x20, 0x27, 0x2e, 0x35, 0x3c, 0x43, 0x4a, 0x51, 0x58, 0x5f, 0x66, 0x6d, 0x74, 0x7b, 0x82, 0x89, 0x90, 0x97,
      0x9e, 0xdc, 0x07, 0xa0]
     @ replicate 1952 0x00 @ [0xdc, 0x0c, 0xed] @ replicate 3309 0x01
     @ [0xcd, 0x01, 0x2c, 0xc0],
     [0x92, 0xdc, 0x00, 0x20, 0x11, 0x18, 0x1f, 0x26, 0x2d, 0x34, 0x3b, 0x42, 0x49, 0x50, 0x57, 0x5e, 0x65, 0x6c,
      0x73, 0x7a, 0xcc, 0x81, 0xcc, 0x88, 0xcc, 0x8f, 0xcc, 0x96, 0xcc, 0x9d, 0xcc, 0xa4, 0xcc, 0xab, 0xcc, 0xb2,
      0xcc, 0xb9, 0xcc, 0xc0, 0xcc, 0xc7, 0xcc, 0xce, 0xcc, 0xd5, 0xcc, 0xdc, 0xcc, 0xe3, 0xcc, 0xea, 0x98, 0xdc,
      0x00, 0x20, 0x58, 0x5f, 0x66, 0x6d, 0x74, 0x7b, 0xcc, 0x82, 0xcc, 0x89, 0xcc, 0x90, 0xcc, 0x97, 0xcc, 0x9e,
      0xcc, 0xa5, 0xcc, 0xac, 0xcc, 0xb3, 0xcc, 0xba, 0xcc, 0xc1, 0xcc, 0xc8, 0xcc, 0xcf, 0xcc, 0xd6, 0xcc, 0xdd,
      0xcc, 0xe4, 0xcc, 0xeb, 0xcc, 0xf2, 0xcc, 0xf9, 0x00, 0x07, 0x0e, 0x15, 0x1c, 0x23, 0x2a, 0x31, 0x92, 0xce,
      0x65, 0x53, 0xf1, 0x05, 0xce, 0x1d, 0xcd, 0x65, 0x00, 0xc4, 0x20, 0x19, 0x2a, 0x3b, 0x4c, 0x5d, 0x6e, 0x7f,
      0x90, 0xa1, 0xb2, 0xc3, 0xd4, 0xe5, 0xf6, 0x07, 0x18, 0x29, 0x3a, 0x4b, 0x5c, 0x6d, 0x7e, 0x8f, 0xa0, 0xb1,
      0xc2, 0xd3, 0xe4, 0xf5, 0x06, 0x17, 0x28, 0xc4, 0x14, 0x4f, 0x56, 0x5d, 0x64, 0x6b, 0x72, 0x79, 0x80, 0x87,
      0x8e, 0x95, 0x9c, 0xa3, 0xaa, 0xb1, 0xb8, 0xbf, 0xc6, 0xcd, 0xd4, 0xdc, 0x07, 0xa0]
     @ replicate 1952 0x07 @ [0xdc, 0x0c, 0xed] @ replicate 3309 0x09
     @ [0xce, 0x00, 0x01, 0x00, 0x00, 0xdc, 0x00, 0x20, 0x6e, 0x75, 0x7c, 0xcc, 0x83, 0xcc, 0x8a, 0xcc, 0x91, 0xcc,
      0x98, 0xcc, 0x9f, 0xcc, 0xa6, 0xcc, 0xad, 0xcc, 0xb4, 0xcc, 0xbb, 0xcc, 0xc2, 0xcc, 0xc9, 0xcc, 0xd0, 0xcc,
      0xd7, 0xcc, 0xde, 0xcc, 0xe5, 0xcc, 0xec, 0xcc, 0xf3, 0xcc, 0xfa, 0x01, 0x08, 0x0f, 0x16, 0x1d, 0x24, 0x2b,
      0x32, 0x39, 0x40, 0x47],
     [0x92, 0xdc, 0x00, 0x20, 0x47, 0x4e, 0x55, 0x5c, 0x63, 0x6a, 0x71, 0x78, 0x7f, 0xcc, 0x86, 0xcc, 0x8d, 0xcc,
      0x94, 0xcc, 0x9b, 0xcc, 0xa2, 0xcc, 0xa9, 0xcc, 0xb0, 0xcc, 0xb7, 0xcc, 0xbe, 0xcc, 0xc5, 0xcc, 0xcc, 0xcc,
      0xd3, 0xcc, 0xda, 0xcc, 0xe1, 0xcc, 0xe8, 0xcc, 0xef, 0xcc, 0xf6, 0xcc, 0xfd, 0x04, 0x0b, 0x12, 0x19, 0x20,
      0x98, 0xdc, 0x00, 0x20, 0x58, 0x5f, 0x66, 0x6d, 0x74, 0x7b, 0xcc, 0x82, 0xcc, 0x89, 0xcc, 0x90, 0xcc, 0x97,
      0xcc, 0x9e, 0xcc, 0xa5, 0xcc, 0xac, 0xcc, 0xb3, 0xcc, 0xba, 0xcc, 0xc1, 0xcc, 0xc8, 0xcc, 0xcf, 0xcc, 0xd6,
      0xcc, 0xdd, 0xcc, 0xe4, 0xcc, 0xeb, 0xcc, 0xf2, 0xcc, 0xf9, 0x00, 0x07, 0x0e, 0x15, 0x1c, 0x23, 0x2a, 0x31,
      0x92, 0xcf, 0x00, 0x00, 0x00, 0x01, 0x00, 0x00, 0x00, 0x00, 0x07, 0xc4, 0x20, 0xff, 0xff, 0xff, 0xff, 0xff,
      0xff, 0xff, 0xff, 0xff, 0xff, 0xff, 0xff, 0xff, 0xff, 0xff, 0xff, 0xff, 0xff, 0xff, 0xff, 0xff, 0xff, 0xff,
      0xff, 0xff, 0xff, 0xff, 0xff, 0xff, 0xff, 0xff, 0xff, 0xc4, 0x14, 0x85, 0x8c, 0x93, 0x9a, 0xa1, 0xa8, 0xaf,
      0xb6, 0xbd, 0xc4, 0xcb, 0xd2, 0xd9, 0xe0, 0xe7, 0xee, 0xf5, 0xfc, 0x03, 0x0a, 0xdc, 0x07, 0xa0]
     @ replicate 1952 0x07 @ [0xdc, 0x0c, 0xed] @ replicate 3309 0x09
     @ [0x00, 0xc0],
     [0x92, 0xdc, 0x00, 0x20, 0x7d, 0xcc, 0x84, 0xcc, 0x8b, 0xcc, 0x92, 0xcc, 0x99, 0xcc, 0xa0, 0xcc, 0xa7, 0xcc,
      0xae, 0xcc, 0xb5, 0xcc, 0xbc, 0xcc, 0xc3, 0xcc, 0xca, 0xcc, 0xd1, 0xcc, 0xd8, 0xcc, 0xdf, 0xcc, 0xe6, 0xcc,
      0xed, 0xcc, 0xf4, 0xcc, 0xfb, 0x02, 0x09, 0x10, 0x17, 0x1e, 0x25, 0x2c, 0x33, 0x3a, 0x41, 0x48, 0x4f, 0x56,
      0x98, 0xdc, 0x00, 0x20, 0x58, 0x5f, 0x66, 0x6d, 0x74, 0x7b, 0xcc, 0x82, 0xcc, 0x89, 0xcc, 0x90, 0xcc, 0x97,
      0xcc, 0x9e, 0xcc, 0xa5, 0xcc, 0xac, 0xcc, 0xb3, 0xcc, 0xba, 0xcc, 0xc1, 0xcc, 0xc8, 0xcc, 0xcf, 0xcc, 0xd6,
      0xcc, 0xdd, 0xcc, 0xe4, 0xcc, 0xeb, 0xcc, 0xf2, 0xcc, 0xf9, 0x00, 0x07, 0x0e, 0x15, 0x1c, 0x23, 0x2a, 0x31,
      0x92, 0xce, 0x65, 0x53, 0xf1, 0x07, 0x2a, 0xc4, 0x20, 0x23, 0x34, 0x45, 0x56, 0x67, 0x78, 0x89, 0x9a, 0xab,
      0xbc, 0xcd, 0xde, 0xef, 0x00, 0x11, 0x22, 0x33, 0x44, 0x55, 0x66, 0x77, 0x88, 0x99, 0xaa, 0xbb, 0xcc, 0xdd,
      0xee, 0xff, 0x10, 0x21, 0x32, 0xc4, 0x14, 0xbb, 0xc2, 0xc9, 0xd0, 0xd7, 0xde, 0xe5, 0xec, 0xf3, 0xfa, 0x01,
      0x08, 0x0f, 0x16, 0x1d, 0x24, 0x2b, 0x32, 0x39, 0x40, 0xdc, 0x07, 0xa0]
     @ replicate 1952 0x07 @ [0xdc, 0x0c, 0xed] @ replicate 3309 0x09
     @ [0xcc, 0x80, 0xdc, 0x00, 0x20, 0xcc, 0xda, 0xcc, 0xe1, 0xcc, 0xe8, 0xcc, 0xef, 0xcc, 0xf6, 0xcc, 0xfd, 0x04,
      0x0b, 0x12, 0x19, 0x20, 0x27, 0x2e, 0x35, 0x3c, 0x43, 0x4a, 0x51, 0x58, 0x5f, 0x66, 0x6d, 0x74, 0x7b, 0xcc,
      0x82, 0xcc, 0x89, 0xcc, 0x90, 0xcc, 0x97, 0xcc, 0x9e, 0xcc, 0xa5, 0xcc, 0xac, 0xcc, 0xb3]]"

definition PROOF_TAIL :: "byte list" where
  "PROOF_TAIL =
     [0x91, 0xc4, 0x20, 0xe9, 0xf0, 0xf7, 0xfe, 0x05, 0x0c, 0x13, 0x1a, 0x21, 0x28, 0x2f, 0x36, 0x3d, 0x44, 0x4b,
      0x52, 0x59, 0x60, 0x67, 0x6e, 0x75, 0x7c, 0x83, 0x8a, 0x91, 0x98, 0x9f, 0xa6, 0xad, 0xb4, 0xbb, 0xc2, 0x92,
      0xdc, 0x00, 0x25, 0x08, 0x0f, 0x16, 0x1d, 0x24, 0x2b, 0x32, 0x39, 0x40, 0x47, 0x4e, 0x55, 0x5c, 0x63, 0x6a,
      0x71, 0x78, 0x7f, 0xcc, 0x86, 0xcc, 0x8d, 0xcc, 0x94, 0xcc, 0x9b, 0xcc, 0xa2, 0xcc, 0xa9, 0xcc, 0xb0, 0xcc,
      0xb7, 0xcc, 0xbe, 0xcc, 0xc5, 0xcc, 0xcc, 0xcc, 0xd3, 0xcc, 0xda, 0xcc, 0xe1, 0xcc, 0xe8, 0xcc, 0xef, 0xcc,
      0xf6, 0xcc, 0xfd, 0x04, 0xdc, 0x02, 0x58, 0x27, 0x2e, 0x35, 0x3c, 0x43, 0x4a, 0x51, 0x58, 0x5f, 0x66, 0x6d,
      0x74, 0x7b, 0xcc, 0x82, 0xcc, 0x89, 0xcc, 0x90, 0xcc, 0x97, 0xcc, 0x9e, 0xcc, 0xa5, 0xcc, 0xac, 0xcc, 0xb3,
      0xcc, 0xba, 0xcc, 0xc1, 0xcc, 0xc8, 0xcc, 0xcf, 0xcc, 0xd6, 0xcc, 0xdd, 0xcc, 0xe4, 0xcc, 0xeb, 0xcc, 0xf2,
      0xcc, 0xf9, 0x00, 0x07, 0x0e, 0x15, 0x1c, 0x23, 0x2a, 0x31, 0x38, 0x3f, 0x46, 0x4d, 0x54, 0x5b, 0x62, 0x69,
      0x70, 0x77, 0x7e, 0xcc, 0x85, 0xcc, 0x8c, 0xcc, 0x93, 0xcc, 0x9a, 0xcc, 0xa1, 0xcc, 0xa8, 0xcc, 0xaf, 0xcc,
      0xb6, 0xcc, 0xbd, 0xcc, 0xc4, 0xcc, 0xcb, 0xcc, 0xd2, 0xcc, 0xd9, 0xcc, 0xe0, 0xcc, 0xe7, 0xcc, 0xee, 0xcc,
      0xf5, 0xcc, 0xfc, 0x03, 0x0a, 0x11, 0x18, 0x1f, 0x26, 0x2d, 0x34, 0x3b, 0x42, 0x49, 0x50, 0x57, 0x5e, 0x65,
      0x6c, 0x73, 0x7a, 0xcc, 0x81, 0xcc, 0x88, 0xcc, 0x8f, 0xcc, 0x96, 0xcc, 0x9d, 0xcc, 0xa4, 0xcc, 0xab, 0xcc,
      0xb2, 0xcc, 0xb9, 0xcc, 0xc0, 0xcc, 0xc7, 0xcc, 0xce, 0xcc, 0xd5, 0xcc, 0xdc, 0xcc, 0xe3, 0xcc, 0xea, 0xcc,
      0xf1, 0xcc, 0xf8, 0xcc, 0xff, 0x06, 0x0d, 0x14, 0x1b, 0x22, 0x29, 0x30, 0x37, 0x3e, 0x45, 0x4c, 0x53, 0x5a,
      0x61, 0x68, 0x6f, 0x76, 0x7d, 0xcc, 0x84, 0xcc, 0x8b, 0xcc, 0x92, 0xcc, 0x99, 0xcc, 0xa0, 0xcc, 0xa7, 0xcc,
      0xae, 0xcc, 0xb5, 0xcc, 0xbc, 0xcc, 0xc3, 0xcc, 0xca, 0xcc, 0xd1, 0xcc, 0xd8, 0xcc, 0xdf, 0xcc, 0xe6, 0xcc,
      0xed, 0xcc, 0xf4, 0xcc, 0xfb, 0x02, 0x09, 0x10, 0x17, 0x1e, 0x25, 0x2c, 0x33, 0x3a, 0x41, 0x48, 0x4f, 0x56,
      0x5d, 0x64, 0x6b, 0x72, 0x79, 0xcc, 0x80, 0xcc, 0x87, 0xcc, 0x8e, 0xcc, 0x95, 0xcc, 0x9c, 0xcc, 0xa3, 0xcc,
      0xaa, 0xcc, 0xb1, 0xcc, 0xb8, 0xcc, 0xbf, 0xcc, 0xc6, 0xcc, 0xcd, 0xcc, 0xd4, 0xcc, 0xdb, 0xcc, 0xe2, 0xcc,
      0xe9, 0xcc, 0xf0, 0xcc, 0xf7, 0xcc, 0xfe, 0x05, 0x0c, 0x13, 0x1a, 0x21, 0x28, 0x2f, 0x36, 0x3d, 0x44, 0x4b,
      0x52, 0x59, 0x60, 0x67, 0x6e, 0x75, 0x7c, 0xcc, 0x83, 0xcc, 0x8a, 0xcc, 0x91, 0xcc, 0x98, 0xcc, 0x9f, 0xcc,
      0xa6, 0xcc, 0xad, 0xcc, 0xb4, 0xcc, 0xbb, 0xcc, 0xc2, 0xcc, 0xc9, 0xcc, 0xd0, 0xcc, 0xd7, 0xcc, 0xde, 0xcc,
      0xe5, 0xcc, 0xec, 0xcc, 0xf3, 0xcc, 0xfa, 0x01, 0x08, 0x0f, 0x16, 0x1d, 0x24, 0x2b, 0x32, 0x39, 0x40, 0x47,
      0x4e, 0x55, 0x5c, 0x63, 0x6a, 0x71, 0x78, 0x7f, 0xcc, 0x86, 0xcc, 0x8d, 0xcc, 0x94, 0xcc, 0x9b, 0xcc, 0xa2,
      0xcc, 0xa9, 0xcc, 0xb0, 0xcc, 0xb7, 0xcc, 0xbe, 0xcc, 0xc5, 0xcc, 0xcc, 0xcc, 0xd3, 0xcc, 0xda, 0xcc, 0xe1,
      0xcc, 0xe8, 0xcc, 0xef, 0xcc, 0xf6, 0xcc, 0xfd, 0x04, 0x0b, 0x12, 0x19, 0x20, 0x27, 0x2e, 0x35, 0x3c, 0x43,
      0x4a, 0x51, 0x58, 0x5f, 0x66, 0x6d, 0x74, 0x7b, 0xcc, 0x82, 0xcc, 0x89, 0xcc, 0x90, 0xcc, 0x97, 0xcc, 0x9e,
      0xcc, 0xa5, 0xcc, 0xac, 0xcc, 0xb3, 0xcc, 0xba, 0xcc, 0xc1, 0xcc, 0xc8, 0xcc, 0xcf, 0xcc, 0xd6, 0xcc, 0xdd,
      0xcc, 0xe4, 0xcc, 0xeb, 0xcc, 0xf2, 0xcc, 0xf9, 0x00, 0x07, 0x0e, 0x15, 0x1c, 0x23, 0x2a, 0x31, 0x38, 0x3f,
      0x46, 0x4d, 0x54, 0x5b, 0x62, 0x69, 0x70, 0x77, 0x7e, 0xcc, 0x85, 0xcc, 0x8c, 0xcc, 0x93, 0xcc, 0x9a, 0xcc,
      0xa1, 0xcc, 0xa8, 0xcc, 0xaf, 0xcc, 0xb6, 0xcc, 0xbd, 0xcc, 0xc4, 0xcc, 0xcb, 0xcc, 0xd2, 0xcc, 0xd9, 0xcc,
      0xe0, 0xcc, 0xe7, 0xcc, 0xee, 0xcc, 0xf5, 0xcc, 0xfc, 0x03, 0x0a, 0x11, 0x18, 0x1f, 0x26, 0x2d, 0x34, 0x3b,
      0x42, 0x49, 0x50, 0x57, 0x5e, 0x65, 0x6c, 0x73, 0x7a, 0xcc, 0x81, 0xcc, 0x88, 0xcc, 0x8f, 0xcc, 0x96, 0xcc,
      0x9d, 0xcc, 0xa4, 0xcc, 0xab, 0xcc, 0xb2, 0xcc, 0xb9, 0xcc, 0xc0, 0xcc, 0xc7, 0xcc, 0xce, 0xcc, 0xd5, 0xcc,
      0xdc, 0xcc, 0xe3, 0xcc, 0xea, 0xcc, 0xf1, 0xcc, 0xf8, 0xcc, 0xff, 0x06, 0x0d, 0x14, 0x1b, 0x22, 0x29, 0x30,
      0x37, 0x3e, 0x45, 0x4c, 0x53, 0x5a, 0x61, 0x68, 0x6f, 0x76, 0x7d, 0xcc, 0x84, 0xcc, 0x8b, 0xcc, 0x92, 0xcc,
      0x99, 0xcc, 0xa0, 0xcc, 0xa7, 0xcc, 0xae, 0xcc, 0xb5, 0xcc, 0xbc, 0xcc, 0xc3, 0xcc, 0xca, 0xcc, 0xd1, 0xcc,
      0xd8, 0xcc, 0xdf, 0xcc, 0xe6, 0xcc, 0xed, 0xcc, 0xf4, 0xcc, 0xfb, 0x02, 0x09, 0x10, 0x17, 0x1e, 0x25, 0x2c,
      0x33, 0x3a, 0x41, 0x48, 0x4f, 0x56, 0x5d, 0x64, 0x6b, 0x72, 0x79, 0xcc, 0x80, 0xcc, 0x87, 0xcc, 0x8e, 0xcc,
      0x95, 0xcc, 0x9c, 0xcc, 0xa3, 0xcc, 0xaa, 0xcc, 0xb1, 0xcc, 0xb8, 0xcc, 0xbf, 0xcc, 0xc6, 0xcc, 0xcd, 0xcc,
      0xd4, 0xcc, 0xdb, 0xcc, 0xe2, 0xcc, 0xe9, 0xcc, 0xf0, 0xcc, 0xf7, 0xcc, 0xfe, 0x05, 0x0c, 0x13, 0x1a, 0x21,
      0x28, 0x2f, 0x36, 0x3d, 0x44, 0x4b, 0x52, 0x59, 0x60, 0x67, 0x6e, 0x75, 0x7c, 0xcc, 0x83, 0xcc, 0x8a, 0xcc,
      0x91, 0xcc, 0x98, 0xcc, 0x9f, 0xcc, 0xa6, 0xcc, 0xad, 0xcc, 0xb4, 0xcc, 0xbb, 0xcc, 0xc2, 0xcc, 0xc9, 0xcc,
      0xd0, 0xcc, 0xd7, 0xcc, 0xde, 0xcc, 0xe5, 0xcc, 0xec, 0xcc, 0xf3, 0xcc, 0xfa, 0x01, 0x08, 0x0f, 0x16, 0x1d,
      0x24, 0x2b, 0x32, 0x39, 0x40, 0x47, 0x4e, 0x55, 0x5c, 0x63, 0x6a, 0x71, 0x78, 0x7f, 0xcc, 0x86, 0xcc, 0x8d,
      0xcc, 0x94, 0xcc, 0x9b, 0xcc, 0xa2, 0xcc, 0xa9, 0xcc, 0xb0, 0xcc, 0xb7, 0xcc, 0xbe, 0xcc, 0xc5, 0xcc, 0xcc,
      0xcc, 0xd3, 0xcc, 0xda, 0xcc, 0xe1, 0xcc, 0xe8, 0xcc, 0xef, 0xcc, 0xf6, 0xcc, 0xfd, 0x04, 0x0b, 0x12, 0x19,
      0x20, 0x27, 0x2e, 0x35, 0x3c, 0x43, 0x4a, 0x51, 0x58, 0x5f, 0x66, 0x6d, 0x74, 0x7b, 0xcc, 0x82, 0xcc, 0x89,
      0xcc, 0x90, 0xcc, 0x97, 0xcc, 0x9e, 0xcc, 0xa5, 0xcc, 0xac, 0xcc, 0xb3, 0xcc, 0xba, 0xcc, 0xc1, 0xcc, 0xc8,
      0xcc, 0xcf, 0xcc, 0xd6, 0xcc, 0xdd, 0xcc, 0xe4, 0xcc, 0xeb, 0xcc, 0xf2, 0xcc, 0xf9, 0x00, 0x07, 0x0e, 0x15,
      0x1c, 0x23, 0x2a, 0x31, 0x38, 0x3f, 0x46, 0x4d, 0x54, 0x5b, 0x62, 0x69, 0x70, 0x77, 0x7e, 0xcc, 0x85, 0xcc,
      0x8c, 0xcc, 0x93, 0xcc, 0x9a, 0xcc, 0xa1, 0xcc, 0xa8, 0xcc, 0xaf, 0xcc, 0xb6, 0xcc, 0xbd, 0xcc, 0xc4, 0xcc,
      0xcb, 0xcc, 0xd2, 0xcc, 0xd9, 0xcc, 0xe0, 0xcc, 0xe7, 0xcc, 0xee, 0xcc, 0xf5, 0xcc, 0xfc, 0x03, 0x0a, 0x11,
      0x18, 0x1f, 0x26, 0x2d, 0x34, 0x3b, 0x42, 0x49, 0x50, 0x57, 0x5e, 0x65, 0x6c, 0x73, 0x7a, 0xcc, 0x81, 0xcc, 0x88]"

definition PROOF_BIN :: "byte list" where
  "PROOF_BIN = [0x01, 0x93, 0x91, 0x97] @ concat PROOF_ENTRIES @ PROOF_TAIL"

section \<open>The tests\<close>

definition decodes_every_field_of_the_evmlib_quote :: "(sty \<Rightarrow> byte list \<Rightarrow> sval result) \<Rightarrow> bool" where
  "decodes_every_field_of_the_evmlib_quote from_slice \<longleftrightarrow>
     (case parse_quote from_slice QUOTE_RMP of
        Inl e \<Rightarrow> False
      | Inr quote \<Rightarrow>
          content quote = content expected_quote
          \<and> secs (timestamp quote) = secs (timestamp expected_quote)
          \<and> nanos (timestamp quote) = nanos (timestamp expected_quote)
          \<and> price quote = price expected_quote
          \<and> rewards_address quote = rewards_address expected_quote
          \<and> length (pub_key quote) = 1952 \<and> list_all (\<lambda>b. b = 7) (pub_key quote)
          \<and> length (signature quote) = 3309 \<and> list_all (\<lambda>b. b = 9) (signature quote)
          \<and> committed_key_count quote = 424242
          \<and> commitment_pin quote = commitment_pin expected_quote
          \<and> quote = expected_quote)"

definition reencodes_the_quote_byte_for_byte ::
    "(sval \<Rightarrow> byte list result) \<Rightarrow> (sty \<Rightarrow> byte list \<Rightarrow> sval result) \<Rightarrow> bool" where
  "reencodes_the_quote_byte_for_byte to_vec from_slice \<longleftrightarrow>
     (case parse_quote from_slice QUOTE_RMP of
        Inl e \<Rightarrow> False
      | Inr quote \<Rightarrow> encode_quote to_vec quote = Inr QUOTE_RMP \<and> encode_quote to_vec expected_quote = Inr QUOTE_RMP)"

definition matches_the_signed_payload_and_quote_hash :: "crates \<Rightarrow> (sty \<Rightarrow> byte list \<Rightarrow> sval result) \<Rightarrow> bool" where
  "matches_the_signed_payload_and_quote_hash cr from_slice \<longleftrightarrow>
     (case parse_quote from_slice QUOTE_RMP of
        Inl e \<Rightarrow> False
      | Inr quote \<Rightarrow> bytes_for_sig quote = expected_bytes_for_sig \<and> quote_hash cr quote = expected_hash)"

definition builds_the_tagged_single_node_proof_byte_for_byte :: "(sval \<Rightarrow> byte list result) \<Rightarrow> bool" where
  "builds_the_tagged_single_node_proof_byte_for_byte to_vec \<longleftrightarrow>
     PROOF_TAG_SINGLE_NODE = 1 \<and> length expected_peer_quotes = 7 \<and> length expected_sidecars = 2
     \<and> (case serialize_single_node_proof to_vec expected_peer_quotes expected_tx_hash expected_sidecars of
          Inl e \<Rightarrow> False
        | Inr bytes \<Rightarrow> length bytes = 46478 \<and> bytes = PROOF_BIN)"

definition decodes_the_tagged_single_node_proof :: "(sty \<Rightarrow> byte list \<Rightarrow> sval result) \<Rightarrow> bool" where
  "decodes_the_tagged_single_node_proof from_slice \<longleftrightarrow>
     (case parse_single_node_proof from_slice PROOF_BIN of
        Inl e \<Rightarrow> False
      | Inr decoded \<Rightarrow>
          length (peer_quotes (proof_of_payment decoded)) = 7
          \<and> list_all (\<lambda>(pq, expected_pq). fst pq = fst expected_pq \<and> snd pq = snd expected_pq)
              (zip (peer_quotes (proof_of_payment decoded)) expected_peer_quotes)
          \<and> length (tx_hashes decoded) = 1
          \<and> tx_hashes decoded ! 0 = expected_tx_hash
          \<and> commitment_sidecars decoded = expected_sidecars
          \<and> isl (parse_single_node_proof from_slice [])
          \<and> (let bad = PROOF_BIN[0 := 0x02] in isl (parse_single_node_proof from_slice bad)))"

definition old_format_quote_decodes_via_trailing_defaults ::
    "(sval \<Rightarrow> byte list result) \<Rightarrow> (sty \<Rightarrow> byte list \<Rightarrow> sval result) \<Rightarrow> bool" where
  "old_format_quote_decodes_via_trailing_defaults to_vec from_slice \<longleftrightarrow>
     (case parse_quote from_slice QUOTE_RMP of
        Inl e \<Rightarrow> False
      | Inr quote \<Rightarrow>
          (case encode_quote to_vec (quote\<lparr>committed_key_count := 0, commitment_pin := None\<rparr>) of
             Inl e \<Rightarrow> False
           | Inr old \<Rightarrow>
               0 < length old \<and> old ! 0 = 0x98
               \<and> (let old = old[0 := 0x96]; old = take (length old - 2) old in
                  case parse_quote from_slice old of
                    Inl e \<Rightarrow> False
                  | Inr decoded \<Rightarrow>
                      committed_key_count decoded = 0 \<and> commitment_pin decoded = None
                      \<and> content decoded = content quote \<and> signature decoded = signature quote)))"

definition peer_id_encodes_as_a_msgpack_array_not_a_bin :: "(sval \<Rightarrow> byte list result) \<Rightarrow> bool" where
  "peer_id_encodes_as_a_msgpack_array_not_a_bin to_vec \<longleftrightarrow>
     (case to_vec (sv_PeerId (replicate 32 0x01)) of
        Inl e \<Rightarrow> False
      | Inr encoded \<Rightarrow> take 3 encoded = [0xdc, 0x00, 0x20] \<and> length encoded = 3 + 32)"

section \<open>They pass\<close>

text \<open>MessagePack writes a sequence of bytes as one unsigned integer each.\<close>

lemma enc_u8s: "enc_all msgpack_fmt (map SU8 bs) = Some (concat (map (\<lambda>b. mp_uint (unat b)) bs))"
  by (induction bs) (simp_all add: enc_all.simps(2))

lemma mp_byte: "mp_uint (unat (b :: byte)) = (if b < 0x80 then [b] else [0xcc, b])"
proof -
  have "unat b < 256" using unsigned_less [of b, where ?'a = nat] by simp
  then show ?thesis
    by (simp add: mp_uint_def marker_def word_less_nat_alt byte_simps)
qed

lemmas enc_quote_simps = sv_Quote_def sv_Timestamp_def sv_array_def sv_list_def sv_opt_def put_with_hdr_def
  enc_all.simps(2) enc_u8s mp_byte mp_len_def mp_uint_def marker_def

lemma concat_single: "concat (replicate n [b]) = replicate n b"
  by (induction n) simp_all

lemma fixture_quote_encodes: "enc msgpack_fmt (sv_Quote expected_quote) = Some QUOTE_RMP"
  unfolding expected_quote_def QUOTE_RMP_def quote_from_json_def
  by (simp add: enc_quote_simps concat_single byte_simps map_replicate_const)

lemma fixture_quote_wf: "wf_Quote expected_quote"
  by (simp add: wf_Quote_def expected_quote_def quote_from_json_def)

lemma fixture_quote:
  "encode_quote (fmt_to_bytes msgpack_fmt) expected_quote = Inr QUOTE_RMP"
  "parse_quote (fmt_from_bytes msgpack_fmt) QUOTE_RMP = Inr expected_quote"
proof -
  have "fmt_to_bytes msgpack_fmt (sv_Quote expected_quote) = Inr QUOTE_RMP"
    by (simp add: fmt_to_bytes_def fixture_quote_encodes)
  then show "encode_quote (fmt_to_bytes msgpack_fmt) expected_quote = Inr QUOTE_RMP"
    "parse_quote (fmt_from_bytes msgpack_fmt) QUOTE_RMP = Inr expected_quote"
    using mp_quote.read_written [OF fixture_quote_wf] by (simp_all add: encode_quote_def parse_quote_def map_err_def)
qed

lemma decode_test: "decodes_every_field_of_the_evmlib_quote (fmt_from_bytes msgpack_fmt)"
  by (simp add: decodes_every_field_of_the_evmlib_quote_def fixture_quote(2))
    (simp add: expected_quote_def quote_from_json_def list_all_iff)

lemma reencode_test: "reencodes_the_quote_byte_for_byte (fmt_to_bytes msgpack_fmt) (fmt_from_bytes msgpack_fmt)"
  by (simp add: reencodes_the_quote_byte_for_byte_def fixture_quote)

lemma signed_payload: "bytes_for_sig expected_quote = expected_bytes_for_sig"
  by (simp add: bytes_for_sig_eq expected_quote_def expected_bytes_for_sig_def quote_from_json_def pin_bytes_def byte_simps)

lemma peer_id_test: "peer_id_encodes_as_a_msgpack_array_not_a_bin (fmt_to_bytes msgpack_fmt)"
  by (simp add: peer_id_encodes_as_a_msgpack_array_not_a_bin_def fmt_to_bytes_def sv_PeerId_def sv_list_def
      put_with_hdr_def enc_u8s mp_uint_def marker_def mp_len_def concat_single byte_simps)

text \<open>
  A quote of six fields: what a node from before the commitments sends is what the client would send for the
  quote without the last two, and it decodes to that quote.
\<close>

lemma enc_all_append: "enc_all f vs = Some b \<Longrightarrow> enc_all f ws = Some c \<Longrightarrow> enc_all f (vs @ ws) = Some (b @ c)"
  by (induction vs arbitrary: b) (auto simp: res_iff)

lemma dec_fields_append:
  "dec_fields f (length ts) (ts @ ds) bs = chain (dec_fields f (length ts) ts bs)
     (\<lambda>vs r. chain (dec_fields f 0 ds r) (\<lambda>ws r. Some (vs @ ws, r)))"
proof (induction ts arbitrary: bs)
  case Nil
  then show ?case by (cases ds) (auto simp: chain_def split: option.splits)
next
  case (Cons t ts)
  then show ?case by (auto simp: chain_def split: option.splits)
qed

lemma old_format_quote:
  assumes "wf_Quote q" and "committed_key_count q = 0" and "commitment_pin q = None"
    and "encode_quote (fmt_to_bytes msgpack_fmt) q = Inr old"
  shows "\<exists>body. old = 0x98 # body @ [0x00, 0xc0] \<and> parse_quote (fmt_from_bytes msgpack_fmt) (0x96 # body) = Inr q"
proof -
  let ?ts = "[array_ty 32, ty_Timestamp, TBytes 32, TBytes 20, TSeq TU8, TSeq TU8]"
  let ?vs = "[sv_array (content q), sv_Timestamp (timestamp q), SBytes (price q), SBytes (rewards_address q),
     sv_list SU8 (pub_key q), sv_list SU8 (signature q)]"
  have q: "sv_Quote q = SStruct (?vs @ [SU32 0, SNone])" using assms(2,3) by (simp add: sv_Quote_def sv_opt_def)
  have shapes: "\<forall>t \<in> set ?ts. msgpack.rt t"
    using payment_shapes(1) msgpack.decodes by (simp add: ty_Quote_def)
  have fits: "conforms_all ?ts ?vs"
    using wq.sv_conforms [OF assms(1)] by (simp add: ty_Quote_def sv_Quote_def serde_simps)
  have "enc msgpack_fmt (sv_Quote q) = Some old"
    using assms(4) by (simp add: encode_quote_def fmt_to_bytes_def map_err_def split: option.splits)
  moreover have "enc_all msgpack_fmt (?vs @ [SU32 0, SNone]) = Some c \<Longrightarrow> \<exists>body. enc_all msgpack_fmt ?vs = Some body" for c
    by (auto simp: res_iff)
  ultimately obtain body where body: "enc_all msgpack_fmt ?vs = Some body"
    by (auto simp: q res_iff)
  have "enc_all msgpack_fmt [SU32 0, SNone] = Some [0x00, 0xc0]"
    by (simp add: enc_all.simps(2) mp_uint_def marker_def)
  from enc_all_append [OF body this] \<open>enc msgpack_fmt (sv_Quote q) = Some old\<close>
  have old: "old = 0x98 # body @ [0x00, 0xc0]"
    by (simp add: q put_with_hdr_def mp_len_def marker_def)
  have "dec_fields msgpack_fmt (length ?ts) ?ts (body @ []) = Some (?vs, [])"
    using msgpack.rt_all [OF shapes fits body] by blast
  then have "dec_fields msgpack_fmt 6 (?ts @ [TDefault (SU32 0) TU32, TDefault SNone (TOption (array_ty 32))]) body
      = Some (?vs @ [SU32 0, SNone], [])"
    using dec_fields_append [of msgpack_fmt ?ts "[TDefault (SU32 0) TU32, TDefault SNone (TOption (array_ty 32))]" body]
    by simp
  then have "dec msgpack_fmt ty_Quote (0x96 # body) = Some (sv_Quote q, [])"
    by (simp add: ty_Quote_def q)
  then have "parse_quote (fmt_from_bytes msgpack_fmt) (0x96 # body) = Inr q"
    using wq.un_sv [OF assms(1)] by (simp add: parse_quote_def read_value_def fmt_from_bytes_def map_err_def)
  with old show ?thesis by blast
qed

text \<open>The proof of seven quotes, entry by entry.\<close>

abbreviation sv_entry :: "byte list \<times> Quote \<Rightarrow> sval" where
  "sv_entry \<equiv> \<lambda>(i, q). STuple [sv_PeerId i, sv_Quote q]"

lemma entries_encode: "list_all2 (\<lambda>p bs. enc msgpack_fmt (sv_entry p) = Some bs) expected_peer_quotes PROOF_ENTRIES"
  unfolding expected_peer_quotes_def PROOF_ENTRIES_def quote_from_json_def
  by (simp add: enc_quote_simps sv_PeerId_def concat_single byte_simps map_replicate_const)

lemma enc_all_pointwise: "list_all2 (\<lambda>x bs. enc f (g x) = Some bs) xs bss \<Longrightarrow> enc_all f (map g xs) = Some (concat bss)"
  by (induction rule: list_all2_induct) (simp_all add: enc_all.simps(2))

lemma tail_encodes:
  "enc_all msgpack_fmt [sv_list sv_TxHash [expected_tx_hash], sv_list (sv_list SU8) expected_sidecars] = Some PROOF_TAIL"
  unfolding expected_tx_hash_def expected_sidecars_def PROOF_TAIL_def
  by (simp add: enc_quote_simps sv_TxHash_def byte_simps)

abbreviation expected_proof :: PaymentProof where
  "expected_proof \<equiv> \<lparr>proof_of_payment = \<lparr>peer_quotes = expected_peer_quotes\<rparr>, tx_hashes = [expected_tx_hash],
     commitment_sidecars = expected_sidecars\<rparr>"

lemma expected_counts: "length expected_peer_quotes = 7" "length expected_sidecars = 2"
  by (simp_all add: expected_peer_quotes_def expected_sidecars_def)

lemma fixture_proof_encodes:
  "enc msgpack_fmt (sv_PaymentProof expected_proof) = Some ([0x93, 0x91, 0x97] @ concat PROOF_ENTRIES @ PROOF_TAIL)"
proof -
  have "enc msgpack_fmt (sv_ProofOfPayment \<lparr>peer_quotes = expected_peer_quotes\<rparr>) = Some ([0x91, 0x97] @ concat PROOF_ENTRIES)"
    using enc_all_pointwise [OF entries_encode]
    by (simp add: sv_ProofOfPayment_def sv_list_def put_with_hdr_def mp_len_def marker_def enc_all.simps(2) expected_counts)
  with tail_encodes show ?thesis
    by (simp add: sv_PaymentProof_def put_with_hdr_def mp_len_def marker_def enc_all.simps(2) [of _ "sv_ProofOfPayment p" for p])
qed

lemma fixture_proof:
  "serialize_single_node_proof (fmt_to_bytes msgpack_fmt) expected_peer_quotes expected_tx_hash expected_sidecars = Inr PROOF_BIN"
  "parse_single_node_proof (fmt_from_bytes msgpack_fmt) PROOF_BIN = Inr expected_proof"
proof -
  have body: "fmt_to_bytes msgpack_fmt (sv_PaymentProof expected_proof) = Inr ([0x93, 0x91, 0x97] @ concat PROOF_ENTRIES @ PROOF_TAIL)"
    by (simp add: fmt_to_bytes_def fixture_proof_encodes)
  then show "serialize_single_node_proof (fmt_to_bytes msgpack_fmt) expected_peer_quotes expected_tx_hash expected_sidecars
      = Inr PROOF_BIN"
    by (simp add: serialize_single_node_proof_def encode_proof_def map_err_def PROOF_BIN_def PROOF_TAG_SINGLE_NODE_def)
  have "list_all (\<lambda>(i, q). length i = 32 \<and> wf_Quote q) expected_peer_quotes"
    by (simp add: expected_peer_quotes_def quote_from_json_def wf_Quote_def)
  then have "wf_PaymentProof expected_proof"
    by (simp add: wf_PaymentProof_def wf_ProofOfPayment_def expected_tx_hash_def)
  from mp_proof.read_written [OF this body]
  show "parse_single_node_proof (fmt_from_bytes msgpack_fmt) PROOF_BIN = Inr expected_proof"
    by (simp add: parse_single_node_proof_def PROOF_BIN_def PROOF_TAG_SINGLE_NODE_def map_err_def)
qed

lemma proof_length: "length PROOF_BIN = 46478"
  by (simp add: PROOF_BIN_def PROOF_ENTRIES_def PROOF_TAIL_def length_concat sum_list_replicate)

lemma build_test: "builds_the_tagged_single_node_proof_byte_for_byte (fmt_to_bytes msgpack_fmt)"
  by (simp add: builds_the_tagged_single_node_proof_byte_for_byte_def fixture_proof expected_counts proof_length
      PROOF_TAG_SINGLE_NODE_def)

lemma parse_test: "decodes_the_tagged_single_node_proof (fmt_from_bytes msgpack_fmt)"
proof -
  have "isl (parse_single_node_proof (fmt_from_bytes msgpack_fmt) (PROOF_BIN[0 := 0x02]))"
    by (simp add: parse_single_node_proof_def PROOF_BIN_def PROOF_TAG_SINGLE_NODE_def)
  moreover have "isl (parse_single_node_proof (fmt_from_bytes msgpack_fmt) [])"
    by (simp add: parse_single_node_proof_def)
  moreover have "list_all (\<lambda>(p, p'). fst p = fst p' \<and> snd p = snd p') (zip xs xs)" for xs :: "(byte list \<times> Quote) list"
    by (induction xs) simp_all
  ultimately show ?thesis
    by (simp add: decodes_the_tagged_single_node_proof_def fixture_proof expected_counts Let_def)
qed

lemma old_format_test:
  "old_format_quote_decodes_via_trailing_defaults (fmt_to_bytes msgpack_fmt) (fmt_from_bytes msgpack_fmt)"
proof -
  let ?q = "expected_quote\<lparr>committed_key_count := 0, commitment_pin := None\<rparr>"
  have wf: "wf_Quote ?q" using fixture_quote_wf by (simp add: wf_Quote_def)
  have "\<exists>old. encode_quote (fmt_to_bytes msgpack_fmt) ?q = Inr old"
    by (simp add: encode_quote_def fmt_to_bytes_def map_err_def expected_quote_def quote_from_json_def enc_quote_simps)
  then obtain old body where old: "encode_quote (fmt_to_bytes msgpack_fmt) ?q = Inr old" "old = 0x98 # body @ [0x00, 0xc0]"
    "parse_quote (fmt_from_bytes msgpack_fmt) (0x96 # body) = Inr ?q"
    using old_format_quote [OF wf] by fastforce
  then show ?thesis
    by (simp add: old_format_quote_decodes_via_trailing_defaults_def fixture_quote)
qed

text \<open> C21. The client speaks the network's payment format: with the published MessagePack layout for
  \<open>rmp_serde\<close>, the tests against the bytes that the real \<open>evmlib\<close> and \<open>ant-protocol\<close> wrote pass. The quote of
  the fixture decodes field by field, encodes back byte for byte and has the signed payload of the fixture; so
  its hash is right as soon as Keccak-256 is right on the hashed bytes; the proof of seven quotes is built and
  parsed byte for byte, and a foreign tag refused; a quote without the two trailing fields still decodes.\<close>
theorem wire_tests_pass:
  "decodes_every_field_of_the_evmlib_quote (fmt_from_bytes msgpack_fmt)
   \<and> reencodes_the_quote_byte_for_byte (fmt_to_bytes msgpack_fmt) (fmt_from_bytes msgpack_fmt)
   \<and> (matches_the_signed_payload_and_quote_hash cr (fmt_from_bytes msgpack_fmt)
      \<longleftrightarrow> keccak256 cr (expected_bytes_for_sig @ replicate 1952 7 @ replicate 3309 9) = expected_hash)
   \<and> builds_the_tagged_single_node_proof_byte_for_byte (fmt_to_bytes msgpack_fmt)
   \<and> decodes_the_tagged_single_node_proof (fmt_from_bytes msgpack_fmt)
   \<and> old_format_quote_decodes_via_trailing_defaults (fmt_to_bytes msgpack_fmt) (fmt_from_bytes msgpack_fmt)
   \<and> peer_id_encodes_as_a_msgpack_array_not_a_bin (fmt_to_bytes msgpack_fmt)"
proof -
  have "pub_key expected_quote = replicate 1952 7" "signature expected_quote = replicate 3309 9"
    by (simp_all add: expected_quote_def quote_from_json_def)
  then have "matches_the_signed_payload_and_quote_hash cr (fmt_from_bytes msgpack_fmt)
      \<longleftrightarrow> keccak256 cr (expected_bytes_for_sig @ replicate 1952 7 @ replicate 3309 9) = expected_hash"
    by (simp add: matches_the_signed_payload_and_quote_hash_def fixture_quote signed_payload quote_hash_def quote_preimage_def)
  with decode_test reencode_test build_test parse_test old_format_test peer_id_test show ?thesis by blast
qed

end
