(* ===== verification/Spec2Isabelle.thy ===== *)
theory Spec2Isabelle
  imports Sessions Schedules Relay Uploads Pages Evm_Tests Wire_Tests
begin

text \<open>
  A verification development for the browser client of the Autonomi WebRTC-Direct lane, a Rust program
  compiled to WebAssembly. A page connects the client to a bootstrap node, downloads public files by the
  address of their data map and uploads files, paying for them through a callback. Nodes are not trusted:
  everything the client concludes rests on hashes, signatures and an authenticated, encrypted session.

  \<^bold>\<open>The program and its model.\<close> The parts call each other from the bottom of this list to its top; each
  theory names the functions of its source file.

    \<^item> \<open>Prelude\<close>: words and bytes, big-endian encodings, splitting into chunks, results and the asynchronous
      state functions of all handlers. \<open>('s, 'a) async\<close> is \<open>'s \<Rightarrow> 'a result poll \<times> 's\<close>: a Rust \<open>async fn\<close> that
      returns \<open>Result<T, String>\<close>, where \<open>Pending\<close> is a future that never completes.
    \<^item> \<open>Serde\<close>, \<open>Formats\<close>: serde's data model, derived implementations as \<open>sv_\<close> (serialize), \<open>un_\<close>
      (deserialize) and \<open>ty_\<close> (shape), and two formats in the style of postcard and MessagePack that
      instantiate the interface of the format crates.
    \<^item> \<open>Crates\<close>: the cryptographic crates as a record of functions, the behaviour of theirs that is relied on
      as named hypotheses, and one concrete instance for the witnesses.
    \<^item> \<open>Protocol\<close> (\<open>src/protocol.rs\<close>), \<open>Discovery\<close> (\<open>src/discovery.rs\<close>), \<open>Payment\<close> (\<open>src/payment.rs\<close>): the wire
      types with their encoders and decoders; quotes, their signed bytes and check, and the payment proof.
    \<^item> \<open>Evm\<close> (\<open>src/evm.rs\<close>): calldata, 256-bit arithmetic on 32-byte arrays, and the split of a payment.
    \<^item> \<open>Evm_Tests\<close> (\<open>mod tests\<close> of \<open>src/evm.rs\<close>), \<open>Wire_Tests\<close> (\<open>tests/payment_wire.rs\<close> with its fixtures): the
      tests of the repository as predicates, and that the model passes them. The second hold the wire types of
      \<open>Payment\<close> and the MessagePack format of \<open>Formats\<close> against bytes that the real \<open>evmlib\<close> wrote.
    \<^item> \<open>Framing\<close> (\<open>src/framing.rs\<close>), \<open>Sdp\<close> (\<open>src/sdp.rs\<close>), \<open>Transport\<close> (\<open>src/webrtc.rs\<close>): length-prefixed frames
      over a channel of small messages; the session descriptions; connecting, the two waits, sending and
      receiving, over a record \<open>peer_connection\<close> of what the browser does, and after how many milliseconds,
      and a \<open>link\<close> of what arrives.
    \<^item> \<open>Tunnel\<close> (\<open>src/tunnel.rs\<close>), \<open>Conn\<close> (\<open>src/conn.rs\<close>): the post-quantum handshake and record layer; a
      connection with its sequence number and request lock, and the requests made on it.
    \<^item> \<open>Retrieval\<close> (\<open>src/retrieval.rs\<close>): the state machine that verifies and walks the data map of a file.
    \<^item> \<open>Client\<close> (\<open>src/lib.rs\<close>): the client, with its pool of connections, download, upload and diagnostics.
      Connections are shared in Rust (\<open>Rc\<close>); here they live in a store \<open>conns\<close> and are named by position.
    \<^item> \<open>Futures\<close>: the futures of \<open>join_all\<close> in a download as machines with one state per await, any of which may
      take the next step. The function \<open>download\<close> of \<open>Client\<close> is one of the schedules, and all of them end.
    \<^item> \<open>Tasks\<close>: every exported method that awaits, once more, as a task with one step per await (\<open>download_task\<close>
      for \<open>download\<close>, and so on), and a page that begins any call at any time (\<open>page_run\<close>), whose calls take
      their steps in any order (\<open>calls_step\<close>). A request is one step from the moment it has the lock of its
      connection to the lock's release; its number is read in a step of its own, as the code reads it before
      the lock. The functions of \<open>Client\<close> are proved to be runs of the tasks.

  \<^bold>\<open>The lemma groups.\<close>

    \<^item> \<open>Client_Steps\<close>: the locales \<open>client_relation\<close> and \<open>paying_relation\<close> prove once that every operation keeps
      any relation its single steps keep. They are interpreted on \<open>client_step\<close>, which carries the
      invariant \<open>client_ok\<close> of the pool, and on \<open>unpaid\<close>. \<open>client_run\<close> is the life of a client: connected, then
      any calls of the page with any outcome, downloads in any schedule.
    \<^item> \<open>Retrieval\<close>: besides its operations, \<open>denoted_by\<close>, what a set of byte strings shows an address to stand for,
      and that two downloads of one address agree unless the bytes they were given contain a hash collision.
    \<^item> \<open>Fetch\<close> and \<open>Store\<close>: what a download and the storing of a chunk establish over a network that may
      answer anything: the hash of what is returned, the verified quotes behind each payment, the
      acknowledgements behind a success.
    \<^item> \<open>Node\<close>: a specification of the other end. An honest node runs the protocol for some service function
      \<open>ns_serve\<close>; \<open>synced\<close> says that a connection and the node agree, and is kept by every request.
    \<^item> \<open>Network\<close> and \<open>Roundtrip\<close>: the abstract specification \<open>retrieve\<close> of a download, two rounds of fetching
      over a function from addresses to bytes, and its refinement by the client over honest nodes; what is
      uploaded and found is retrieved.
    \<^item> \<open>Interleaving\<close>: downloads under every schedule, over any network and over honest nodes.
    \<^item> \<open>Storing\<close>: quoting, payment and PUT over honest nodes, for one chunk and for a whole upload.
    \<^item> \<open>Alone\<close>: a task that nothing interferes with does what the function does.
    \<^item> \<open>Interference\<close>: rely and guarantee for tasks. \<open>assures R\<close> says that every step of a task keeps the relation
      \<open>R\<close> and that its value has a property, as long as the others keep \<open>R\<close>; the rules follow the structure of a task.
    \<^item> \<open>Page\<close>, \<open>Wallet\<close>: what each call of a page assures under \<open>page_keeps\<close>, which carries the invariant of the
      pool and of the calls of \<open>pay\<close>; and the invariant \<open>page_ok\<close> of every reachable page, over any network.
    \<^item> \<open>Endings\<close>: the steps of any number of calls are well-founded, and what is left has returned or waits.
    \<^item> \<open>Delivery\<close>, \<open>Deposit\<close>, \<open>Relaying\<close>, \<open>Overlap\<close>: \<open>fulfils\<close>, the same for honest nodes: requests are set aside
      for each call when it begins, and in every order of the steps downloads return what \<open>retrieve\<close> and the
      stores of the responsible peers say, uploads are quoted, paid and accepted, and relayed fetches completed.
    \<^item> \<open>Test_Node\<close>, \<open>Test_World\<close>: one concrete honest node, a small self-encryption and a whole environment, in
      which the witnesses run the complete client from the dialled connection up.
    \<^item> \<open>Sessions\<close>, \<open>Downloads\<close>, \<open>Schedules\<close>, \<open>Relay\<close>, \<open>Uploads\<close>, \<open>Pages\<close>: the properties that span the
      components, the last one for calls that overlap.

  \<^bold>\<open>Interfaces.\<close> \<open>serde_codec\<close> (a format), \<open>wire_type\<close> (a serializable type) and \<open>wire_codec\<close> (both) are
  interpreted on the two formats and on every message type; \<open>wire_format\<close> gives \<open>serde_codec\<close>;
  \<open>incremental_parser\<close> is interpreted on the frame buffer; \<open>state_relation\<close> and its extensions on the
  connection and the client; \<open>interference\<close>, which extends it, on \<open>page_keeps\<close>.

  \<^bold>\<open>Bounds.\<close> Loops are structural recursion (over frames, peers, attempts, items) except the loop of
  \<open>download\<close>, whose termination is proved: \<open>rounds_left\<close> falls with every round and is at most two. No
  definition of the model has fuel. Sequence numbers are 32-bit words and run up to \<open>MAX_SEQ\<close>; the theorems
  over honest nodes carry the number of requests a run may still need as the parameter of \<open>synced\<close> and
  \<open>in_service\<close>, so that they hold for every run that fits. \<open>usize\<close> values that are only counted or compared
  are naturals; frame lengths, request numbers, prices and data sizes keep their width.

  \<^bold>\<open>What is assumed of code outside the repository.\<close> The cryptographic crates, \<open>hex\<close>, the format crates,
  \<open>self_encryption\<close>, the browser and the page's \<open>pay\<close> function are parameters. Theorems that rest on their
  behaviour name it: digests of 32 bytes, \<open>hex\<close> decoding what it encoded, decryption and decapsulation undoing
  their inverses, \<open>verify_chunk\<close> accepting exactly what hashes to the address, \<open>root_monotone\<close> (a data map that
  resolves does so in the same way when more chunks can be fetched), \<open>se_faithful\<close> for the round trip of a
  file. No cryptographic strength is assumed: the safety theorems say which check was passed.

  \<^bold>\<open>Not modelled.\<close> That handlers are registered with the browser and removed again; the order in which callers
  queue for the lock of a connection (any is allowed; a connection whose request never ends blocks them all);
  a page that drops a call or frees the client; how a contract takes the payments of overlapping uploads;
  \<open>to_uppercase\<close> outside ASCII; the wrapping of messages in a JavaScript error by \<open>js_err\<close>; real Keccak-256, so
  that the two tests of selectors and the one of the quote hash are conditions on it. The file
  \<open>src/node_connection.rs\<close> is not compiled; the generator of the fixtures runs the native crates, which are not in
  the repository; the demo page is left aside.
\<close>

end
